(* ===== verification/Ctsc_Prelude.thy ===== *)
theory Ctsc_Prelude
  imports Main "HOL-Library.Word" "HOL-Library.Char_ord" "HOL-Library.List_Lexorder"
    "HOL-Library.Product_Lexorder" "HOL-Library.Option_ord" "HOL-Library.Multiset"
begin

text \<open>
  Shared vocabulary of the development: decimal rendering, diagnostics, indexed loops over lists,
  three-way comparators (Rust's derived \<open>Ord\<close>) and ordered maps (Rust's \<open>BTreeMap\<close>).

  A Rust \<open>str\<close> is its UTF-8 byte sequence, so \<open>string\<close> (a list of bytes) with the library's
  lexicographic order is exactly Rust's byte-wise \<open>str\<close> ordering. A function of the source that
  pushes onto a \<open>&mut Vec\<close> of diagnostics is modelled by the list it pushes, in push order.
\<close>

named_theorems ctsc_simps

section \<open>Decimal rendering\<close>

definition digit_char :: "nat \<Rightarrow> char" where
  "digit_char d = char_of (48 + d)"

fun nat_dec :: "nat \<Rightarrow> string" where
  "nat_dec n = (if n < 10 then [digit_char n] else nat_dec (n div 10) @ [digit_char (n mod 10)])"

declare nat_dec.simps [simp del]

definition int_dec :: "int \<Rightarrow> string" where
  "int_dec i = (if i < 0 then CHR ''-'' # nat_dec (nat (- i)) else nat_dec (nat i))"

definition is_digit :: "char \<Rightarrow> bool" where
  "is_digit c \<longleftrightarrow> 48 \<le> (of_char c :: nat) \<and> (of_char c :: nat) \<le> 57"

definition is_lower :: "char \<Rightarrow> bool" where
  "is_lower c \<longleftrightarrow> 97 \<le> (of_char c :: nat) \<and> (of_char c :: nat) \<le> 122"

definition is_lower_hex :: "char \<Rightarrow> bool" where
  "is_lower_hex c \<longleftrightarrow> is_digit c \<or> 97 \<le> (of_char c :: nat) \<and> (of_char c :: nat) \<le> 102"

definition digit_value :: "char \<Rightarrow> nat" where
  "digit_value c = (of_char c :: nat) - 48"

definition dec_value :: "string \<Rightarrow> nat" where
  "dec_value s = foldl (\<lambda>acc c. 10 * acc + digit_value c) 0 s"

lemma digit_char_value: "d < 10 \<Longrightarrow> digit_value (digit_char d) = d"
  by (simp add: digit_value_def digit_char_def)

lemma digit_char_is_digit: "d < 10 \<Longrightarrow> is_digit (digit_char d)"
  by (simp add: is_digit_def digit_char_def)

lemma dec_value_snoc: "dec_value (s @ [c]) = 10 * dec_value s + digit_value c"
  by (simp add: dec_value_def)

lemma dec_value_Nil [simp]: "dec_value [] = 0"
  by (simp add: dec_value_def)

lemma dec_value_nat_dec: "dec_value (nat_dec n) = n"
proof (induction n rule: nat_dec.induct)
  case (1 n)
  show ?case
  proof (cases "n < 10")
    case True
    then show ?thesis
      using dec_value_snoc [of "[]"] by (simp add: nat_dec.simps [of n] digit_char_value)
  next
    case False
    with 1 show ?thesis
      by (simp add: nat_dec.simps [of n] dec_value_snoc digit_char_value)
  qed
qed

lemma nat_dec_digits: "list_all is_digit (nat_dec n)"
proof (induction n rule: nat_dec.induct)
  case (1 n)
  then show ?case
    by (cases "n < 10") (simp_all add: nat_dec.simps [of n] digit_char_is_digit)
qed

lemma nat_dec_nonempty: "nat_dec n \<noteq> []"
  by (simp add: nat_dec.simps [of n])

lemma nat_dec_inject: "nat_dec m = nat_dec n \<longleftrightarrow> m = n"
  by (metis dec_value_nat_dec)

text \<open>A digit string without a leading zero is the decimal form of its value.\<close>

lemma is_digit_value:
  assumes "is_digit c" shows "digit_value c < 10" "digit_char (digit_value c) = c"
  using assms by (auto simp: is_digit_def digit_value_def digit_char_def)

lemma nat_dec_of_digits:
  "list_all is_digit s \<Longrightarrow> s \<noteq> [] \<Longrightarrow> hd s \<noteq> CHR ''0'' \<Longrightarrow> nat_dec (dec_value s) = s \<and> 0 < dec_value s"
proof (induction s rule: rev_induct)
  case (snoc c s)
  then have c: "digit_value c < 10" "digit_char (digit_value c) = c"
    using is_digit_value by simp_all
  show ?case
  proof (cases "s = []")
    case True
    have "digit_char 0 = CHR ''0''" by code_simp
    with True have "digit_value c \<noteq> 0"
      using snoc.prems(3) c(2) by (metis append_Nil list.sel(1))
    with True show ?thesis
      using c dec_value_snoc [of "[]" c] by (simp add: nat_dec.simps [of "digit_value c"])
  next
    case False
    then have "nat_dec (dec_value s) = s" "0 < dec_value s"
      using snoc by simp_all
    then show ?thesis
      using c by (simp add: dec_value_snoc nat_dec.simps [of "10 * dec_value s + digit_value c"])
  qed
qed simp

section \<open>Validation diagnostics (validation/mod.rs)\<close>

record validation_issue =
  issue_location :: string
  issue_message :: string

type_synonym issues = "validation_issue list"

definition issue :: "string \<Rightarrow> string \<Rightarrow> issues" where
  "issue loc msg = [\<lparr>issue_location = loc, issue_message = msg\<rparr>]"

definition require_that :: "bool \<Rightarrow> string \<Rightarrow> string \<Rightarrow> issues" where
  "require_that c loc msg = (if c then [] else issue loc msg)"

text \<open>Locations \<open>loc[i]\<close> and \<open>loc.name\<close>, and a name between single quotes.\<close>

definition index_loc :: "string \<Rightarrow> nat \<Rightarrow> string" where
  "index_loc loc i = loc @ ''['' @ nat_dec i @ '']''"

definition field_loc :: "string \<Rightarrow> string \<Rightarrow> string" where
  "field_loc loc name = loc @ ''.'' @ name"

definition ticked :: "string \<Rightarrow> string" where
  "ticked s = [CHR 0x27] @ s @ [CHR 0x27]"

lemma issue_not_Nil [simp]: "issue l m \<noteq> []"
  by (simp add: issue_def)

lemma require_that_Nil [simp]: "require_that c l m = [] \<longleftrightarrow> c"
  by (simp add: require_that_def)

section \<open>Loops that emit diagnostics\<close>

text \<open>
  \<open>for_each\<close> is \<open>for x in xs\<close>, \<open>for_indexed\<close> is \<open>for (i, x) in xs.iter().enumerate()\<close>, and
  \<open>loop_state\<close> is such a loop that also updates a local variable.
\<close>

definition for_each :: "('a \<Rightarrow> 'b list) \<Rightarrow> 'a list \<Rightarrow> 'b list" where
  "for_each f xs = concat (map f xs)"

fun for_from :: "nat \<Rightarrow> (nat \<Rightarrow> 'a \<Rightarrow> 'b list) \<Rightarrow> 'a list \<Rightarrow> 'b list" where
  "for_from i f [] = []"
| "for_from i f (x # xs) = f i x @ for_from (Suc i) f xs"

abbreviation for_indexed :: "(nat \<Rightarrow> 'a \<Rightarrow> 'b list) \<Rightarrow> 'a list \<Rightarrow> 'b list" where
  "for_indexed \<equiv> for_from 0"

fun loop_state :: "('s \<Rightarrow> nat \<Rightarrow> 'a \<Rightarrow> 'b list \<times> 's) \<Rightarrow> 's \<Rightarrow> nat \<Rightarrow> 'a list \<Rightarrow> 'b list" where
  "loop_state f s i [] = []"
| "loop_state f s i (x # xs) =
     (case f s i x of (out, s') \<Rightarrow> out @ loop_state f s' (Suc i) xs)"

lemma for_each_simps [simp]:
  "for_each f [] = []" "for_each f (x # xs) = f x @ for_each f xs"
  by (simp_all add: for_each_def)

lemma for_each_Nil_iff: "for_each f xs = [] \<longleftrightarrow> (\<forall>x\<in>set xs. f x = [])"
  by (induction xs) auto

lemma for_from_Nil_iff: "for_from k f xs = [] \<longleftrightarrow> (\<forall>i<length xs. f (k + i) (xs ! i) = [])"
  by (induction xs arbitrary: k) (auto simp: All_less_Suc2)

lemma for_from_Nil_each: "for_from k f xs = [] \<Longrightarrow> x \<in> set xs \<Longrightarrow> \<exists>i. f i x = []"
  by (metis for_from_Nil_iff in_set_conv_nth)

lemma loop_state_Nil_each:
  "loop_state f s i xs = [] \<Longrightarrow> x \<in> set xs \<Longrightarrow> \<exists>t k. fst (f t k x) = []"
proof (induction xs arbitrary: s i)
  case (Cons y ys)
  obtain out s' where f: "f s i y = (out, s')" by fastforce
  with Cons.prems have "out = []" "loop_state f s' (Suc i) ys = []" by simp_all
  with f have "fst (f s i y) = []" "loop_state f s' (Suc i) ys = []" by simp_all
  with Cons show ?case by (cases "x = y") auto
qed simp

lemma for_each_cong [fundef_cong]:
  "xs = ys \<Longrightarrow> (\<And>x. x \<in> set ys \<Longrightarrow> f x = g x) \<Longrightarrow> for_each f xs = for_each g ys"
  by (simp add: for_each_def cong: map_cong)

lemma for_from_cong [fundef_cong]:
  "i = j \<Longrightarrow> xs = ys \<Longrightarrow> (\<And>k x. x \<in> set ys \<Longrightarrow> f k x = g k x) \<Longrightarrow> for_from i f xs = for_from j g ys"
  by (induction ys arbitrary: i j xs) auto

lemma loop_state_cong [fundef_cong]:
  "s = s' \<Longrightarrow> i = j \<Longrightarrow> xs = ys \<Longrightarrow> (\<And>t k x. x \<in> set ys \<Longrightarrow> f t k x = g t k x) \<Longrightarrow>
   loop_state f s i xs = loop_state g s' j ys"
  by (induction ys arbitrary: s s' i j xs) (auto split: prod.splits)

section \<open>Fallible steps (\<open>Result::and_then\<close>, the \<open>?\<close> operator) and loops that may panic\<close>

definition and_then :: "'e + 'a \<Rightarrow> ('a \<Rightarrow> 'e + 'b) \<Rightarrow> 'e + 'b" where
  "and_then r f = (case r of Inl e \<Rightarrow> Inl e | Inr x \<Rightarrow> f x)"

lemma and_then_Inr [simp]: "and_then r f = Inr y \<longleftrightarrow> (\<exists>x. r = Inr x \<and> f x = Inr y)"
  by (simp add: and_then_def split: sum.splits)

lemma and_then_cong [fundef_cong]:
  "r = r' \<Longrightarrow> (\<And>x. r' = Inr x \<Longrightarrow> f x = g x) \<Longrightarrow> and_then r f = and_then r' g"
  by (simp add: and_then_def split: sum.split)

text \<open>The diagnostics of consecutive statements; \<open>None\<close> when one of them panics.\<close>

definition seq_issues :: "'a list option list \<Rightarrow> 'a list option" where
  "seq_issues ps = map_option concat (those ps)"

lemma seq_issues_simps [simp]:
  "seq_issues [] = Some []"
  "seq_issues (None # ps) = None"
  "seq_issues (Some out # ps) = map_option ((@) out) (seq_issues ps)"
  by (simp_all add: seq_issues_def option.map_comp comp_def)

lemma seq_issues_Nil: "seq_issues ps = Some [] \<longleftrightarrow> (\<forall>p\<in>set ps. p = Some [])"
proof (induction ps)
  case (Cons p ps)
  then show ?case by (cases p) auto
qed simp

lemma seq_issues_None: "seq_issues ps = None \<longleftrightarrow> None \<in> set ps"
proof (induction ps)
  case (Cons p ps)
  then show ?case by (cases p) auto
qed simp

section \<open>Collecting options (\<open>collect::<Option<_>>()\<close>)\<close>

lemma those_map_not_None: "those (map f xs) \<noteq> None \<longleftrightarrow> (\<forall>x\<in>set xs. f x \<noteq> None)"
proof (induction xs)
  case (Cons x xs)
  then show ?case by (cases "f x") simp_all
qed simp

lemma those_map_Some: "those (map f xs) = Some ys \<Longrightarrow> ys = map (\<lambda>x. the (f x)) xs"
proof (induction xs arbitrary: ys)
  case (Cons x xs)
  then show ?case by (cases "f x") auto
qed simp

lemma those_map_mset:
  assumes "mset xs = mset ys" "those (map f xs) = Some cs"
  shows "\<exists>ds. those (map f ys) = Some ds \<and> mset cs = mset ds"
proof -
  have "\<forall>y\<in>set ys. f y \<noteq> None"
    using those_map_not_None [of f xs] by (simp add: assms(2) mset_eq_setD [OF assms(1)])
  then obtain ds where ds: "those (map f ys) = Some ds"
    using those_map_not_None [of f ys] by auto
  have "mset cs = image_mset (\<lambda>x. the (f x)) (mset xs)" "mset ds = image_mset (\<lambda>x. the (f x)) (mset ys)"
    using those_map_Some [OF assms(2)] those_map_Some [OF ds] by simp_all
  with ds assms(1) show ?thesis by simp
qed

section \<open>Ordered maps (Rust's \<open>BTreeMap\<close>)\<close>

lemma sorted_assoc_ext:
  fixes xs ys :: "('k::linorder \<times> 'v) list"
  assumes "sorted_wrt (<) (map fst xs)" "sorted_wrt (<) (map fst ys)" "map_of xs = map_of ys"
  shows "xs = ys"
proof -
  have d: "distinct (map fst xs)" "distinct (map fst ys)"
    and t: "sorted (map fst xs)" "sorted (map fst ys)"
    using assms by (simp_all add: strict_sorted_iff)
  with assms(3) have e: "set xs = set ys"
    by (simp add: map_of_inject_set)
  with d have "inj_on fst (set xs \<union> set ys)"
    by (simp add: distinct_map)
  then show ?thesis
    using map_sorted_distinct_set_unique [of fst xs ys] d t e by blast
qed

text \<open>
  The interface: what a client of a \<open>BTreeMap\<close> relies on. The client lemmas show that the
  iteration of a map is determined by its lookups, so collecting entries in any order gives the
  same map when the keys are distinct.
\<close>

locale ordered_map =
  fixes empty :: 'm
    and insert_kv :: "'k::linorder \<Rightarrow> 'v \<Rightarrow> 'm \<Rightarrow> 'm"
    and get :: "'m \<Rightarrow> 'k \<Rightarrow> 'v option"
    and entries :: "'m \<Rightarrow> ('k \<times> 'v) list"
    and wf_map :: "'m \<Rightarrow> bool"
  assumes wf_empty: "wf_map empty"
    and wf_insert: "wf_map m \<Longrightarrow> wf_map (insert_kv k v m)"
    and get_empty: "get empty k = None"
    and get_insert: "wf_map m \<Longrightarrow> get (insert_kv k v m) = (get m)(k \<mapsto> v)"
    and sorted_entries: "wf_map m \<Longrightarrow> sorted_wrt (<) (map fst (entries m))"
    and get_entries: "wf_map m \<Longrightarrow> get m = map_of (entries m)"
begin

lemma entries_ext:
  "wf_map m \<Longrightarrow> wf_map m' \<Longrightarrow> get m = get m' \<Longrightarrow> entries m = entries m'"
  by (rule sorted_assoc_ext) (simp_all add: sorted_entries get_entries)

lemma collect_from:
  "wf_map m \<Longrightarrow> wf_map (foldl (\<lambda>m (k, v). insert_kv k v m) m xs) \<and>
     get (foldl (\<lambda>m (k, v). insert_kv k v m) m xs) = get m ++ map_of (rev xs)"
proof (induction xs arbitrary: m)
  case Nil
  then show ?case by simp
next
  case (Cons x xs)
  obtain k v where x: "x = (k, v)" by fastforce
  from Cons.prems have "wf_map (insert_kv k v m)" by (rule wf_insert)
  note step = Cons.IH [OF this]
  have "get (insert_kv k v m) ++ map_of (rev xs) = get m ++ map_of (rev xs @ [(k, v)])"
    using Cons.prems
    by (intro ext) (simp add: get_insert map_add_def map_of_append split: option.split)
  with step show ?case
    by (simp add: x)
qed

lemma collect_entries_perm:
  assumes "mset xs = mset ys" "distinct (map fst xs)"
  shows "entries (foldl (\<lambda>m (k, v). insert_kv k v m) empty xs)
       = entries (foldl (\<lambda>m (k, v). insert_kv k v m) empty ys)"
proof (rule entries_ext)
  have "distinct (map fst ys)"
    using assms mset_eq_imp_distinct_iff [of "map fst xs" "map fst ys"] by simp
  then have "distinct (map fst (rev xs))" "distinct (map fst (rev ys))" "set (rev xs) = set (rev ys)"
    using assms mset_eq_setD [OF assms(1)] by (simp_all add: rev_map [symmetric])
  then have "map_of (rev xs) = map_of (rev ys)"
    by (simp only: map_of_inject_set)
  then show "get (foldl (\<lambda>m (k, v). insert_kv k v m) empty xs)
       = get (foldl (\<lambda>m (k, v). insert_kv k v m) empty ys)"
    using collect_from [OF wf_empty, of xs] collect_from [OF wf_empty, of ys] by simp
qed (use collect_from [OF wf_empty] in blast)+

end

fun bt_insert :: "'k::linorder \<Rightarrow> 'v \<Rightarrow> ('k \<times> 'v) list \<Rightarrow> ('k \<times> 'v) list" where
  "bt_insert k v [] = [(k, v)]"
| "bt_insert k v ((k', v') # m) =
     (if k < k' then (k, v) # (k', v') # m
      else if k = k' then (k, v) # m
      else (k', v') # bt_insert k v m)"

definition bt_wf :: "('k::linorder \<times> 'v) list \<Rightarrow> bool" where
  "bt_wf m \<longleftrightarrow> sorted_wrt (<) (map fst m)"

definition bt_collect :: "('k::linorder \<times> 'v) list \<Rightarrow> ('k \<times> 'v) list" where
  "bt_collect xs = foldl (\<lambda>m (k, v). bt_insert k v m) [] xs"

text \<open>\<open>map.entry(k).or_default().push(x)\<close>.\<close>

definition bt_push :: "'k::linorder \<Rightarrow> 'v \<Rightarrow> ('k \<times> 'v list) list \<Rightarrow> ('k \<times> 'v list) list" where
  "bt_push k x m = bt_insert k ((case map_of m k of None \<Rightarrow> [] | Some l \<Rightarrow> l) @ [x]) m"

lemma map_of_bt_insert: "map_of (bt_insert k v m) = (map_of m)(k \<mapsto> v)"
  by (induction k v m rule: bt_insert.induct) (auto simp: fun_eq_iff)

lemma fst_set_bt_insert: "fst ` set (bt_insert k v m) = insert k (fst ` set m)"
  by (induction k v m rule: bt_insert.induct) auto

lemma bt_insert_subset: "set (bt_insert k v m) \<subseteq> insert (k, v) (set m)"
  by (induction k v m rule: bt_insert.induct) auto

lemma bt_wf_insert: "bt_wf m \<Longrightarrow> bt_wf (bt_insert k v m)"
  unfolding bt_wf_def
proof (induction k v m rule: bt_insert.induct)
  case (2 k v k' v' m)
  have "set (map fst (bt_insert k v m)) = insert k (set (map fst m))"
    using fst_set_bt_insert by simp
  with 2 show ?case
    by (auto simp del: set_map)
qed simp

interpretation bt: ordered_map "[]" bt_insert map_of "\<lambda>m. m" bt_wf
  by unfold_locales (simp_all add: bt_wf_insert map_of_bt_insert, simp_all add: bt_wf_def)

lemma bt_wf_Nil [simp]: "bt_wf []"
  by (rule bt.wf_empty)

lemma bt_wf_collect: "bt_wf (bt_collect xs)"
  using bt.collect_from [OF bt.wf_empty, of xs] by (simp add: bt_collect_def)

lemma map_of_bt_collect: "map_of (bt_collect xs) = map_of (rev xs)"
  using bt.collect_from [OF bt.wf_empty, of xs] by (simp add: bt_collect_def)

lemma bt_collect_perm:
  "mset xs = mset ys \<Longrightarrow> distinct (map fst xs) \<Longrightarrow> bt_collect xs = bt_collect ys"
  using bt.collect_entries_perm by (simp add: bt_collect_def)

lemma bt_wf_distinct: "bt_wf m \<Longrightarrow> distinct (map fst m)"
  by (simp add: bt_wf_def strict_sorted_iff)

lemma map_of_bt_push:
  "map_of (bt_push k x m) = (map_of m)(k \<mapsto> (case map_of m k of None \<Rightarrow> [] | Some l \<Rightarrow> l) @ [x])"
  by (simp add: bt_push_def map_of_bt_insert)

lemma bt_collect_set:
  assumes "distinct (map fst xs)"
  shows "set (bt_collect xs) = set xs" "length (bt_collect xs) = length xs"
proof -
  have d: "distinct (map fst (bt_collect xs))" "distinct (map fst (rev xs))"
    using assms bt_wf_distinct [OF bt_wf_collect] by (simp_all add: rev_map [symmetric])
  then show s: "set (bt_collect xs) = set xs"
    using map_of_inject_set [OF d] by (simp add: map_of_bt_collect)
  then show "length (bt_collect xs) = length xs"
    using assms d(1) by (metis distinct_card distinct_map)
qed

lemma sort_perm: "mset xs = mset ys \<Longrightarrow> sort xs = sort (ys :: 'a::linorder list)"
  by (metis sorted_list_of_multiset_mset)

text \<open>Distinct keys and \<open>BTreeSet\<close> cardinality checks.\<close>

lemma card_set_eq_length: "card (set xs) = length xs \<longleftrightarrow> distinct xs"
  using card_distinct distinct_card by blast

end
