(* ===== verification/Ctsc_Ord.thy ===== *)
theory Ctsc_Ord
  imports Ctsc_Prelude
begin

text \<open>
  Three-way comparators: Rust's \<open>#[derive(PartialOrd, Ord)]\<close> compares the variant first and then
  the fields lexicographically. The locale states what a comparator promises; \<open>cmp_at\<close> states it
  for one left argument, which is what structural induction on a nested datatype provides.
\<close>

datatype cmp_result = Less | Equal | Greater

fun cmp_reverse :: "cmp_result \<Rightarrow> cmp_result" where
  "cmp_reverse Less = Greater"
| "cmp_reverse Equal = Equal"
| "cmp_reverse Greater = Less"

fun cmp_then :: "cmp_result \<Rightarrow> cmp_result \<Rightarrow> cmp_result" where
  "cmp_then Equal r = r"
| "cmp_then r _ = r"

definition cmp_ord :: "'a::linorder \<Rightarrow> 'a \<Rightarrow> cmp_result" where
  "cmp_ord x y = (if x < y then Less else if x = y then Equal else Greater)"

fun cmp_list :: "('a \<Rightarrow> 'a \<Rightarrow> cmp_result) \<Rightarrow> 'a list \<Rightarrow> 'a list \<Rightarrow> cmp_result" where
  "cmp_list c [] [] = Equal"
| "cmp_list c [] (y # ys) = Less"
| "cmp_list c (x # xs) [] = Greater"
| "cmp_list c (x # xs) (y # ys) = cmp_then (c x y) (cmp_list c xs ys)"

definition cmp_pair :: "('a \<Rightarrow> 'a \<Rightarrow> cmp_result) \<Rightarrow> ('b \<Rightarrow> 'b \<Rightarrow> cmp_result) \<Rightarrow> 'a \<times> 'b \<Rightarrow> 'a \<times> 'b \<Rightarrow> cmp_result" where
  "cmp_pair c d p q = cmp_then (c (fst p) (fst q)) (d (snd p) (snd q))"

lemma cmp_list_cong [fundef_cong]:
  "xs = xs' \<Longrightarrow> ys = ys' \<Longrightarrow> (\<And>x y. x \<in> set xs' \<Longrightarrow> y \<in> set ys' \<Longrightarrow> c x y = d x y) \<Longrightarrow>
   cmp_list c xs ys = cmp_list d xs' ys'"
proof (induction c xs ys arbitrary: xs' ys' rule: cmp_list.induct)
  case (4 c x xs y ys)
  have "cmp_list c xs ys = cmp_list d xs ys"
    by (rule "4.IH") (use 4 in auto)
  with 4 show ?case by auto
qed auto

lemma cmp_pair_cong [fundef_cong]:
  "p = p' \<Longrightarrow> q = q' \<Longrightarrow> c (fst p') (fst q') = c' (fst p') (fst q') \<Longrightarrow>
   d (snd p') (snd q') = d' (snd p') (snd q') \<Longrightarrow> cmp_pair c d p q = cmp_pair c' d' p' q'"
  by (simp add: cmp_pair_def)

definition cmp_at :: "('a \<Rightarrow> 'a \<Rightarrow> cmp_result) \<Rightarrow> 'a \<Rightarrow> bool" where
  "cmp_at c x \<longleftrightarrow>
     (\<forall>y. c y x = cmp_reverse (c x y)) \<and> (\<forall>y. c x y = Equal \<longleftrightarrow> x = y) \<and>
     (\<forall>y z. c x y = Less \<longrightarrow> c y z \<noteq> Greater \<longrightarrow> c x z = Less)"

lemma cmp_then_Equal [simp]: "cmp_then r s = Equal \<longleftrightarrow> r = Equal \<and> s = Equal"
  by (cases r) auto

lemma cmp_then_Less: "cmp_then r s = Less \<longleftrightarrow> r = Less \<or> r = Equal \<and> s = Less"
  by (cases r) auto

lemma cmp_then_Greater: "cmp_then r s = Greater \<longleftrightarrow> r = Greater \<or> r = Equal \<and> s = Greater"
  by (cases r) auto

lemma cmp_reverse_then: "cmp_reverse (cmp_then r s) = cmp_then (cmp_reverse r) (cmp_reverse s)"
  by (cases r) auto

lemma cmp_atI:
  assumes "\<And>y. c y x = cmp_reverse (c x y)" "\<And>y. c x y = Equal \<Longrightarrow> x = y" "c x x = Equal"
    and "\<And>y z. c x y = Less \<Longrightarrow> c y z \<noteq> Greater \<Longrightarrow> c x z = Less"
  shows "cmp_at c x"
  using assms unfolding cmp_at_def by blast

lemma cmp_atD:
  assumes "cmp_at c x"
  shows "c y x = cmp_reverse (c x y)" "c x y = Equal \<longleftrightarrow> x = y"
    "c x y = Less \<Longrightarrow> c y z \<noteq> Greater \<Longrightarrow> c x z = Less"
  using assms unfolding cmp_at_def by blast+

lemma cmp_at_ord: "cmp_at cmp_ord x"
  by (rule cmp_atI) (auto simp: cmp_ord_def split: if_splits)

lemma cmp_at_pair:
  assumes "cmp_at c (fst p)" "cmp_at d (snd p)"
  shows "cmp_at (cmp_pair c d) p"
proof (rule cmp_atI)
  note c = cmp_atD [OF assms(1)] and d = cmp_atD [OF assms(2)]
  fix q r
  show "cmp_pair c d q p = cmp_reverse (cmp_pair c d p q)"
    by (simp add: cmp_pair_def cmp_reverse_then c(1) d(1))
  show "cmp_pair c d p q = Equal \<Longrightarrow> p = q" "cmp_pair c d p p = Equal"
    by (auto simp: cmp_pair_def c(2) d(2) prod_eq_iff)
  assume l: "cmp_pair c d p q = Less" and g: "cmp_pair c d q r \<noteq> Greater"
  show "cmp_pair c d p r = Less"
  proof (cases "c (fst p) (fst q) = Less")
    case True
    then show ?thesis
      using g c(3) [of "fst q" "fst r"] by (auto simp: cmp_pair_def cmp_then_Greater cmp_then_Less)
  next
    case False
    with l have e: "fst p = fst q" "d (snd p) (snd q) = Less"
      by (simp_all add: cmp_pair_def cmp_then_Less c(2))
    then show ?thesis
      using g d(3) [of "snd q" "snd r"]
      by (cases "c (fst q) (fst r)") (auto simp: cmp_pair_def)
  qed
qed

lemma cmp_at_list: "(\<And>x. x \<in> set xs \<Longrightarrow> cmp_at c x) \<Longrightarrow> cmp_at (cmp_list c) xs"
proof (induction xs)
  case Nil
  show ?case
  proof (rule cmp_atI)
    fix ys zs
    show "cmp_list c ys [] = cmp_reverse (cmp_list c [] ys)" by (cases ys) simp_all
    show "cmp_list c [] ys = Equal \<Longrightarrow> [] = ys" by (cases ys) simp_all
    show "cmp_list c [] ys = Less \<Longrightarrow> cmp_list c ys zs \<noteq> Greater \<Longrightarrow> cmp_list c [] zs = Less"
      by (cases ys; cases zs) simp_all
  qed simp
next
  case (Cons x xs)
  have at: "cmp_at (cmp_pair c (cmp_list c)) (x, xs)"
    by (rule cmp_at_pair) (use Cons in simp_all)
  have step: "cmp_list c (a # as) (b # bs) = cmp_pair c (cmp_list c) (a, as) (b, bs)" for a as b bs
    by (simp add: cmp_pair_def)
  note d = cmp_atD [OF at]
  show ?case
  proof (rule cmp_atI)
    fix ys zs
    show "cmp_list c ys (x # xs) = cmp_reverse (cmp_list c (x # xs) ys)"
      by (cases ys) (simp_all only: step d(1), simp)
    show "cmp_list c (x # xs) ys = Equal \<Longrightarrow> x # xs = ys"
      by (cases ys) (simp_all only: step d(2), simp_all)
    show "cmp_list c (x # xs) (x # xs) = Equal"
      by (simp only: step d(2))
    show "cmp_list c (x # xs) ys = Less \<Longrightarrow> cmp_list c ys zs \<noteq> Greater \<Longrightarrow>
        cmp_list c (x # xs) zs = Less"
      by (cases ys; cases zs) (simp_all only: step, auto intro: d(3))
  qed
qed

locale comparator =
  fixes cmp :: "'a \<Rightarrow> 'a \<Rightarrow> cmp_result"
  assumes reverse: "cmp y x = cmp_reverse (cmp x y)"
    and equal_iff: "cmp x y = Equal \<longleftrightarrow> x = y"
    and less_trans: "cmp x y = Less \<Longrightarrow> cmp y z \<noteq> Greater \<Longrightarrow> cmp x z = Less"
begin

lemma le_refl: "cmp x x \<noteq> Greater"
  using equal_iff [of x x] by simp

lemma le_antisym: "cmp x y \<noteq> Greater \<Longrightarrow> cmp y x \<noteq> Greater \<Longrightarrow> x = y"
  using reverse [of y x] equal_iff [of x y] by (cases "cmp x y") auto

lemma le_trans: "cmp x y \<noteq> Greater \<Longrightarrow> cmp y z \<noteq> Greater \<Longrightarrow> cmp x z \<noteq> Greater"
  using less_trans [of x y z] equal_iff [of x y] by (cases "cmp x y") auto

lemma le_total: "cmp x y \<noteq> Greater \<or> cmp y x \<noteq> Greater"
  using reverse [of y x] by (cases "cmp x y") auto

lemma less_iff: "cmp x y = Less \<longleftrightarrow> cmp x y \<noteq> Greater \<and> cmp y x = Greater"
  using reverse [of y x] by (cases "cmp x y") auto

end

lemma comparatorI: "(\<And>x. cmp_at c x) \<Longrightarrow> comparator c"
  by (unfold_locales) (auto dest: cmp_atD)

end
