(* ===== verification/Ctsc_Values.thy ===== *)
theory Ctsc_Values
  imports Ctsc_Ord
begin

text \<open>
  OTLP attribute values, canonical values and normalized spans
  (\<open>rust/crates/specgate-ctsc/src/validation/trace_model.rs\<close>). A \<open>BTreeMap\<close> field is its sorted
  entry list. Binary64 numbers are their bit patterns, as in the source's \<open>FiniteF64\<close>. The derived
  order of canonical values is proved to be a linear order, which is what the source's \<open>sort\<close>,
  \<open>BTreeMap\<close> and \<open>BTreeSet\<close> over canonical values rely on.
\<close>

type_synonym u8 = "8 word"
type_synonym i64 = "64 word"
type_synonym f64_bits = "64 word"
type_synonym f32_bits = "32 word"

datatype f64_value = Finite f64_bits | NaN | Infinity | NegativeInfinity

datatype any_value =
    AString string
  | ABool bool
  | AInt i64
  | ADouble f64_value
  | ABytes "u8 list"
  | AArray "any_value list"
  | AKvList "(string \<times> any_value) list"

type_synonym attributes = "(string \<times> any_value) list"

datatype canonical_value =
    CUnit
  | CString string
  | CBool bool
  | CInteger int
  | CFloat f64_value
  | CBytes "u8 list"
  | CList "canonical_value list"
  | CTuple "canonical_value list"
  | CMap "(canonical_value \<times> canonical_value) list"
  | COrderedMap "(canonical_value \<times> canonical_value) list"
  | CRecord "(string \<times> canonical_value) list"
  | CVariant string canonical_value

fun as_string :: "any_value \<Rightarrow> string option" where
  "as_string (AString v) = Some v"
| "as_string _ = None"

fun as_int :: "any_value \<Rightarrow> i64 option" where
  "as_int (AInt v) = Some v"
| "as_int _ = None"

fun as_kvlist :: "any_value \<Rightarrow> attributes option" where
  "as_kvlist (AKvList v) = Some v"
| "as_kvlist _ = None"

datatype span_status = Unset | Ok | Error

record trace_event =
  event_name :: string
  event_attributes :: attributes

record trace_span =
  trace_id :: string
  span_id :: string
  parent_span_id :: string
  span_name :: string
  start_time :: "nat option"
  end_time :: "nat option"
  span_attributes :: attributes
  span_events :: "trace_event list"
  span_stat :: span_status
  resource_attributes :: attributes
  span_location :: string

record trace_document =
  doc_spans :: "trace_span list"

section \<open>Sizes of nested values\<close>

lemma size_array_elem [simp, intro]: "v \<in> set vs \<Longrightarrow> size v < size (AArray vs)"
  by (induction vs) auto

lemma size_kvlist_entry: "(k, v) \<in> set kvs \<Longrightarrow> size v < size (AKvList kvs)"
  by (induction kvs) auto

lemma size_kvlist_snd: "p \<in> set kvs \<Longrightarrow> size (snd p) < size (AKvList kvs)"
  using size_kvlist_entry [of "fst p" "snd p"] by simp

lemma size_kvlist_get: "map_of kvs k = Some v \<Longrightarrow> size v < size (AKvList kvs)"
  by (rule size_kvlist_entry) (rule map_of_SomeD)

section \<open>The derived order of canonical values\<close>

fun f64_rank :: "f64_value \<Rightarrow> nat" where
  "f64_rank (Finite _) = 0"
| "f64_rank NaN = 1"
| "f64_rank Infinity = 2"
| "f64_rank NegativeInfinity = 3"

fun cmp_f64 :: "f64_value \<Rightarrow> f64_value \<Rightarrow> cmp_result" where
  "cmp_f64 (Finite a) (Finite b) = cmp_ord a b"
| "cmp_f64 x y = cmp_ord (f64_rank x) (f64_rank y)"

fun canonical_rank :: "canonical_value \<Rightarrow> nat" where
  "canonical_rank CUnit = 0"
| "canonical_rank (CString _) = 1"
| "canonical_rank (CBool _) = 2"
| "canonical_rank (CInteger _) = 3"
| "canonical_rank (CFloat _) = 4"
| "canonical_rank (CBytes _) = 5"
| "canonical_rank (CList _) = 6"
| "canonical_rank (CTuple _) = 7"
| "canonical_rank (CMap _) = 8"
| "canonical_rank (COrderedMap _) = 9"
| "canonical_rank (CRecord _) = 10"
| "canonical_rank (CVariant _ _) = 11"

lemma size_pair_list_fst: "p \<in> set ps \<Longrightarrow> size (fst p) < Suc (size_list (size_prod size size) ps)"
  by (induction ps) (auto simp: size_prod_def split: prod.splits)

lemma size_pair_list_snd:
  fixes ps :: "('a \<times> 'b::size) list"
  shows "p \<in> set ps \<Longrightarrow> size (snd p) < Suc (size_list (size_prod f size) ps)"
  by (induction ps) (auto simp: size_prod_def split: prod.splits)

function cmp_canonical :: "canonical_value \<Rightarrow> canonical_value \<Rightarrow> cmp_result" where
  "cmp_canonical x y =
     (if canonical_rank x \<noteq> canonical_rank y then cmp_ord (canonical_rank x) (canonical_rank y)
      else case x of
        CUnit \<Rightarrow> Equal
      | CString a \<Rightarrow> (case y of CString b \<Rightarrow> cmp_ord a b | _ \<Rightarrow> Equal)
      | CBool a \<Rightarrow> (case y of CBool b \<Rightarrow> cmp_ord a b | _ \<Rightarrow> Equal)
      | CInteger a \<Rightarrow> (case y of CInteger b \<Rightarrow> cmp_ord a b | _ \<Rightarrow> Equal)
      | CFloat a \<Rightarrow> (case y of CFloat b \<Rightarrow> cmp_f64 a b | _ \<Rightarrow> Equal)
      | CBytes a \<Rightarrow> (case y of CBytes b \<Rightarrow> cmp_list cmp_ord a b | _ \<Rightarrow> Equal)
      | CList a \<Rightarrow> (case y of CList b \<Rightarrow> cmp_list cmp_canonical a b | _ \<Rightarrow> Equal)
      | CTuple a \<Rightarrow> (case y of CTuple b \<Rightarrow> cmp_list cmp_canonical a b | _ \<Rightarrow> Equal)
      | CMap a \<Rightarrow> (case y of
          CMap b \<Rightarrow> cmp_list (\<lambda>p q. cmp_pair cmp_canonical cmp_canonical p q) a b | _ \<Rightarrow> Equal)
      | COrderedMap a \<Rightarrow> (case y of
          COrderedMap b \<Rightarrow> cmp_list (\<lambda>p q. cmp_pair cmp_canonical cmp_canonical p q) a b | _ \<Rightarrow> Equal)
      | CRecord a \<Rightarrow> (case y of
          CRecord b \<Rightarrow> cmp_list (\<lambda>p q. cmp_pair cmp_ord cmp_canonical p q) a b | _ \<Rightarrow> Equal)
      | CVariant a u \<Rightarrow> (case y of
          CVariant b v \<Rightarrow> cmp_then (cmp_ord a b) (cmp_canonical u v) | _ \<Rightarrow> Equal))"
  by pat_completeness auto
termination
  by (relation "measure (\<lambda>(x, y). size x)")
     (auto dest: size_list_estimation' [of _ _ _ size] size_pair_list_fst size_pair_list_snd
       simp: less_Suc_eq_le size_list_estimation')

declare cmp_canonical.simps [simp del]

lemma cmp_canonical_same [simp]:
  "cmp_canonical CUnit CUnit = Equal"
  "cmp_canonical (CString a) (CString b) = cmp_ord a b"
  "cmp_canonical (CBool p) (CBool q) = cmp_ord p q"
  "cmp_canonical (CInteger i) (CInteger j) = cmp_ord i j"
  "cmp_canonical (CFloat f) (CFloat g) = cmp_f64 f g"
  "cmp_canonical (CBytes bs) (CBytes cs) = cmp_list cmp_ord bs cs"
  "cmp_canonical (CList us) (CList vs) = cmp_list cmp_canonical us vs"
  "cmp_canonical (CTuple us) (CTuple vs) = cmp_list cmp_canonical us vs"
  "cmp_canonical (CMap m) (CMap n) = cmp_list (cmp_pair cmp_canonical cmp_canonical) m n"
  "cmp_canonical (COrderedMap m) (COrderedMap n) = cmp_list (cmp_pair cmp_canonical cmp_canonical) m n"
  "cmp_canonical (CRecord r) (CRecord s) = cmp_list (cmp_pair cmp_ord cmp_canonical) r s"
  "cmp_canonical (CVariant a u) (CVariant b v) = cmp_pair cmp_ord cmp_canonical (a, u) (b, v)"
  by (subst cmp_canonical.simps, simp add: cmp_pair_def)+

lemma cmp_canonical_rank:
  "canonical_rank x \<noteq> canonical_rank y \<Longrightarrow>
   cmp_canonical x y = cmp_ord (canonical_rank x) (canonical_rank y)"
  by (simp add: cmp_canonical.simps [of x y])

lemma cmp_ord_simps:
  "cmp_ord x y = Less \<longleftrightarrow> x < y" "cmp_ord x y = Equal \<longleftrightarrow> x = y" "cmp_ord x y = Greater \<longleftrightarrow> y < x"
  by (auto simp: cmp_ord_def)

lemma cmp_at_f64: "cmp_at cmp_f64 x"
proof (rule cmp_atI)
  fix y z
  show "cmp_f64 y x = cmp_reverse (cmp_f64 x y)"
    by (cases x; cases y) (auto simp: cmp_ord_def)
  show "cmp_f64 x y = Equal \<Longrightarrow> x = y" "cmp_f64 x x = Equal"
    by (cases x; cases y; auto simp: cmp_ord_def split: if_splits)+
  show "cmp_f64 x y = Less \<Longrightarrow> cmp_f64 y z \<noteq> Greater \<Longrightarrow> cmp_f64 x z = Less"
    by (cases x; cases y; cases z) (auto simp: cmp_ord_def split: if_splits)
qed

text \<open>A variant's order is its payload's order, once the payloads' comparator is right.\<close>

lemma cmp_at_variant:
  assumes rank: "\<And>q. canonical_rank (C q) = n"
    and only: "\<And>y. canonical_rank y = n \<Longrightarrow> \<exists>q. y = C q"
    and cmp: "\<And>q q'. cmp_canonical (C q) (C q') = d q q'"
    and at: "cmp_at d p"
  shows "cmp_at cmp_canonical (C p)"
proof (rule cmp_atI)
  note d = cmp_atD [OF at]
  fix y z
  have other: "canonical_rank y \<noteq> n \<Longrightarrow>
      cmp_canonical (C p) y = cmp_ord n (canonical_rank y) \<and>
      cmp_canonical y (C p) = cmp_ord (canonical_rank y) n" for y
    by (simp add: cmp_canonical_rank rank)
  show "cmp_canonical y (C p) = cmp_reverse (cmp_canonical (C p) y)"
  proof (cases "canonical_rank y = n")
    case True
    then show ?thesis using only [OF True] by (auto simp: cmp d(1))
  next
    case False
    then show ?thesis by (simp add: other) (simp add: cmp_ord_def)
  qed
  show "cmp_canonical (C p) y = Equal \<Longrightarrow> C p = y"
    using only [of y] other [of y] by (cases "canonical_rank y = n") (auto simp: cmp d(2) cmp_ord_simps)
  show "cmp_canonical (C p) (C p) = Equal"
    by (simp add: cmp d(2))
  assume l: "cmp_canonical (C p) y = Less" and g: "cmp_canonical y z \<noteq> Greater"
  show "cmp_canonical (C p) z = Less"
  proof (cases "canonical_rank y = n \<and> canonical_rank z = n")
    case True
    then obtain q r where "y = C q" "z = C r" using only by blast
    then show ?thesis using l g by (auto simp: cmp intro: d(3))
  next
    case False
    have "n \<le> canonical_rank y"
      using l other [of y] by (cases "canonical_rank y = n") (auto simp: cmp_ord_simps)
    moreover have "canonical_rank y \<le> canonical_rank z"
      using g cmp_canonical_rank [of y z] by (cases "canonical_rank y = canonical_rank z") (auto simp: cmp_ord_simps)
    ultimately have "n < canonical_rank z" using False by auto
    then show ?thesis using other [of z] by (simp add: cmp_ord_simps)
  qed
qed

lemma canonical_rank_only:
  "canonical_rank y = Suc 0 \<Longrightarrow> \<exists>a. y = CString a" "canonical_rank y = 2 \<Longrightarrow> \<exists>a. y = CBool a"
  "canonical_rank y = 3 \<Longrightarrow> \<exists>a. y = CInteger a" "canonical_rank y = 4 \<Longrightarrow> \<exists>a. y = CFloat a"
  "canonical_rank y = 5 \<Longrightarrow> \<exists>a. y = CBytes a" "canonical_rank y = 6 \<Longrightarrow> \<exists>a. y = CList a"
  "canonical_rank y = 7 \<Longrightarrow> \<exists>a. y = CTuple a" "canonical_rank y = 8 \<Longrightarrow> \<exists>a. y = CMap a"
  "canonical_rank y = 9 \<Longrightarrow> \<exists>a. y = COrderedMap a" "canonical_rank y = 10 \<Longrightarrow> \<exists>a. y = CRecord a"
  "canonical_rank y = 11 \<Longrightarrow> \<exists>a. y = (\<lambda>(a, u). CVariant a u) a" "canonical_rank y = 0 \<Longrightarrow> y = CUnit"
  by (cases y; simp)+

lemma cmp_at_canonical: "cmp_at cmp_canonical x"
proof (induction x)
  case CUnit
  show ?case
    by (rule cmp_at_variant [where C = "\<lambda>u. CUnit" and n = 0 and d = "\<lambda>u v. Equal" and p = "()"])
       (simp_all add: canonical_rank_only cmp_at_def)
next
  case (CString a)
  show ?case
    by (rule cmp_at_variant [where C = CString and d = cmp_ord and n = "Suc 0"])
       (auto dest: canonical_rank_only(1) simp: cmp_at_ord)
next
  case (CBool a)
  show ?case
    by (rule cmp_at_variant [where C = CBool and n = 2 and d = cmp_ord]) (auto dest: canonical_rank_only simp: cmp_at_ord)
next
  case (CInteger a)
  show ?case
    by (rule cmp_at_variant [where C = CInteger and n = 3 and d = cmp_ord]) (auto dest: canonical_rank_only simp: cmp_at_ord)
next
  case (CFloat a)
  show ?case
    by (rule cmp_at_variant [where C = CFloat and n = 4 and d = cmp_f64]) (auto dest: canonical_rank_only simp: cmp_at_f64)
next
  case (CBytes a)
  show ?case
    by (rule cmp_at_variant [where C = CBytes and n = 5 and d = "cmp_list cmp_ord"])
       (auto dest: canonical_rank_only simp: cmp_at_ord cmp_at_list)
next
  case (CList us)
  then show ?case
    by (intro cmp_at_variant [where C = CList and n = 6 and d = "cmp_list cmp_canonical"])
       (auto dest: canonical_rank_only simp: cmp_at_list)
next
  case (CTuple us)
  then show ?case
    by (intro cmp_at_variant [where C = CTuple and n = 7 and d = "cmp_list cmp_canonical"])
       (auto dest: canonical_rank_only simp: cmp_at_list)
next
  case (CMap m)
  have "cmp_at (cmp_pair cmp_canonical cmp_canonical) p" if "p \<in> set m" for p
    by (rule cmp_at_pair) (use CMap [OF that] in \<open>cases p; auto\<close>)+
  then show ?case
    by (intro cmp_at_variant [where C = CMap and n = 8 and d = "cmp_list (cmp_pair cmp_canonical cmp_canonical)"])
       (auto dest: canonical_rank_only simp: cmp_at_list)
next
  case (COrderedMap m)
  have "cmp_at (cmp_pair cmp_canonical cmp_canonical) p" if "p \<in> set m" for p
    by (rule cmp_at_pair) (use COrderedMap [OF that] in \<open>cases p; auto\<close>)+
  then show ?case
    by (intro cmp_at_variant [where C = COrderedMap and n = 9 and d = "cmp_list (cmp_pair cmp_canonical cmp_canonical)"])
       (auto dest: canonical_rank_only simp: cmp_at_list)
next
  case (CRecord m)
  have "cmp_at (cmp_pair cmp_ord cmp_canonical) p" if "p \<in> set m" for p
    by (rule cmp_at_pair) (use CRecord [OF that] in \<open>cases p; auto simp: cmp_at_ord\<close>)+
  then show ?case
    by (intro cmp_at_variant [where C = CRecord and n = 10 and d = "cmp_list (cmp_pair cmp_ord cmp_canonical)"])
       (auto dest: canonical_rank_only simp: cmp_at_list)
next
  case (CVariant a u)
  have "cmp_at cmp_canonical ((\<lambda>(a, u). CVariant a u) (a, u))"
    by (rule cmp_at_variant [where n = 11 and d = "cmp_pair cmp_ord cmp_canonical"])
       (use CVariant in \<open>auto simp: cmp_at_ord intro: cmp_at_pair dest: canonical_rank_only\<close>)
  then show ?case by simp
qed

interpretation canonical: comparator cmp_canonical
  by (rule comparatorI) (rule cmp_at_canonical)

instantiation canonical_value :: linorder
begin

definition less_eq_canonical_value :: "canonical_value \<Rightarrow> canonical_value \<Rightarrow> bool" where
  "less_eq_canonical_value x y \<longleftrightarrow> cmp_canonical x y \<noteq> Greater"

definition less_canonical_value :: "canonical_value \<Rightarrow> canonical_value \<Rightarrow> bool" where
  "less_canonical_value x y \<longleftrightarrow> cmp_canonical x y = Less"

instance
proof
  fix x y z :: canonical_value
  show "x < y \<longleftrightarrow> x \<le> y \<and> \<not> y \<le> x"
    using canonical.less_iff by (simp add: less_eq_canonical_value_def less_canonical_value_def)
  show "x \<le> x" by (simp add: less_eq_canonical_value_def canonical.le_refl)
  show "x \<le> y \<Longrightarrow> y \<le> z \<Longrightarrow> x \<le> z"
    unfolding less_eq_canonical_value_def by (rule canonical.le_trans)
  show "x \<le> y \<Longrightarrow> y \<le> x \<Longrightarrow> x = y"
    unfolding less_eq_canonical_value_def by (rule canonical.le_antisym)
  show "x \<le> y \<or> y \<le> x"
    unfolding less_eq_canonical_value_def by (rule canonical.le_total)
qed

end

lemma CString_less [simp]: "CString a < CString b \<longleftrightarrow> a < b"
  by (simp add: less_canonical_value_def cmp_ord_simps)

end
