(* ===== verification/Ctsc_Registry_Model.thy ===== *)
theory Ctsc_Registry_Model
  imports Ctsc_Values
begin

text \<open>
  Registry documents before and after linkage
  (\<open>rust/crates/specgate-ctsc/src/validation/model.rs\<close>) and the JSON values they and the trace
  documents are parsed from (\<open>serde_json::Value\<close>, whose objects are \<open>BTreeMap\<close>s).
\<close>

datatype json_number = PosInt "64 word" | NegInt "64 word" | Float f64_bits

datatype json =
    JNull
  | JBool bool
  | JNumber json_number
  | JString string
  | JArray "json list"
  | JObject "(string \<times> json) list"

type_synonym extensions = "(string \<times> json) list"

datatype type_ref =
    Primitive string
  | Named string "string option" "string option" \<comment> \<open>name, componentId, registryId\<close>
  | Collection type_ref bool bool \<comment> \<open>items, ordered, unique\<close>
  | Map type_ref type_ref bool \<comment> \<open>keys, values, ordered\<close>
  | Tuple "type_ref list"
  | Record "named_value list"
  | Optional type_ref
  | TaggedUnion "variant list"
and named_value =
    NamedValue (nv_name: string) (nv_type: type_ref) (nv_description: "string option")
and variant =
    Variant (var_name: string) (var_payload: "type_ref option") (var_description: "string option")

record error_outcome =
  err_name :: string
  err_type :: "type_ref option"
  err_description :: "string option"

record registry_outcomes =
  out_result :: "type_ref option"
  out_empty :: bool
  out_errors :: "error_outcome list"

record registry_operation =
  op_name :: string
  op_inputs :: "named_value list"
  op_observations :: "named_value list"
  op_outcomes :: registry_outcomes
  op_description :: "string option"
  op_extensions :: extensions

datatype named_type =
    NamedRecord string "named_value list" "string option" extensions
  | NamedUnion string "variant list" "string option" extensions

fun named_type_name :: "named_type \<Rightarrow> string" where
  "named_type_name (NamedRecord n _ _ _) = n"
| "named_type_name (NamedUnion n _ _ _) = n"

fun as_type :: "named_type \<Rightarrow> type_ref" where
  "as_type (NamedRecord _ fs _ _) = Record fs"
| "as_type (NamedUnion _ vs _ _) = TaggedUnion vs"

record component_ref =
  cref_component :: string
  cref_registry :: "string option"

record registry_component =
  comp_id :: string
  comp_dependencies :: "component_ref list"
  comp_operations :: "registry_operation list"
  comp_types :: "named_type list"
  comp_description :: "string option"
  comp_extensions :: extensions

record registry_import =
  imp_registry :: string
  imp_version :: string
  imp_digest :: string
  imp_uri :: "string option"

record registry_document =
  reg_format :: string
  reg_format_version :: string
  reg_id :: string
  reg_version :: string
  reg_imports :: "registry_import list"
  reg_components :: "registry_component list"
  reg_description :: "string option"
  reg_extensions :: extensions

record resolved_component =
  rc_registry :: string
  rc_component :: registry_component

record registry_set =
  root_id :: string
  root_version :: string
  root_digest :: string
  set_components :: "(string \<times> resolved_component) list"

text \<open>A named type unfolds to a record or a tagged union, never to another named type.\<close>

fun is_named :: "type_ref \<Rightarrow> bool" where
  "is_named (Named _ _ _) = True"
| "is_named _ = False"

lemma as_type_not_named [simp]: "\<not> is_named (as_type t)"
  by (cases t) simp_all

end
