(* ===== verification/Ctsc_Numbers.thy ===== *)
theory Ctsc_Numbers
  imports Ctsc_Values
begin

text \<open>
  The standard-library number operations the sources call: \<open>str::parse\<close> for fixed-width integers
  and the casts between \<open>f64\<close> and \<open>f32\<close>, on bit patterns. The cast \<open>as f32\<close> rounds to nearest,
  ties to even; the round trip through \<open>f32\<close> is what the linked validator tests.
\<close>

section \<open>Integer parsing\<close>

definition parse_unsigned :: "nat \<Rightarrow> string \<Rightarrow> nat option" where
  "parse_unsigned w s =
     (let ds = (case s of [] \<Rightarrow> [] | c # r \<Rightarrow> if c = CHR ''+'' then r else s)
      in if ds \<noteq> [] \<and> list_all is_digit ds \<and> dec_value ds < 2 ^ w then Some (dec_value ds) else None)"

definition parse_signed :: "nat \<Rightarrow> string \<Rightarrow> int option" where
  "parse_signed w s =
     (let (neg, ds) = (case s of [] \<Rightarrow> (False, [])
                       | c # r \<Rightarrow> if c = CHR ''+'' then (False, r)
                                 else if c = CHR ''-'' then (True, r) else (False, s));
          v = (if neg then - int (dec_value ds) else int (dec_value ds))
      in if ds \<noteq> [] \<and> list_all is_digit ds \<and> - (2 ^ (w - 1)) \<le> v \<and> v < 2 ^ (w - 1)
         then Some v else None)"

text \<open>For evaluation the bound is compared in binary.\<close>

lemma parse_unsigned_code [code]:
  "parse_unsigned w s =
     (let ds = (case s of [] \<Rightarrow> [] | c # r \<Rightarrow> if c = CHR ''+'' then r else s)
      in if ds \<noteq> [] \<and> list_all is_digit ds \<and> int (dec_value ds) < 2 ^ w then Some (dec_value ds) else None)"
proof -
  have "int n < 2 ^ w \<longleftrightarrow> n < 2 ^ w" for n by (metis of_nat_less_iff of_nat_numeral of_nat_power)
  then show ?thesis by (simp add: parse_unsigned_def)
qed

lemma digit_not_sign: "is_digit c \<Longrightarrow> c \<noteq> CHR ''+'' \<and> c \<noteq> CHR ''-''"
  by (auto simp: is_digit_def)

lemma parse_unsigned_bound: "parse_unsigned w s = Some n \<Longrightarrow> n < 2 ^ w"
  by (auto simp: parse_unsigned_def Let_def split: if_splits list.splits)

lemma parse_unsigned_nat_dec: "n < 2 ^ w \<Longrightarrow> parse_unsigned w (nat_dec n) = Some n"
  using nat_dec_digits [of n] nat_dec_nonempty [of n] dec_value_nat_dec [of n]
  by (cases "nat_dec n") (auto simp: parse_unsigned_def Let_def dest: digit_not_sign)

section \<open>Binary64 and binary32 bit fields\<close>

definition f64_man :: "f64_bits \<Rightarrow> nat" where
  "f64_man b = unat b mod 2 ^ 52"

definition f64_exp :: "f64_bits \<Rightarrow> nat" where
  "f64_exp b = unat b div 2 ^ 52 mod 2 ^ 11"

definition f64_sign :: "f64_bits \<Rightarrow> nat" where
  "f64_sign b = unat b div 2 ^ 63"

definition f64_is_finite :: "f64_bits \<Rightarrow> bool" where
  "f64_is_finite b \<longleftrightarrow> f64_exp b < 2047"

definition f64_make :: "nat \<Rightarrow> nat \<Rightarrow> nat \<Rightarrow> f64_bits" where
  "f64_make s e m = of_nat (s * 2 ^ 63 + e * 2 ^ 52 + m)"

definition f32_man :: "f32_bits \<Rightarrow> nat" where
  "f32_man b = unat b mod 2 ^ 23"

definition f32_exp :: "f32_bits \<Rightarrow> nat" where
  "f32_exp b = unat b div 2 ^ 23 mod 2 ^ 8"

definition f32_sign :: "f32_bits \<Rightarrow> nat" where
  "f32_sign b = unat b div 2 ^ 31"

definition f32_is_finite :: "f32_bits \<Rightarrow> bool" where
  "f32_is_finite b \<longleftrightarrow> f32_exp b < 255"

fun floor_log2 :: "nat \<Rightarrow> nat" where
  "floor_log2 n = (if n < 2 then 0 else Suc (floor_log2 (n div 2)))"

declare floor_log2.simps [simp del]

text \<open>Division by a power of two, rounded to nearest with ties to even.\<close>

definition round_half_even :: "nat \<Rightarrow> nat \<Rightarrow> nat" where
  "round_half_even m s =
     (let q = m div 2 ^ s; r = m mod 2 ^ s; h = 2 ^ (s - 1)
      in if r < h \<or> r = h \<and> even q then q else q + 1)"

text \<open>\<open>number as f32\<close> for a finite number: overflow rounds to infinity.\<close>

definition f64_as_f32 :: "f64_bits \<Rightarrow> f32_bits" where
  "f64_as_f32 b =
     (let x = (if f64_exp b = 0 then 1 else f64_exp b);
          sig = (if f64_exp b = 0 then f64_man b else 2 ^ 52 + f64_man b);
          n = round_half_even sig (if 897 \<le> x then 29 else 29 + (897 - x));
          mag = (if 897 \<le> x then x - 897 else 0) * 2 ^ 23 + n
      in of_nat (f64_sign b * 2 ^ 31 + min mag (255 * 2 ^ 23)))"

text \<open>\<open>f64::from(narrowed)\<close>: exact; an infinity widens to an infinity.\<close>

definition f32_as_f64 :: "f32_bits \<Rightarrow> f64_bits" where
  "f32_as_f64 b =
     (if f32_exp b = 255 then f64_make (f32_sign b) 2047 (f32_man b * 2 ^ 29)
      else if 0 < f32_exp b then f64_make (f32_sign b) (f32_exp b + 896) (f32_man b * 2 ^ 29)
      else if f32_man b = 0 then f64_make (f32_sign b) 0 0
      else let k = floor_log2 (f32_man b)
           in f64_make (f32_sign b) (k + 874) ((f32_man b - 2 ^ k) * 2 ^ (52 - k)))"

lemma floor_log2_bounds: "0 < n \<Longrightarrow> 2 ^ floor_log2 n \<le> n \<and> n < 2 * 2 ^ floor_log2 n"
proof (induction n rule: floor_log2.induct)
  case (1 n)
  show ?case
  proof (cases "n < 2")
    case True
    with 1 show ?thesis by (simp add: floor_log2.simps [of n])
  next
    case False
    with 1 have "2 ^ floor_log2 (n div 2) \<le> n div 2 \<and> n div 2 < 2 * 2 ^ floor_log2 (n div 2)"
      by auto
    with False show ?thesis by (simp add: floor_log2.simps [of n]) linarith
  qed
qed

lemma f64_fields_make:
  assumes "s < 2" "e < 2 ^ 11" "m < 2 ^ 52"
  shows "f64_sign (f64_make s e m) = s" "f64_exp (f64_make s e m) = e" "f64_man (f64_make s e m) = m"
proof -
  have "s * 2 ^ 63 + e * 2 ^ 52 + m < 2 ^ 64" using assms by simp
  then have u: "unat (f64_make s e m) = s * 2 ^ 63 + e * 2 ^ 52 + m"
    unfolding f64_make_def by (subst unat_of_nat) simp
  have v: "s * 2 ^ 63 + e * 2 ^ 52 + m = m + (s * 2 ^ 11 + e) * 2 ^ 52"
    by (simp add: algebra_simps)
  show "f64_sign (f64_make s e m) = s"
    using assms unfolding f64_sign_def u by simp
  have "(m + q * 2 ^ 52) div 2 ^ 52 = q" "(m + q * 2 ^ 52) mod 2 ^ 52 = m" for q
    using assms(3) by simp_all
  moreover have "(s * 2 ^ 11 + e) mod 2 ^ 11 = e"
    using assms(2) by simp
  ultimately show "f64_exp (f64_make s e m) = e" "f64_man (f64_make s e m) = m"
    unfolding f64_exp_def f64_man_def u v by (simp_all only:)
qed

lemma f32_fields:
  "unat b = f32_sign b * 2 ^ 31 + f32_exp b * 2 ^ 23 + f32_man b"
  "f32_sign b < 2" "f32_exp b < 2 ^ 8" "f32_man b < 2 ^ 23"
proof -
  have "unat b < 2 ^ 32" using unsigned_less [of b] by simp
  then show "f32_sign b < 2" "f32_exp b < 2 ^ 8" "f32_man b < 2 ^ 23"
    unfolding f32_sign_def f32_exp_def f32_man_def by simp_all
  have "unat b div 2 ^ 31 = unat b div 2 ^ 23 div 2 ^ 8"
    by (simp flip: div_mult2_eq)
  then have "unat b = (f32_sign b * 2 ^ 8 + f32_exp b) * 2 ^ 23 + f32_man b"
    unfolding f32_sign_def f32_exp_def f32_man_def by (simp only: div_mult_mod_eq)
  then show "unat b = f32_sign b * 2 ^ 31 + f32_exp b * 2 ^ 23 + f32_man b"
    by simp
qed

lemma round_half_even_exact: "0 < s \<Longrightarrow> round_half_even (n * 2 ^ s) s = n"
  by (simp add: round_half_even_def Let_def)


text \<open>The bits of a rounded magnitude: the sign and the magnitude do not overlap.\<close>

lemma f32_of_parts: "n = unat b \<Longrightarrow> (of_nat n :: f32_bits) = b"
  by simp

lemma f32_narrow_widen_normal:
  assumes "0 < f32_exp b" "f32_exp b < 255"
  shows "f64_as_f32 (f32_as_f64 b) = b"
proof -
  note f = f32_fields [of b]
  let ?e = "f32_exp b" and ?m = "f32_man b" and ?s = "f32_sign b"
  have d: "f32_as_f64 b = f64_make ?s (?e + 896) (?m * 2 ^ 29)"
    using assms by (simp add: f32_as_f64_def)
  have g: "f64_sign (f32_as_f64 b) = ?s" "f64_exp (f32_as_f64 b) = ?e + 896"
    "f64_man (f32_as_f64 b) = ?m * 2 ^ 29"
    unfolding d by (rule f64_fields_make; use assms f in simp)+
  have r: "round_half_even (2 ^ 52 + ?m * 2 ^ 29) 29 = 2 ^ 23 + ?m"
    using round_half_even_exact [of 29 "2 ^ 23 + ?m"] by (simp add: algebra_simps)
  have "(?e + 896 - 897) * 2 ^ 23 + (2 ^ 23 + ?m) = ?e * 2 ^ 23 + ?m"
    using assms(1) by (cases ?e) simp_all
  moreover have "?e * 2 ^ 23 + ?m \<le> 255 * 2 ^ 23"
    using assms(2) f(4) by simp
  moreover have "f64_as_f32 (f32_as_f64 b)
      = of_nat (?s * 2 ^ 31 + min ((?e + 896 - 897) * 2 ^ 23 + (2 ^ 23 + ?m)) (255 * 2 ^ 23))"
    unfolding f64_as_f32_def g r [symmetric] using assms by (simp add: Let_def del: of_nat_add of_nat_mult)
  ultimately have "f64_as_f32 (f32_as_f64 b) = of_nat (?s * 2 ^ 31 + (?e * 2 ^ 23 + ?m))"
    by (simp only: min_def if_True)
  then show ?thesis
    using f(1) f32_of_parts [of "?s * 2 ^ 31 + (?e * 2 ^ 23 + ?m)" b] by (simp only: add.assoc)
qed

lemma f32_narrow_widen_subnormal:
  assumes "f32_exp b = 0" "0 < f32_man b"
  shows "f64_as_f32 (f32_as_f64 b) = b"
proof -
  note f = f32_fields [of b]
  let ?m = "f32_man b" and ?s = "f32_sign b"
  define k where "k = floor_log2 ?m"
  have k: "2 ^ k \<le> ?m" "?m < 2 * 2 ^ k"
    using floor_log2_bounds [OF assms(2)] by (simp_all add: k_def)
  have "(2::nat) ^ k < 2 ^ 23" using k(1) f(4) by linarith
  then have k22: "k \<le> 22" by (simp only: power_strict_increasing_iff)
  have split: "(2::nat) ^ 52 = 2 ^ k * 2 ^ (52 - k)"
    using k22 by (simp flip: power_add)
  have man: "(?m - 2 ^ k) * 2 ^ (52 - k) < 2 ^ 52"
    unfolding split using k by simp
  have d: "f32_as_f64 b = f64_make ?s (k + 874) ((?m - 2 ^ k) * 2 ^ (52 - k))"
    using assms by (simp add: f32_as_f64_def k_def Let_def)
  have g: "f64_sign (f32_as_f64 b) = ?s" "f64_exp (f32_as_f64 b) = k + 874"
    "f64_man (f32_as_f64 b) = (?m - 2 ^ k) * 2 ^ (52 - k)"
    unfolding d by (rule f64_fields_make; use k22 f man in simp)+
  have sig: "2 ^ 52 + (?m - 2 ^ k) * 2 ^ (52 - k) = ?m * 2 ^ (52 - k)"
    unfolding split using k(1) by (simp flip: add_mult_distrib)
  have r: "round_half_even (?m * 2 ^ (52 - k)) (52 - k) = ?m"
    by (rule round_half_even_exact) (use k22 in simp)
  have sh: "29 + (897 - (k + 874)) = 52 - k" using k22 by simp
  have "f64_as_f32 (f32_as_f64 b) = of_nat (?s * 2 ^ 31 + min ?m (255 * 2 ^ 23))"
    unfolding f64_as_f32_def g using k22 r sig sh
    by (simp add: Let_def del: of_nat_add of_nat_mult)
  moreover have "?m \<le> 255 * 2 ^ 23" using f(4) by simp
  ultimately show ?thesis
    using f(1) f32_of_parts [of "?s * 2 ^ 31 + ?m" b] assms(1)
    by (simp only: min_def if_True mult_zero_left add_0_right)
qed

lemma f32_narrow_widen_zero:
  assumes "f32_exp b = 0" "f32_man b = 0"
  shows "f64_as_f32 (f32_as_f64 b) = b"
proof -
  note f = f32_fields [of b]
  have d: "f32_as_f64 b = f64_make (f32_sign b) 0 0"
    using assms by (simp add: f32_as_f64_def)
  have g: "f64_sign (f32_as_f64 b) = f32_sign b" "f64_exp (f32_as_f64 b) = 0" "f64_man (f32_as_f64 b) = 0"
    unfolding d by (rule f64_fields_make; use f in simp)+
  have "f64_as_f32 (f32_as_f64 b) = of_nat (f32_sign b * 2 ^ 31)"
    unfolding f64_as_f32_def g by (simp add: Let_def round_half_even_def del: of_nat_mult)
  then show ?thesis
    using f(1) f32_of_parts [of "f32_sign b * 2 ^ 31" b] assms by simp
qed

lemma f32_narrow_widen: "f32_is_finite b \<Longrightarrow> f64_as_f32 (f32_as_f64 b) = b"
  using f32_narrow_widen_normal f32_narrow_widen_subnormal f32_narrow_widen_zero
  by (cases "f32_exp b = 0"; cases "f32_man b = 0") (auto simp: f32_is_finite_def)

lemma f32_widen_infinite:
  assumes "\<not> f32_is_finite b"
  shows "\<not> f64_is_finite (f32_as_f64 b)"
proof -
  have "f32_exp b = 255" using assms f32_fields(3) [of b] by (simp add: f32_is_finite_def)
  then show ?thesis
    using f64_fields_make(2) [of "f32_sign b" 2047 "f32_man b * 2 ^ 29"] f32_fields [of b]
    by (simp add: f32_as_f64_def f64_is_finite_def)
qed

end
