(* ===== verification/Ctsc_Render.thy ===== *)
theory Ctsc_Render
  imports Ctsc_Values
begin

text \<open>
  Diagnostic rendering of values (\<open>AnyValue::display\<close>, \<open>CanonicalValue::display\<close> in
  \<open>trace_model.rs\<close>). JSON string escaping (\<open>serde_json\<close>), base64 (\<open>base64\<close>), Rust's shortest
  decimal form of an \<open>f64\<close> and Rust's \<open>Debug\<close> escaping of a string are the fields of a
  \<open>renderer\<close>, an argument of every definition that prints; no theorem assumes anything of them.
\<close>

record renderer =
  json_text :: "string \<Rightarrow> string"
  f64_text :: "f64_bits \<Rightarrow> string"
  base64_text :: "u8 list \<Rightarrow> string"
  debug_text :: "string \<Rightarrow> string"

fun join :: "string \<Rightarrow> string list \<Rightarrow> string" where
  "join sep [] = []"
| "join sep [s] = s"
| "join sep (s # t # ts) = s @ sep @ join sep (t # ts)"

definition bool_text :: "bool \<Rightarrow> string" where
  "bool_text b = (if b then ''true'' else ''false'')"

definition quoted :: "string \<Rightarrow> string" where
  "quoted s = [char_of (34::nat)] @ s @ [char_of (34::nat)]"

fun display_f64 :: "renderer \<Rightarrow> f64_value \<Rightarrow> string" where
  "display_f64 R (Finite b) = f64_text R b"
| "display_f64 R NaN = quoted ''NaN''"
| "display_f64 R Infinity = quoted ''Infinity''"
| "display_f64 R NegativeInfinity = quoted ''-Infinity''"

fun display_any :: "renderer \<Rightarrow> any_value \<Rightarrow> string" where
  "display_any R (AString s) = json_text R s"
| "display_any R (ABool b) = bool_text b"
| "display_any R (AInt i) = int_dec (sint i)"
| "display_any R (ADouble d) = display_f64 R d"
| "display_any R (ABytes bs) = ''bytes:'' @ base64_text R bs"
| "display_any R (AArray vs) = ''['' @ join '','' (map (display_any R) vs) @ '']''"
| "display_any R (AKvList kvs) =
     ''{'' @ join '','' (map (\<lambda>(k, v). json_text R k @ '':'' @ display_any R v) kvs) @ ''}''"

fun display_canonical :: "renderer \<Rightarrow> canonical_value \<Rightarrow> string" where
  "display_canonical R CUnit = ''{}''"
| "display_canonical R (CString s) = json_text R s"
| "display_canonical R (CBool b) = bool_text b"
| "display_canonical R (CInteger i) = int_dec i"
| "display_canonical R (CFloat f) = display_f64 R f"
| "display_canonical R (CBytes bs) = ''bytes:'' @ base64_text R bs"
| "display_canonical R (CList vs) = ''['' @ join '','' (map (display_canonical R) vs) @ '']''"
| "display_canonical R (CTuple vs) = ''['' @ join '','' (map (display_canonical R) vs) @ '']''"
| "display_canonical R (CMap m) =
     ''map{'' @ join '','' (map (\<lambda>(k, v). display_canonical R k @ '':'' @ display_canonical R v) m) @ ''}''"
| "display_canonical R (COrderedMap m) =
     ''ordered_map['' @ join '','' (map (\<lambda>(k, v). display_canonical R k @ '':'' @ display_canonical R v) m) @ '']''"
| "display_canonical R (CRecord m) =
     ''{'' @ join '','' (map (\<lambda>(k, v). k @ '':'' @ display_canonical R v) m) @ ''}''"
| "display_canonical R (CVariant n v) = n @ ''('' @ display_canonical R v @ '')''"

text \<open>Rust's \<open>Debug\<close> rendering of an \<open>Option<&str>\<close>.\<close>

definition debug_option :: "renderer \<Rightarrow> string option \<Rightarrow> string" where
  "debug_option R o' = (case o' of None \<Rightarrow> ''None'' | Some s \<Rightarrow> ''Some('' @ debug_text R s @ '')'')"

text \<open>The same for an \<open>Option<RawText>\<close>, whose \<open>Debug\<close> is derived.\<close>

definition debug_raw_option :: "renderer \<Rightarrow> string option \<Rightarrow> string" where
  "debug_raw_option R o' =
     (case o' of None \<Rightarrow> ''None'' | Some s \<Rightarrow> ''Some(RawText('' @ debug_text R s @ ''))'')"

end
