(* ===== verification/Ctsc_Canonical.thy ===== *)
theory Ctsc_Canonical
  imports Ctsc_Registry_Model Ctsc_Numbers Ctsc_Render
begin

text \<open>
  Linking spans to registry declarations
  (\<open>rust/crates/specgate-ctsc/src/validation/linked.rs\<close>): canonicalization of a value under its
  declared type, validation of values, of operation spans and of whole traces. Named types may be
  recursive; both recursions end because a named type unfolds to a record or a tagged union, which
  then consumes a layer of the value.
\<close>

section \<open>Primitives\<close>

fun canonical_primitive :: "any_value \<Rightarrow> string \<Rightarrow> canonical_value option" where
  "canonical_primitive v prim =
     (case v of
        AKvList kvs \<Rightarrow> if prim = ''unit'' \<and> kvs = [] then Some CUnit else None
      | AString s \<Rightarrow> if prim = ''string'' then Some (CString s)
                    else if prim = ''u64'' then map_option (\<lambda>n. CInteger (int n)) (parse_unsigned 64 s)
                    else None
      | ABool b \<Rightarrow> if prim = ''bool'' then Some (CBool b) else None
      | AInt i \<Rightarrow> if prim \<in> {''i32'', ''i64'', ''u32''} then Some (CInteger (sint i)) else None
      | ADouble d \<Rightarrow> if prim \<in> {''f32'', ''f64''} then Some (CFloat d) else None
      | ABytes bs \<Rightarrow> if prim = ''bytes'' then Some (CBytes bs) else None
      | AArray _ \<Rightarrow> None)"

text \<open>The wire variant a primitive must use; \<open>None\<close> for an unsupported primitive.\<close>

definition primitive_wire :: "string \<Rightarrow> string option" where
  "primitive_wire prim =
     (if prim = ''unit'' then Some ''kvlistValue''
      else if prim \<in> {''string'', ''u64''} then Some ''stringValue''
      else if prim = ''bool'' then Some ''boolValue''
      else if prim \<in> {''i32'', ''i64'', ''u32''} then Some ''intValue''
      else if prim \<in> {''f32'', ''f64''} then Some ''doubleValue''
      else if prim = ''bytes'' then Some ''bytesValue''
      else None)"

fun wire_matches :: "string \<Rightarrow> any_value \<Rightarrow> bool" where
  "wire_matches w (AKvList _) \<longleftrightarrow> w = ''kvlistValue''"
| "wire_matches w (AString _) \<longleftrightarrow> w = ''stringValue''"
| "wire_matches w (ABool _) \<longleftrightarrow> w = ''boolValue''"
| "wire_matches w (AInt _) \<longleftrightarrow> w = ''intValue''"
| "wire_matches w (ADouble _) \<longleftrightarrow> w = ''doubleValue''"
| "wire_matches w (ABytes _) \<longleftrightarrow> w = ''bytesValue''"
| "wire_matches w (AArray _) \<longleftrightarrow> False"

definition f32_exact :: "f64_bits \<Rightarrow> bool" where
  "f32_exact b \<longleftrightarrow> f32_as_f64 (f64_as_f32 b) = b"

definition u64_canonical :: "string \<Rightarrow> bool" where
  "u64_canonical s \<longleftrightarrow> s = ''0'' \<or> (take 1 s \<noteq> ''0'' \<and> list_all is_digit s)"

definition primitive_range :: "string \<Rightarrow> any_value \<Rightarrow> string \<Rightarrow> issues" where
  "primitive_range prim v loc =
     (case v of
        AKvList kvs \<Rightarrow>
          if prim = ''unit'' \<and> kvs \<noteq> [] then issue loc ''unit must be an empty kvlistValue'' else []
      | AInt i \<Rightarrow>
          if prim = ''i32'' \<and> \<not> (- (2 ^ 31) \<le> sint i \<and> sint i < 2 ^ 31)
          then issue loc ''value is outside i32 range''
          else if prim = ''u32'' \<and> \<not> (0 \<le> sint i \<and> sint i < 2 ^ 32)
          then issue loc ''value is outside u32 range'' else []
      | AString s \<Rightarrow>
          if prim = ''u64'' then
            (if \<not> u64_canonical s then issue loc ''u64 must be a canonical decimal string''
             else if parse_unsigned 64 s = None then issue loc ''value is outside u64 range'' else [])
          else []
      | ADouble (Finite b) \<Rightarrow>
          if prim = ''f32'' \<and> \<not> f32_exact b
          then issue loc ''value is not exactly representable as f32'' else []
      | _ \<Rightarrow> [])"

definition validate_primitive :: "any_value \<Rightarrow> string \<Rightarrow> string \<Rightarrow> issues" where
  "validate_primitive v prim loc =
     (case primitive_wire prim of
        None \<Rightarrow> issue loc (''unsupported primitive '' @ ticked prim)
      | Some expected \<Rightarrow>
          if \<not> wire_matches expected v then issue loc (prim @ '' must use '' @ expected)
          else primitive_range prim v loc)"

section \<open>Canonical values\<close>

definition component_types :: "resolved_component \<Rightarrow> named_type list" where
  "component_types c = comp_types (rc_component c)"

definition resolve_named ::
    "registry_set \<Rightarrow> resolved_component \<Rightarrow> string \<Rightarrow> string option \<Rightarrow> string option \<Rightarrow>
     (resolved_component \<times> named_type) option" where
  "resolve_named reg rc name cid rid =
     (case map_of (set_components reg) (case cid of None \<Rightarrow> comp_id (rc_component rc) | Some c \<Rightarrow> c) of
        None \<Rightarrow> None
      | Some target \<Rightarrow>
          (case rid of
             Some r \<Rightarrow> if r \<noteq> rc_registry target then None
                       else map_option (Pair target) (find (\<lambda>t. named_type_name t = name) (component_types target))
           | None \<Rightarrow> map_option (Pair target) (find (\<lambda>t. named_type_name t = name) (component_types target))))"

definition string_keyed :: "type_ref \<Rightarrow> bool \<Rightarrow> bool" where
  "string_keyed keys ordered \<longleftrightarrow> \<not> ordered \<and> keys = Primitive ''string''"

definition map_entry :: "any_value \<Rightarrow> (any_value \<times> any_value) option" where
  "map_entry e =
     (case e of
        AKvList kvs \<Rightarrow> (case (map_of kvs ''key'', map_of kvs ''value'') of
                          (Some k, Some v) \<Rightarrow> Some (k, v) | _ \<Rightarrow> None)
      | _ \<Rightarrow> None)"

lemma map_entry_size:
  assumes "map_entry e = Some (k, v)"
  shows "size k < size e" "size v < size e"
  using assms by (auto simp: map_entry_def split: any_value.splits option.splits dest: size_kvlist_get)

lemma map_entry_size_array:
  assumes "e \<in> set es" "map_entry e = Some (k, v)"
  shows "size k < size (AArray es)" "size v < size (AArray es)"
  using map_entry_size [OF assms(2)] size_array_elem [OF assms(1)] by linarith+

lemma size_zip_array: "(v, t) \<in> set (zip vs ts) \<Longrightarrow> size v < size (AArray vs)"
  by (meson set_zip_leftD size_array_elem)

lemma size_kvlist_head: "size v < size (AKvList ((k, v) # kvs))"
  by (rule size_kvlist_entry [of k]) simp

lemmas value_sizes = size_kvlist_snd size_kvlist_get size_kvlist_head map_entry_size_array
  size_zip_array size_array_elem

definition option_pair :: "'a option \<Rightarrow> 'b option \<Rightarrow> ('a \<times> 'b) option" where
  "option_pair x y = (case x of None \<Rightarrow> None | Some a \<Rightarrow> (case y of None \<Rightarrow> None | Some b \<Rightarrow> Some (a, b)))"

lemma option_pair_Some [simp]: "option_pair x y = Some (a, b) \<longleftrightarrow> x = Some a \<and> y = Some b"
  by (auto simp: option_pair_def split: option.splits)

function canonical_value ::
    "registry_set \<Rightarrow> resolved_component \<Rightarrow> any_value \<Rightarrow> type_ref \<Rightarrow> canonical_value option" where
  "canonical_value reg rc v (Primitive name) = canonical_primitive v name"
| "canonical_value reg rc v (Named name cid rid) =
     (case resolve_named reg rc name cid rid of
        None \<Rightarrow> None
      | Some (target, definition) \<Rightarrow> canonical_value reg target v (as_type definition))"
| "canonical_value reg rc v (Collection items ordered unique) =
     (case v of
        AArray vs \<Rightarrow>
          map_option (\<lambda>cs. CList (if ordered then cs else sort cs))
            (those (map (\<lambda>x. canonical_value reg rc x items) vs))
      | _ \<Rightarrow> None)"
| "canonical_value reg rc v (Map keys values ordered) =
     (if string_keyed keys ordered then
        (case v of
           AKvList kvs \<Rightarrow>
             map_option (\<lambda>es. CMap (bt_collect es))
               (those (map (\<lambda>p. map_option (Pair (CString (fst p))) (canonical_value reg rc (snd p) values)) kvs))
         | _ \<Rightarrow> None)
      else
        (case v of
           AArray es \<Rightarrow>
             map_option (\<lambda>cs. if ordered then COrderedMap cs else CMap (bt_collect cs))
               (those (map (\<lambda>e. case map_entry e of
                                  None \<Rightarrow> None
                                | Some (k, x) \<Rightarrow>
                                    option_pair (canonical_value reg rc k keys) (canonical_value reg rc x values)) es))
         | _ \<Rightarrow> None))"
| "canonical_value reg rc v (Tuple items) =
     (case v of
        AArray vs \<Rightarrow>
          if length vs \<noteq> length items then None
          else map_option CTuple (those (map (\<lambda>(x, t). canonical_value reg rc x t) (zip vs items)))
      | _ \<Rightarrow> None)"
| "canonical_value reg rc v (Record fs) =
     (case v of
        AKvList kvs \<Rightarrow>
          map_option (\<lambda>es. CRecord (bt_collect es))
            (those (map (\<lambda>f. case map_of kvs (nv_name f) of
                               None \<Rightarrow> None
                             | Some x \<Rightarrow> map_option (Pair (nv_name f)) (canonical_value reg rc x (nv_type f))) fs))
      | _ \<Rightarrow> None)"
| "canonical_value reg rc v (Optional inner) =
     (case v of
        AKvList ((name, payload) # _) \<Rightarrow>
          map_option (CVariant name)
            (if name = ''None'' then canonical_primitive payload ''unit''
             else if name = ''Some'' then canonical_value reg rc payload inner
             else None)
      | _ \<Rightarrow> None)"
| "canonical_value reg rc v (TaggedUnion variants) =
     (case v of
        AKvList ((name, payload) # _) \<Rightarrow>
          (case find (\<lambda>w. var_name w = name) variants of
             None \<Rightarrow> None
           | Some w \<Rightarrow>
               map_option (CVariant name)
                 (case var_payload w of
                    Some t \<Rightarrow> canonical_value reg rc payload t
                  | None \<Rightarrow> canonical_primitive payload ''unit''))
      | _ \<Rightarrow> None)"
  by pat_completeness auto
termination
  by (relation "measures [\<lambda>(reg, rc, v, t). size v, \<lambda>(reg, rc, v, t). if is_named t then 1 else 0]")
    (auto simp del: any_value.size intro: value_sizes)

section \<open>Validation of a value against its declared type\<close>

definition strict_entry :: "any_value \<Rightarrow> (any_value \<times> any_value) option" where
  "strict_entry e =
     (case e of AKvList kvs \<Rightarrow> if length kvs \<noteq> 2 then None else map_entry e | _ \<Rightarrow> None)"

lemma strict_entry_map_entry: "strict_entry e = Some p \<Longrightarrow> map_entry e = Some p"
  by (auto simp: strict_entry_def split: any_value.splits if_splits)

text \<open>One iteration of the loop over array-encoded map entries; the set of canonical keys seen is its local state.\<close>

definition check_map_entry ::
    "(any_value \<Rightarrow> string \<Rightarrow> issues) \<Rightarrow> (any_value \<Rightarrow> string \<Rightarrow> issues) \<Rightarrow> (any_value \<Rightarrow> canonical_value option) \<Rightarrow>
     string \<Rightarrow> canonical_value set \<Rightarrow> nat \<Rightarrow> any_value \<Rightarrow> issues \<times> canonical_value set" where
  "check_map_entry check_key check_val canon loc seen i e =
     (case strict_entry e of
        None \<Rightarrow> (issue (index_loc loc i) ''map entry must contain key and value'', seen)
      | Some (k, x) \<Rightarrow>
          let found = check_key k (index_loc loc i @ ''.key'') @ check_val x (index_loc loc i @ ''.value'')
          in case canon k of
               None \<Rightarrow> (found, seen)
             | Some c \<Rightarrow>
                 (found @ (if c \<in> seen then issue loc ''map contains duplicate keys'' else []), insert c seen))"

lemma check_map_entry_cong [fundef_cong]:
  assumes "loc = loc'" "seen = seen'" "i = i'" "e = e'" "canon = canon'"
    and "\<And>k x l. strict_entry e' = Some (k, x) \<Longrightarrow> ck k l = ck' k l"
    and "\<And>k x l. strict_entry e' = Some (k, x) \<Longrightarrow> cv x l = cv' x l"
  shows "check_map_entry ck cv canon loc seen i e = check_map_entry ck' cv' canon' loc' seen' i' e'"
  using assms by (auto simp: check_map_entry_def Let_def split: option.splits)

lemma check_map_entry_Some:
  "strict_entry e = Some (k, x) \<Longrightarrow> canon k = Some c \<Longrightarrow>
   check_map_entry ck cv canon loc seen i e =
     (ck k (index_loc loc i @ ''.key'') @ cv x (index_loc loc i @ ''.value'') @
        (if c \<in> seen then issue loc ''map contains duplicate keys'' else []), insert c seen)"
  by (simp add: check_map_entry_def)

lemma map_entries_valid:
  assumes "loop_state (check_map_entry ck cv canon loc) seen i es = []" "e \<in> set es"
  shows "\<exists>k x l l'. strict_entry e = Some (k, x) \<and> ck k l = [] \<and> cv x l' = []"
  using loop_state_Nil_each [OF assms]
  by (auto simp: check_map_entry_def Let_def split: option.splits)

lemma map_keys_distinct:
  assumes "loop_state (check_map_entry ck cv canon loc) seen i es = []"
    and "\<And>e k x. e \<in> set es \<Longrightarrow> strict_entry e = Some (k, x) \<Longrightarrow> \<exists>c. canon k = Some c \<and> key e = c"
  shows "distinct (map key es) \<and> set (map key es) \<inter> seen = {}"
  using assms
proof (induction es arbitrary: seen i)
  case (Cons e es)
  then obtain k x c where "strict_entry e = Some (k, x)" "canon k = Some c" "key e = c"
    using map_entries_valid [OF Cons.prems(1), of e] by (metis list.set_intros(1))
  with Cons.prems(1) have "loop_state (check_map_entry ck cv canon loc) (insert (key e) seen) (Suc i) es = []" "key e \<notin> seen"
    by (simp_all add: check_map_entry_Some split: if_splits)
  with Cons.IH [OF this(1)] Cons.prems(2) show ?case by force
qed simp

function validate_value ::
    "renderer \<Rightarrow> registry_set \<Rightarrow> resolved_component \<Rightarrow> any_value \<Rightarrow> type_ref \<Rightarrow> string \<Rightarrow> issues" where
  "validate_value R reg rc v (Primitive name) loc = validate_primitive v name loc"
| "validate_value R reg rc v (Named name cid rid) loc =
     (let cid' = (case cid of None \<Rightarrow> comp_id (rc_component rc) | Some c \<Rightarrow> c) in
      case map_of (set_components reg) cid' of
        None \<Rightarrow> issue loc (''unknown component '' @ ticked cid')
      | Some target \<Rightarrow>
          if (case rid of None \<Rightarrow> False | Some r \<Rightarrow> r \<noteq> rc_registry target)
          then issue loc (''component '' @ ticked cid' @ '' does not belong to registry '' @ debug_raw_option R rid)
          else case find (\<lambda>t. named_type_name t = name) (component_types target) of
                 None \<Rightarrow> issue loc (''unknown named type '' @ ticked name)
               | Some d \<Rightarrow> validate_value R reg target v (as_type d) loc)"
| "validate_value R reg rc v (Collection items ordered unique) loc =
     (case v of
        AArray vs \<Rightarrow>
          let found = for_indexed (\<lambda>i x. validate_value R reg rc x items (index_loc loc i)) vs in
          let canonical = List.map_filter (\<lambda>x. canonical_value reg rc x items) vs in
          found @
            (if unique \<and> found = [] \<and> card (set canonical) \<noteq> length canonical
             then issue loc ''unique collection contains duplicate elements'' else [])
      | _ \<Rightarrow> issue loc ''collection must use arrayValue'')"
| "validate_value R reg rc v (Map keys values ordered) loc =
     (if string_keyed keys ordered then
        (case v of
           AKvList kvs \<Rightarrow> for_each (\<lambda>p. validate_value R reg rc (snd p) values (field_loc loc (fst p))) kvs
         | _ \<Rightarrow> issue loc ''string-keyed map must use kvlistValue'')
      else
        (case v of
           AArray es \<Rightarrow>
             loop_state (check_map_entry (\<lambda>k l. validate_value R reg rc k keys l)
               (\<lambda>x l. validate_value R reg rc x values l) (\<lambda>k. canonical_value reg rc k keys) loc) {} 0 es
         | _ \<Rightarrow> issue loc ''ordered or non-string-keyed map must use arrayValue''))"
| "validate_value R reg rc v (Tuple items) loc =
     (case v of
        AArray vs \<Rightarrow>
          if length vs \<noteq> length items then issue loc ''tuple arity does not match registry type''
          else for_indexed (\<lambda>i (x, t). validate_value R reg rc x t (index_loc loc i)) (zip vs items)
      | _ \<Rightarrow> issue loc ''tuple must use arrayValue'')"
| "validate_value R reg rc v (Record fs) loc =
     (case v of
        AKvList kvs \<Rightarrow>
          if set (map fst kvs) \<noteq> set (map nv_name fs)
          then issue loc ''record fields do not match registry type''
          else for_each (\<lambda>f. case map_of kvs (nv_name f) of
                               None \<Rightarrow> []
                             | Some x \<Rightarrow> validate_value R reg rc x (nv_type f) (field_loc loc (nv_name f))) fs
      | _ \<Rightarrow> issue loc ''record must use kvlistValue'')"
| "validate_value R reg rc v (Optional inner) loc =
     (case v of
        AKvList [(name, payload)] \<Rightarrow>
          if name = ''None'' then validate_primitive payload ''unit'' (loc @ ''.None'')
          else if name = ''Some'' then validate_value R reg rc payload inner (loc @ ''.Some'')
          else issue loc (''unknown optional variant '' @ ticked name)
      | AKvList _ \<Rightarrow> issue loc ''optional must contain exactly one variant''
      | _ \<Rightarrow> issue loc ''optional must use kvlistValue'')"
| "validate_value R reg rc v (TaggedUnion variants) loc =
     (case v of
        AKvList [(name, payload)] \<Rightarrow>
          (case find (\<lambda>w. var_name w = name) variants of
             None \<Rightarrow> issue loc (''unknown tagged-union variant '' @ ticked name)
           | Some w \<Rightarrow>
               (case var_payload w of
                  Some t \<Rightarrow> validate_value R reg rc payload t (field_loc loc name)
                | None \<Rightarrow> validate_primitive payload ''unit'' (field_loc loc name)))
      | AKvList _ \<Rightarrow> issue loc ''tagged union must contain exactly one variant''
      | _ \<Rightarrow> issue loc ''tagged union must use kvlistValue'')"
  by pat_completeness auto
termination
  by (relation "measures [\<lambda>(R, reg, rc, v, t, loc). size v, \<lambda>(R, reg, rc, v, t, loc). if is_named t then 1 else 0]")
    (auto simp del: any_value.size intro: value_sizes strict_entry_map_entry)

section \<open>Primitives: bounds, completeness and uniqueness of encodings\<close>

lemma nat_dec_0: "nat_dec 0 = ''0''"
  by code_simp

lemma u64_canonical_unique:
  assumes "u64_canonical s" "parse_unsigned 64 s = Some n"
  shows "s = nat_dec n"
proof (cases "s = ''0''")
  case True
  then show ?thesis
    using assms by (auto simp: parse_unsigned_def dec_value_def digit_value_def nat_dec_0 is_digit_def)
next
  case False
  with assms(1) have d: "take 1 s \<noteq> ''0''" "list_all is_digit s"
    by (auto simp: u64_canonical_def)
  then have "s \<noteq> []" "dec_value s = n"
    using assms(2) by (auto simp: parse_unsigned_def Let_def split: if_splits list.splits dest: digit_not_sign)
  with d show ?thesis
    using nat_dec_of_digits [of s] by (cases s) auto
qed

lemma nat_dec_hd: "0 < n \<Longrightarrow> hd (nat_dec n) \<noteq> CHR ''0''"
proof (induction n rule: nat_dec.induct)
  case (1 n)
  have "digit_value CHR ''0'' = 0" by code_simp
  then have "n < 10 \<Longrightarrow> digit_char n \<noteq> CHR ''0''"
    using 1 digit_char_value [of n] by fastforce
  with 1 show ?case
    using nat_dec_nonempty [of "n div 10"] by (simp add: nat_dec.simps [of n])
qed

lemma u64_canonical_nat_dec: "u64_canonical (nat_dec n)"
  using nat_dec_hd [of n] nat_dec_nonempty [of n] nat_dec_digits [of n]
  by (cases "nat_dec n"; cases "n = 0") (auto simp: u64_canonical_def nat_dec_0)

text \<open>The values a primitive type denotes.\<close>

definition primitive_domain :: "string \<Rightarrow> canonical_value \<Rightarrow> bool" where
  "primitive_domain prim c \<longleftrightarrow>
     (case c of
        CUnit \<Rightarrow> prim = ''unit''
      | CString _ \<Rightarrow> prim = ''string''
      | CBool _ \<Rightarrow> prim = ''bool''
      | CInteger i \<Rightarrow>
          prim = ''i32'' \<and> - (2 ^ 31) \<le> i \<and> i < 2 ^ 31 \<or>
          prim = ''u32'' \<and> 0 \<le> i \<and> i < 2 ^ 32 \<or>
          prim = ''i64'' \<and> - (2 ^ 63) \<le> i \<and> i < 2 ^ 63 \<or>
          prim = ''u64'' \<and> 0 \<le> i \<and> i < 2 ^ 64
      | CFloat (Finite b) \<Rightarrow>
          prim = ''f64'' \<or> prim = ''f32'' \<and> (\<exists>x. f32_is_finite x \<and> f32_as_f64 x = b)
      | CFloat _ \<Rightarrow> prim \<in> {''f32'', ''f64''}
      | CBytes _ \<Rightarrow> prim = ''bytes''
      | _ \<Rightarrow> False)"

fun f64_value_wf :: "f64_value \<Rightarrow> bool" where
  "f64_value_wf (Finite b) = f64_is_finite b"
| "f64_value_wf _ = True"

lemma f32_exact_iff:
  assumes "f64_is_finite b"
  shows "f32_exact b \<longleftrightarrow> (\<exists>x. f32_is_finite x \<and> f32_as_f64 x = b)"
  unfolding f32_exact_def
  by (metis assms f32_narrow_widen f32_widen_infinite)

lemma sint_range_64: "- (2 ^ 63) \<le> sint (i :: i64)" "sint (i :: i64) < 2 ^ 63"
  using sint_greater_eq [of i] sint_less [of i] by simp_all

fun double_wf :: "any_value \<Rightarrow> bool" where
  "double_wf (ADouble d) = f64_value_wf d"
| "double_wf _ = True"

fun canonical_double_wf :: "canonical_value \<Rightarrow> bool" where
  "canonical_double_wf (CFloat d) = f64_value_wf d"
| "canonical_double_wf _ = True"

lemmas primitive_defs = validate_primitive_def primitive_wire_def primitive_range_def

lemma primitive_valid_domain:
  assumes "validate_primitive v prim loc = []" "double_wf v"
  shows "\<exists>c. canonical_primitive v prim = Some c \<and> primitive_domain prim c \<and> canonical_double_wf c"
proof (cases v)
  case (AInt i)
  with assms show ?thesis
    using sint_range_64 [of i] by (auto simp: primitive_defs primitive_domain_def split: if_splits)
next
  case (AString s)
  then show ?thesis
    using assms parse_unsigned_bound [of 64 s]
    by (auto simp: primitive_defs primitive_domain_def split: if_splits)
next
  case (ADouble d)
  with assms show ?thesis
    by (cases d) (auto simp: primitive_defs primitive_domain_def f32_exact_iff split: if_splits)
qed (use assms in \<open>auto simp: primitive_defs primitive_domain_def split: if_splits\<close>)

text \<open>The only wire value that denotes a given primitive value.\<close>

fun encode_primitive :: "string \<Rightarrow> canonical_value \<Rightarrow> any_value" where
  "encode_primitive prim CUnit = AKvList []"
| "encode_primitive prim (CString s) = AString s"
| "encode_primitive prim (CBool b) = ABool b"
| "encode_primitive prim (CInteger i) =
     (if prim = ''u64'' then AString (nat_dec (nat i)) else AInt (word_of_int i))"
| "encode_primitive prim (CFloat d) = ADouble d"
| "encode_primitive prim (CBytes bs) = ABytes bs"
| "encode_primitive prim _ = AArray []"

lemma primitive_encoding_unique:
  assumes "validate_primitive v prim loc = []" "canonical_primitive v prim = Some c"
  shows "v = encode_primitive prim c"
proof (cases v)
  case (AString s)
  show ?thesis
  proof (cases "prim = ''u64''")
    case True
    with assms AString obtain n where "c = CInteger (int n)" "u64_canonical s" "parse_unsigned 64 s = Some n"
      by (auto simp: primitive_defs split: if_splits)
    with True AString show ?thesis using u64_canonical_unique by simp
  next
    case False
    with assms(2) AString show ?thesis by (auto split: if_splits)
  qed
next
  case (AInt i)
  with assms(2) have "c = CInteger (sint i)" "prim \<noteq> ''u64''"
    by (auto split: if_splits)
  with AInt show ?thesis by simp
qed (use assms(2) in \<open>auto split: if_splits\<close>)

lemma primitive_encoding_exists:
  assumes "primitive_domain prim c" "canonical_double_wf c"
  shows "\<exists>v. double_wf v \<and> validate_primitive v prim loc = [] \<and> canonical_primitive v prim = Some c"
proof (cases c)
  case CUnit
  with assms show ?thesis by (intro exI [of _ "AKvList []"]) (auto simp: primitive_defs primitive_domain_def)
next
  case (CString s)
  with assms show ?thesis by (intro exI [of _ "AString s"]) (auto simp: primitive_defs primitive_domain_def)
next
  case (CBool b)
  with assms show ?thesis by (intro exI [of _ "ABool b"]) (auto simp: primitive_defs primitive_domain_def)
next
  case (CBytes b)
  with assms show ?thesis by (intro exI [of _ "ABytes b"]) (auto simp: primitive_defs primitive_domain_def)
next
  case (CFloat d)
  with assms show ?thesis
    by (intro exI [of _ "ADouble d"]; cases d) (auto simp: primitive_defs primitive_domain_def f32_exact_iff)
next
  case (CInteger i)
  show ?thesis
  proof (cases "prim = ''u64''")
    case True
    with assms CInteger have i: "0 \<le> i" "nat i < 2 ^ 64"
      by (simp_all add: primitive_domain_def nat_less_iff)
    then show ?thesis
      using True CInteger u64_canonical_nat_dec parse_unsigned_nat_dec [OF i(2)]
      by (intro exI [of _ "AString (nat_dec (nat i))"]) (simp add: primitive_defs)
  next
    case False
    with assms CInteger have i: "- (2 ^ 63) \<le> i" "i < 2 ^ 63"
      by (auto simp: primitive_domain_def)
    then have "sint (word_of_int i :: i64) = i"
      by (simp add: sint_sbintrunc' signed_take_bit_int_eq_self)
    with assms False CInteger show ?thesis
      by (intro exI [of _ "AInt (word_of_int i)"]) (auto simp: primitive_defs primitive_domain_def)
  qed
qed (use assms in \<open>simp_all add: primitive_domain_def\<close>)

text \<open>
  C20: a primitive type denotes exactly the values of its domain (\<open>i32\<close>, \<open>u32\<close>, \<open>i64\<close> and \<open>u64\<close>
  ranges, \<open>f32\<close> values exactly representable in binary32), and each of them has exactly one wire
  encoding that the validator accepts, so comparing canonical primitives is comparing encodings.
\<close>

theorem primitive_encoding_exact:
  "primitive_domain prim c \<and> canonical_double_wf c \<longleftrightarrow>
   (\<exists>!v. double_wf v \<and> validate_primitive v prim loc = [] \<and> canonical_primitive v prim = Some c)"
  by (metis option.inject primitive_encoding_exists primitive_encoding_unique primitive_valid_domain)

section \<open>Validated values have a canonical value\<close>

lemma primitive_valid_canonical: "validate_primitive v prim loc = [] \<Longrightarrow> \<exists>c. canonical_primitive v prim = Some c"
  by (cases v) (auto simp: primitive_defs split: if_splits)

declare canonical_primitive.simps [simp del]

lemma validate_value_canonical:
  "validate_value R reg rc v t loc = [] \<Longrightarrow> \<exists>c. canonical_value reg rc v t = Some c"
proof (induction R reg rc v t loc rule: validate_value.induct)
  case (1 R reg rc v name loc)
  then show ?case by (simp add: primitive_valid_canonical)
next
  case (2 R reg rc v name cid rid loc)
  then show ?case
    by (auto simp: resolve_named_def Let_def split: option.splits if_splits)
next
  case (3 R reg rc v items ordered unique loc)
  then obtain vs where v: "v = AArray vs" by (cases v) simp_all
  have "\<forall>x\<in>set vs. canonical_value reg rc x items \<noteq> None"
    using 3 v for_from_Nil_each [of 0 _ vs] by (fastforce simp: Let_def)
  with v show ?case using those_map_not_None [of _ vs] by auto
next
  case (4 R reg rc v keys vals ordered loc)
  show ?case
  proof (cases "string_keyed keys ordered")
    case True
    with 4 obtain kvs where v: "v = AKvList kvs" by (cases v) simp_all
    have "\<forall>p\<in>set kvs. canonical_value reg rc (snd p) vals \<noteq> None"
      using 4 True v by (fastforce simp: for_each_Nil_iff)
    with True v show ?thesis
      using those_map_not_None [of "\<lambda>p. map_option (Pair (CString (fst p))) (canonical_value reg rc (snd p) vals)" kvs]
      by auto
  next
    case False
    with 4 obtain es where v: "v = AArray es" by (cases v) simp_all
    let ?f = "\<lambda>e. case map_entry e of None \<Rightarrow> None
        | Some (k, x) \<Rightarrow> option_pair (canonical_value reg rc k keys) (canonical_value reg rc x vals)"
    from 4(4) False v have loop: "loop_state (check_map_entry (\<lambda>k l. validate_value R reg rc k keys l)
       (\<lambda>x l. validate_value R reg rc x vals l) (\<lambda>k. canonical_value reg rc k keys) loc) {} 0 es = []"
      by simp
    have "\<forall>e\<in>set es. ?f e \<noteq> None"
    proof
      fix e assume e: "e \<in> set es"
      then obtain k x l l' where "strict_entry e = Some (k, x)" "validate_value R reg rc k keys l = []"
        "validate_value R reg rc x vals l' = []"
        using map_entries_valid [OF loop e] by auto
      then show "?f e \<noteq> None"
        using 4(2,3) [OF False v] e strict_entry_map_entry by (fastforce simp: option_pair_def)
    qed
    with False v show ?thesis using those_map_not_None [of ?f es] by auto
  qed
next
  case (5 R reg rc v items loc)
  then obtain vs where v: "v = AArray vs" by (cases v) simp_all
  with 5(2) have len: "length vs = length items" by (simp split: if_splits)
  have "\<forall>(x, t)\<in>set (zip vs items). canonical_value reg rc x t \<noteq> None"
    using 5 v len for_from_Nil_each [of 0 _ "zip vs items"] by fastforce
  with v len show ?case using those_map_not_None [of _ "zip vs items"] by fastforce
next
  case (6 R reg rc v fs loc)
  then obtain kvs where v: "v = AKvList kvs" by (cases v) simp_all
  with 6(2) have names: "set (map fst kvs) = set (map nv_name fs)" by (auto split: if_splits)
  let ?f = "\<lambda>f. case map_of kvs (nv_name f) of None \<Rightarrow> None
      | Some x \<Rightarrow> map_option (Pair (nv_name f)) (canonical_value reg rc x (nv_type f))"
  have "\<forall>f\<in>set fs. ?f f \<noteq> None"
  proof
    fix f assume f: "f \<in> set fs"
    then have "nv_name f \<in> set (map fst kvs)" using names by simp
    then obtain x where x: "map_of kvs (nv_name f) = Some x"
      by (metis list.set_map map_of_eq_None_iff not_Some_eq)
    then have "validate_value R reg rc x (nv_type f) (field_loc loc (nv_name f)) = []"
      using 6(2) v names f by (fastforce simp: for_each_Nil_iff)
    with 6(1) [OF v _ f x] names x show "?f f \<noteq> None" by auto
  qed
  with v show ?case using those_map_not_None [of ?f fs] by auto
next
  case (7 R reg rc v inner loc)
  then obtain name p where v: "v = AKvList [(name, p)]"
    by (auto split: any_value.splits list.splits)
  show ?case
    using 7(1) [OF v refl refl refl] 7(2) primitive_valid_canonical [of p "''unit''" "loc @ ''.None''"]
    by (auto simp: v split: if_splits)
next
  case (8 R reg rc v variants loc)
  then obtain name p where v: "v = AKvList [(name, p)]"
    by (auto split: any_value.splits list.splits)
  show ?case
    using 8(1) [OF v refl refl refl] 8(2) primitive_valid_canonical [of p "''unit''" "field_loc loc name"]
    by (auto simp: v split: option.splits)
qed

text \<open>A registry with no components and a renderer that prints text verbatim, for concrete instances.\<close>

definition plain_renderer :: renderer where
  "plain_renderer = \<lparr>json_text = (\<lambda>s. s), f64_text = (\<lambda>_. []), base64_text = (\<lambda>_. []), debug_text = (\<lambda>s. s)\<rparr>"

definition sample_component :: resolved_component where
  "sample_component =
     \<lparr>rc_registry = ''r'',
      rc_component = \<lparr>comp_id = ''c'', comp_dependencies = [], comp_operations = [],
        comp_types = [NamedUnion ''list''
          [Variant ''nil'' None None,
           Variant ''cons'' (Some (Tuple [Primitive ''u32'', Named ''list'' None None])) None] None []],
        comp_description = None, comp_extensions = []\<rparr>\<rparr>"

definition sample_registry :: registry_set where
  "sample_registry = \<lparr>root_id = ''r'', root_version = ''1'', root_digest = ''d'',
     set_components = [(''c'', sample_component)]\<rparr>"

lemmas sample_defs = plain_renderer_def sample_component_def sample_registry_def component_types_def

lemma map_entries_canonical:
  assumes "\<not> string_keyed keys ordered"
    and "validate_value R reg rc (AArray es) (Map keys vals ordered) loc = []"
  shows "\<exists>cs. those (map (\<lambda>e. case map_entry e of None \<Rightarrow> None
      | Some (k, x) \<Rightarrow> option_pair (canonical_value reg rc k keys) (canonical_value reg rc x vals)) es) = Some cs
    \<and> distinct (map fst cs)"
proof -
  let ?f = "\<lambda>e. case map_entry e of None \<Rightarrow> None
      | Some (k, x) \<Rightarrow> option_pair (canonical_value reg rc k keys) (canonical_value reg rc x vals)"
  from assms have loop: "loop_state (check_map_entry (\<lambda>k l. validate_value R reg rc k keys l)
       (\<lambda>x l. validate_value R reg rc x vals l) (\<lambda>k. canonical_value reg rc k keys) loc) {} 0 es = []"
    by simp
  obtain cs where cs: "those (map ?f es) = Some cs"
    using validate_value_canonical [OF assms(2)] assms(1) by auto
  have "distinct (map (\<lambda>e. fst (the (?f e))) es) \<and> set (map (\<lambda>e. fst (the (?f e))) es) \<inter> {} = {}"
  proof (rule map_keys_distinct [OF loop])
    fix e k x assume e: "e \<in> set es" "strict_entry e = Some (k, x)"
    then have "?f e \<noteq> None" using cs those_map_not_None [of ?f es] by blast
    with e show "\<exists>c. canonical_value reg rc k keys = Some c \<and> fst (the (?f e)) = c"
      by (auto simp: strict_entry_map_entry option_pair_def split: option.splits)
  qed
  with cs show ?thesis
    using those_map_Some [OF cs] by (simp add: comp_def)
qed

text \<open>
  C21: a value without diagnostics has a canonical value, at any declared type (recursive named types
  included), so the comparison of validated traces never meets an unrepresentable value.
\<close>

theorem validated_has_canonical:
  "validate_value R reg rc v t loc = [] \<Longrightarrow> canonical_value reg rc v t \<noteq> None"
  using validate_value_canonical by fastforce

theorem validated_has_canonical_witness:
  "validate_value plain_renderer sample_registry sample_component
     (AKvList [(''cons'', AArray [AInt 7, AKvList [(''nil'', AKvList [])]])]) (Named ''list'' None None) ''$'' = [] \<and>
   canonical_value sample_registry sample_component
     (AKvList [(''cons'', AArray [AInt 7, AKvList [(''nil'', AKvList [])]])]) (Named ''list'' None None) \<noteq> None"
  using validated_has_canonical [of plain_renderer sample_registry sample_component
     "AKvList [(''cons'', AArray [AInt 7, AKvList [(''nil'', AKvList [])]])]" "Named ''list'' None None" "''$''"]
  by (simp add: sample_defs resolve_named_def Let_def validate_primitive_def primitive_wire_def primitive_range_def)

text \<open>
  C22: the canonical value of an unordered collection does not depend on the order of its elements.
\<close>

theorem unordered_collection_perm:
  assumes "mset vs = mset ws"
  shows "canonical_value reg rc (AArray vs) (Collection items False unique) =
         canonical_value reg rc (AArray ws) (Collection items False unique)"
proof (cases "those (map (\<lambda>x. canonical_value reg rc x items) vs)")
  case None
  then have "those (map (\<lambda>x. canonical_value reg rc x items) ws) = None"
    using those_map_mset [OF assms [symmetric]] by (metis option.exhaust option.simps(3))
  with None show ?thesis by simp
next
  case (Some cs)
  then obtain ds where ds: "those (map (\<lambda>x. canonical_value reg rc x items) ws) = Some ds" "mset cs = mset ds"
    using those_map_mset [OF assms Some] by blast
  then show ?thesis using Some sort_perm [OF ds(2)] by simp
qed

theorem unordered_collection_perm_witness:
  "canonical_value sample_registry sample_component (AArray [AInt 2, AInt 1]) (Collection (Primitive ''i32'') False False) =
   canonical_value sample_registry sample_component (AArray [AInt 1, AInt 2]) (Collection (Primitive ''i32'') False False)"
  by (rule unordered_collection_perm) simp

text \<open>
  The canonical value of a validated unordered map does not depend on the order of its entries.
\<close>

lemma unordered_map_perm:
  assumes "keys \<noteq> Primitive ''string''" "mset es = mset fs"
    and "validate_value R reg rc (AArray es) (Map keys vals False) loc = []"
  shows "canonical_value reg rc (AArray es) (Map keys vals False) =
         canonical_value reg rc (AArray fs) (Map keys vals False)"
proof -
  have k: "\<not> string_keyed keys False" using assms(1) by (simp add: string_keyed_def)
  from map_entries_canonical [OF k assms(3)] obtain cs where
    cs: "those (map (\<lambda>e. case map_entry e of None \<Rightarrow> None
      | Some (k, x) \<Rightarrow> option_pair (canonical_value reg rc k keys) (canonical_value reg rc x vals)) es) = Some cs"
    "distinct (map fst cs)" by blast
  from those_map_mset [OF assms(2) cs(1)] obtain ds where
    ds: "those (map (\<lambda>e. case map_entry e of None \<Rightarrow> None
      | Some (k, x) \<Rightarrow> option_pair (canonical_value reg rc k keys) (canonical_value reg rc x vals)) fs) = Some ds"
    "mset cs = mset ds" by blast
  then show ?thesis
    using k cs(1) bt_collect_perm [OF ds(2) cs(2)] by simp
qed

lemma sample_map_valid:
  "validate_value plain_renderer sample_registry sample_component
     (AArray [AKvList [(''key'', AInt 2), (''value'', ABool True)], AKvList [(''key'', AInt 1), (''value'', ABool False)]])
     (Map (Primitive ''i32'') (Primitive ''bool'') False) ''$'' = []"
  by (simp add: string_keyed_def check_map_entry_def strict_entry_def map_entry_def Let_def
      validate_primitive_def primitive_wire_def primitive_range_def canonical_primitive.simps)

text \<open>
  Duplicate-key detection is complete: the canonical map of a validated unordered map has one
  entry per wire entry, and every wire entry is found under its canonical key.
\<close>

lemma validated_map_keeps_entries:
  assumes "keys \<noteq> Primitive ''string''"
    and "validate_value R reg rc (AArray es) (Map keys vals False) loc = []"
  shows "\<exists>m. canonical_value reg rc (AArray es) (Map keys vals False) = Some (CMap m) \<and>
     length m = length es \<and>
     (\<forall>e\<in>set es. \<exists>k x ck cx. map_entry e = Some (k, x) \<and> canonical_value reg rc k keys = Some ck \<and>
        canonical_value reg rc x vals = Some cx \<and> map_of m ck = Some cx)"
proof -
  have k: "\<not> string_keyed keys False" using assms(1) by (simp add: string_keyed_def)
  let ?f = "\<lambda>e. case map_entry e of None \<Rightarrow> None
      | Some (k, x) \<Rightarrow> option_pair (canonical_value reg rc k keys) (canonical_value reg rc x vals)"
  from map_entries_canonical [OF k assms(2)] obtain cs where
    cs: "those (map ?f es) = Some cs" "distinct (map fst cs)" by blast
  have "\<exists>k x ck cx. map_entry e = Some (k, x) \<and> canonical_value reg rc k keys = Some ck \<and>
        canonical_value reg rc x vals = Some cx \<and> map_of (bt_collect cs) ck = Some cx" if e: "e \<in> set es" for e
  proof -
    from e have "?f e \<noteq> None" using cs(1) those_map_not_None [of ?f es] by blast
    then obtain k x ck cx where f: "map_entry e = Some (k, x)" "canonical_value reg rc k keys = Some ck"
        "canonical_value reg rc x vals = Some cx"
      by (auto simp: option_pair_def split: option.splits)
    then have "?f e = Some (ck, cx)" by simp
    then have "(ck, cx) \<in> set cs" using e those_map_Some [OF cs(1)] by force
    then have "map_of (bt_collect cs) ck = Some cx"
      using bt_collect_set(1) [OF cs(2)] bt_wf_distinct [OF bt_wf_collect, of cs] by simp
    with f show ?thesis by blast
  qed
  moreover have "length (bt_collect cs) = length es"
    using bt_collect_set(2) [OF cs(2)] those_map_Some [OF cs(1)] by simp
  ultimately show ?thesis using k cs(1) by auto
qed

text \<open>
  C23: a validated unique collection has as many pairwise distinct canonical elements as wire elements.
\<close>

theorem unique_collection_distinct:
  assumes "validate_value R reg rc (AArray vs) (Collection items ordered True) loc = []"
  shows "\<exists>cs. canonical_value reg rc (AArray vs) (Collection items ordered True) = Some (CList cs) \<and>
     distinct cs \<and> length cs = length vs"
proof -
  obtain cs where cs: "those (map (\<lambda>x. canonical_value reg rc x items) vs) = Some cs"
    using validate_value_canonical [OF assms] by auto
  then have "List.map_filter (\<lambda>x. canonical_value reg rc x items) vs = cs"
    using those_map_not_None [of "\<lambda>x. canonical_value reg rc x items" vs] those_map_Some [OF cs]
    by (auto simp: map_filter_def filter_id_conv[THEN iffD2])
  then have "distinct cs"
    using assms card_set_eq_length [of cs] by (simp add: Let_def split: if_splits)
  then show ?thesis
    using cs those_map_Some [OF cs] by (auto simp: distinct_sort)
qed

theorem unique_collection_distinct_witness:
  "\<exists>cs. canonical_value sample_registry sample_component (AArray [AInt 2, AInt 1]) (Collection (Primitive ''i32'') False True)
      = Some (CList cs) \<and> distinct cs \<and> length cs = 2"
proof -
  have "validate_value plain_renderer sample_registry sample_component (AArray [AInt 2, AInt 1])
      (Collection (Primitive ''i32'') False True) ''$'' = []"
    by (simp add: map_filter_def Let_def validate_primitive_def primitive_wire_def primitive_range_def canonical_primitive.simps)
  from unique_collection_distinct [OF this] show ?thesis by (simp add: numeral_2_eq_2)
qed

end
