(* ===== verification/Ctsc_Linked.thy ===== *)
theory Ctsc_Linked
  imports Ctsc_Canonical
begin

text \<open>
  Linked validation of spans (\<open>check_linked\<close>, \<open>find_operation\<close>, \<open>validate_linkage\<close> and
  \<open>validate_operation\<close> of \<open>rust/crates/specgate-ctsc/src/validation/linked.rs\<close>): the trace names
  the root registry, every operation span names a declared operation, and its inputs, observations
  and terminal outcome are those the registry declares, with values of the declared types.
\<close>

definition string_attr :: "attributes \<Rightarrow> string \<Rightarrow> string option" where
  "string_attr attrs key = Option.bind (map_of attrs key) as_string"

definition find_operation ::
    "registry_set \<Rightarrow> string \<Rightarrow> string \<Rightarrow> (resolved_component \<times> registry_operation) option" where
  "find_operation reg cid name =
     (case map_of (set_components reg) cid of
        None \<Rightarrow> None
      | Some c \<Rightarrow>
          map_option (Pair c) (find (\<lambda>operation. op_name operation = name) (comp_operations (rc_component c))))"

definition validate_linkage :: "trace_span \<Rightarrow> registry_set \<Rightarrow> issues" where
  "validate_linkage span reg =
     for_each (\<lambda>(key, expected).
       case string_attr (resource_attributes span) key of
         Some actual \<Rightarrow>
           if actual = expected then []
           else issue (span_location span) (''trace '' @ key @ '' does not match root registry'')
       | None \<Rightarrow> issue (span_location span) (''missing string attribute '' @ ticked key))
       [(''conformance.registry.id'', root_id reg),
        (''conformance.registry.version'', root_version reg),
        (''conformance.registry.digest'', root_digest reg)]"

text \<open>\<open>validate_operation\<close>, in the three parts of its body.\<close>

definition validate_inputs ::
    "renderer \<Rightarrow> registry_set \<Rightarrow> resolved_component \<Rightarrow> registry_operation \<Rightarrow> trace_span \<Rightarrow> issues" where
  "validate_inputs R reg rc operation span =
     (case Option.bind (map_of (span_attributes span) ''conformance.operation.inputs'') as_kvlist of
        None \<Rightarrow> []
      | Some inputs \<Rightarrow>
          if length inputs = length (op_inputs operation) \<and>
             list_all (\<lambda>declared. map_of inputs (nv_name declared) \<noteq> None) (op_inputs operation)
          then for_each (\<lambda>declared.
                 case map_of inputs (nv_name declared) of
                   None \<Rightarrow> []
                 | Some v \<Rightarrow> validate_value R reg rc v (nv_type declared)
                              (span_location span @ ''.inputs.'' @ nv_name declared)) (op_inputs operation)
          else issue (span_location span @ ''.inputs'') ''input names do not match registry operation'')"

definition validate_observation ::
    "renderer \<Rightarrow> registry_set \<Rightarrow> resolved_component \<Rightarrow> registry_operation \<Rightarrow> string \<Rightarrow> trace_event \<Rightarrow> issues" where
  "validate_observation R reg rc operation loc event =
     (if event_name event \<noteq> ''conformance.observation'' then []
      else case string_attr (event_attributes event) ''conformance.observation.name'' of
             None \<Rightarrow> []
           | Some name \<Rightarrow>
               (case find (\<lambda>observation. nv_name observation = name) (op_observations operation) of
                  None \<Rightarrow> issue loc (''observation '' @ ticked name @ '' is not declared'')
                | Some observation \<Rightarrow>
                    (case map_of (event_attributes event) ''conformance.observation.value'' of
                       None \<Rightarrow> []
                     | Some v \<Rightarrow> validate_value R reg rc v (nv_type observation) (loc @ ''.value''))))"

definition is_outcome_event :: "trace_event \<Rightarrow> bool" where
  "is_outcome_event event \<longleftrightarrow>
     event_name event \<in> {''conformance.result'', ''conformance.empty'', ''conformance.error'', ''conformance.abandoned''}"

definition validate_error_outcome ::
    "renderer \<Rightarrow> registry_set \<Rightarrow> resolved_component \<Rightarrow> registry_operation \<Rightarrow> trace_span \<Rightarrow> trace_event \<Rightarrow> issues" where
  "validate_error_outcome R reg rc operation span event =
     (let name = string_attr (event_attributes event) ''conformance.error.name'' in
      case Option.bind name (\<lambda>n. find (\<lambda>e. err_name e = n) (out_errors (op_outcomes operation))) of
        None \<Rightarrow> issue (span_location span) (''error outcome '' @ debug_option R name @ '' not declared'')
      | Some declaration \<Rightarrow>
          (case (err_type declaration, map_of (event_attributes event) ''conformance.error.value'') of
             (Some t, Some v) \<Rightarrow> validate_value R reg rc v t (span_location span @ ''.error'')
           | (Some _, None) \<Rightarrow>
               issue (span_location span) (''error outcome '' @ ticked (err_name declaration) @ '' requires a value'')
           | (None, Some _) \<Rightarrow>
               issue (span_location span) (''error outcome '' @ ticked (err_name declaration) @ '' does not declare a value'')
           | (None, None) \<Rightarrow> []))"

definition validate_outcome ::
    "renderer \<Rightarrow> registry_set \<Rightarrow> resolved_component \<Rightarrow> registry_operation \<Rightarrow> trace_span \<Rightarrow> issues" where
  "validate_outcome R reg rc operation span =
     (if \<exists>event\<in>set (span_events span). event_name event = ''conformance.fault'' then []
      else case find is_outcome_event (span_events span) of
             None \<Rightarrow>
               if out_result (op_outcomes operation) \<noteq> None \<or> out_empty (op_outcomes operation)
               then issue (span_location span) ''unit completion not permitted by registry outcomes'' else []
           | Some event \<Rightarrow>
               if event_name event = ''conformance.result'' then
                 (case out_result (op_outcomes operation) of
                    None \<Rightarrow> issue (span_location span) ''result outcome not declared''
                  | Some t \<Rightarrow>
                      (case map_of (event_attributes event) ''conformance.result.value'' of
                         None \<Rightarrow> []
                       | Some v \<Rightarrow> validate_value R reg rc v t (span_location span @ ''.result'')))
               else if event_name event = ''conformance.empty'' then
                 (if \<not> out_empty (op_outcomes operation)
                  then issue (span_location span) ''empty outcome not declared'' else [])
               else if event_name event = ''conformance.error'' then
                 validate_error_outcome R reg rc operation span event
               else [])"

definition validate_operation ::
    "renderer \<Rightarrow> registry_set \<Rightarrow> resolved_component \<Rightarrow> registry_operation \<Rightarrow> trace_span \<Rightarrow> issues" where
  "validate_operation R reg rc operation span =
     validate_inputs R reg rc operation span @
     for_indexed (\<lambda>i event. validate_observation R reg rc operation
       (span_location span @ ''.events['' @ nat_dec i @ '']'') event) (span_events span) @
     validate_outcome R reg rc operation span"

definition check_linked_span :: "renderer \<Rightarrow> registry_set \<Rightarrow> trace_span \<Rightarrow> issues" where
  "check_linked_span R reg span =
     validate_linkage span reg @
     (if span_name span \<noteq> ''conformance.operation'' then []
      else case (string_attr (span_attributes span) ''conformance.component.id'',
                 string_attr (span_attributes span) ''conformance.operation.name'') of
             (Some cid, Some name) \<Rightarrow>
               (case find_operation reg cid name of
                  None \<Rightarrow>
                    if map_of (set_components reg) cid \<noteq> None
                    then issue (span_location span) (''unknown operation '' @ ticked name @ '' in '' @ ticked cid)
                    else issue (span_location span) (''unknown component '' @ ticked cid)
                | Some (c, operation) \<Rightarrow> validate_operation R reg c operation span)
           | _ \<Rightarrow> [])"

definition check_linked :: "renderer \<Rightarrow> registry_set \<Rightarrow> trace_document \<Rightarrow> issues" where
  "check_linked R reg doc = for_each (check_linked_span R reg) (doc_spans doc)"

section \<open>What linked validation guarantees\<close>

definition links_root :: "registry_set \<Rightarrow> trace_span \<Rightarrow> bool" where
  "links_root reg span \<longleftrightarrow>
     string_attr (resource_attributes span) ''conformance.registry.id'' = Some (root_id reg) \<and>
     string_attr (resource_attributes span) ''conformance.registry.version'' = Some (root_version reg) \<and>
     string_attr (resource_attributes span) ''conformance.registry.digest'' = Some (root_digest reg)"

lemma validate_linkage_iff: "validate_linkage span reg = [] \<longleftrightarrow> links_root reg span"
  by (auto simp: validate_linkage_def links_root_def split: option.splits)

text \<open>The canonical value an operation span gives to a declared input, observation or outcome.\<close>

lemma validated_input:
  assumes "validate_inputs R reg rc operation span = []"
    and "map_of (span_attributes span) ''conformance.operation.inputs'' = Some (AKvList inputs)"
    and "declared \<in> set (op_inputs operation)"
  shows "\<exists>v c. map_of inputs (nv_name declared) = Some v \<and> canonical_value reg rc v (nv_type declared) = Some c"
proof -
  from assms(1,2) have all: "list_all (\<lambda>declared. map_of inputs (nv_name declared) \<noteq> None) (op_inputs operation)"
    by (auto simp: validate_inputs_def split: if_splits)
  then obtain v where v: "map_of inputs (nv_name declared) = Some v"
    using assms(3) by (auto simp: list_all_iff)
  have "validate_value R reg rc v (nv_type declared) (span_location span @ ''.inputs.'' @ nv_name declared) = []"
    using assms v by (fastforce simp: validate_inputs_def for_each_Nil_iff split: if_splits)
  with v validate_value_canonical show ?thesis by blast
qed

lemma validated_observation:
  assumes "validate_observation R reg rc operation loc event = []"
    and "event_name event = ''conformance.observation''"
    and "string_attr (event_attributes event) ''conformance.observation.name'' = Some name"
    and "map_of (event_attributes event) ''conformance.observation.value'' = Some v"
  shows "\<exists>d c. find (\<lambda>d. nv_name d = name) (op_observations operation) = Some d \<and>
     canonical_value reg rc v (nv_type d) = Some c"
  using assms validate_value_canonical
  by (fastforce simp: validate_observation_def split: option.splits)

lemma check_linked_span_Some:
  assumes "check_linked_span R reg span = []" "span_name span = ''conformance.operation''"
    and "string_attr (span_attributes span) ''conformance.component.id'' = Some cid"
    and "string_attr (span_attributes span) ''conformance.operation.name'' = Some name"
  shows "\<exists>c operation. find_operation reg cid name = Some (c, operation) \<and>
     validate_operation R reg c operation span = []"
  using assms by (auto simp: check_linked_span_def split: option.splits if_splits)

text \<open>The outcomes a registry operation permits for a span that does not fault.\<close>

definition outcome_permitted ::
    "registry_set \<Rightarrow> resolved_component \<Rightarrow> registry_operation \<Rightarrow> trace_event option \<Rightarrow> bool" where
  "outcome_permitted reg rc operation terminal \<longleftrightarrow>
     (case terminal of
        None \<Rightarrow> out_result (op_outcomes operation) = None \<and> \<not> out_empty (op_outcomes operation)
      | Some event \<Rightarrow>
          (event_name event = ''conformance.result'' \<longrightarrow>
             (\<exists>t. out_result (op_outcomes operation) = Some t \<and>
               (\<forall>v. map_of (event_attributes event) ''conformance.result.value'' = Some v \<longrightarrow>
                    canonical_value reg rc v t \<noteq> None))) \<and>
          (event_name event = ''conformance.empty'' \<longrightarrow> out_empty (op_outcomes operation)) \<and>
          (event_name event = ''conformance.error'' \<longrightarrow>
             (\<exists>d n. d \<in> set (out_errors (op_outcomes operation)) \<and>
               string_attr (event_attributes event) ''conformance.error.name'' = Some n \<and> err_name d = n \<and>
               (case (err_type d, map_of (event_attributes event) ''conformance.error.value'') of
                  (Some t, Some v) \<Rightarrow> canonical_value reg rc v t \<noteq> None
                | (None, None) \<Rightarrow> True
                | _ \<Rightarrow> False))))"

lemma validated_error_outcome:
  assumes "validate_error_outcome R reg rc operation span event = []"
  shows "\<exists>d n. d \<in> set (out_errors (op_outcomes operation)) \<and>
     string_attr (event_attributes event) ''conformance.error.name'' = Some n \<and> err_name d = n \<and>
     (case (err_type d, map_of (event_attributes event) ''conformance.error.value'') of
        (Some t, Some v) \<Rightarrow> canonical_value reg rc v t \<noteq> None
      | (None, None) \<Rightarrow> True
      | _ \<Rightarrow> False)"
proof -
  from assms obtain n d where n: "string_attr (event_attributes event) ''conformance.error.name'' = Some n"
    and d: "find (\<lambda>e. err_name e = n) (out_errors (op_outcomes operation)) = Some d"
    by (auto simp: validate_error_outcome_def Let_def bind_eq_Some_conv split: option.splits)
  then have "d \<in> set (out_errors (op_outcomes operation))" "err_name d = n"
    by (auto simp: find_Some_iff)
  moreover have "case (err_type d, map_of (event_attributes event) ''conformance.error.value'') of
        (Some t, Some v) \<Rightarrow> canonical_value reg rc v t \<noteq> None
      | (None, None) \<Rightarrow> True
      | _ \<Rightarrow> False"
    using assms n d validate_value_canonical
    by (fastforce simp: validate_error_outcome_def Let_def split: option.splits)
  ultimately show ?thesis using n by blast
qed

lemma validated_outcome:
  assumes "validate_outcome R reg rc operation span = []"
    and "\<forall>event\<in>set (span_events span). event_name event \<noteq> ''conformance.fault''"
  shows "outcome_permitted reg rc operation (find is_outcome_event (span_events span))"
proof (cases "find is_outcome_event (span_events span)")
  case None
  with assms show ?thesis
    by (auto simp: validate_outcome_def outcome_permitted_def split: if_splits)
next
  case (Some event)
  show ?thesis
    using assms Some validated_error_outcome validate_value_canonical
    by (fastforce simp: validate_outcome_def outcome_permitted_def split: if_splits option.splits)
qed


definition sample_operation :: registry_operation where
  "sample_operation =
     \<lparr>op_name = ''double'', op_inputs = [NamedValue ''n'' (Primitive ''u32'') None], op_observations = [],
      op_outcomes = \<lparr>out_result = Some (Primitive ''u64''), out_empty = False, out_errors = []\<rparr>,
      op_description = None, op_extensions = []\<rparr>"

definition sample_service :: registry_set where
  "sample_service = \<lparr>root_id = ''r'', root_version = ''1'', root_digest = ''d'',
     set_components = [(''c'', \<lparr>rc_registry = ''r'',
       rc_component = \<lparr>comp_id = ''c'', comp_dependencies = [], comp_operations = [sample_operation],
         comp_types = [], comp_description = None, comp_extensions = []\<rparr>\<rparr>)]\<rparr>"

definition sample_span :: trace_span where
  "sample_span =
     \<lparr>trace_id = ''t'', span_id = ''s'', parent_span_id = ''p'', span_name = ''conformance.operation'',
      start_time = Some 2, end_time = Some 3,
      span_attributes = [(''conformance.component.id'', AString ''c''),
        (''conformance.operation.inputs'', AKvList [(''n'', AInt 4)]),
        (''conformance.operation.name'', AString ''double'')],
      span_events = [\<lparr>event_name = ''conformance.result'',
        event_attributes = [(''conformance.result.value'', AString ''8'')]\<rparr>],
      span_stat = Unset,
      resource_attributes = [(''conformance.registry.digest'', AString ''d''),
        (''conformance.registry.id'', AString ''r''), (''conformance.registry.version'', AString ''1'')],
      span_location = ''$''\<rparr>"

lemmas service_defs = sample_operation_def sample_service_def sample_span_def

lemma sample_span_linked: "check_linked plain_renderer sample_service \<lparr>doc_spans = [sample_span]\<rparr> = []"
proof -
  have "parse_unsigned 64 ''8'' = Some 8" "u64_canonical ''8''"
    by (simp_all add: parse_unsigned_def u64_canonical_def dec_value_def digit_value_def is_digit_def)
  then show ?thesis
    by (simp add: check_linked_def check_linked_span_def validate_linkage_def service_defs string_attr_def
        find_operation_def validate_operation_def validate_inputs_def validate_observation_def
        validate_outcome_def is_outcome_event_def primitive_defs)
qed


end
