(* ===== verification/Ctsc_Comparison.thy ===== *)
theory Ctsc_Comparison
  imports Ctsc_Linked
begin

text \<open>
  The CTSC Strict comparison engine (\<open>rust/crates/specgate-ctsc/src/comparison/engine.rs\<close> and
  \<open>report.rs\<close>). A comparison pushes diagnostics and mismatches onto two sinks; here each function
  returns what it pushes. The recursion over child spans follows whatever parent links the two
  documents have, so it takes fuel, and the panic of \<open>expect\<close> on operation inputs is a value.
\<close>

section \<open>Reports\<close>

record comparison_mismatch =
  mismatch_path :: string
  expected :: string
  actual :: string

record comparison_diagnostic =
  diagnostic_path :: string
  diagnostic_message :: string

record comparison_report =
  policy :: string
  policy_version :: string
  report_reference :: string
  report_candidate :: string
  equivalent :: bool
  validation_failures :: issues
  report_errors :: "comparison_diagnostic list"
  report_mismatches :: "comparison_mismatch list"

definition build_report ::
    "string \<Rightarrow> string \<Rightarrow> issues \<Rightarrow> comparison_diagnostic list \<Rightarrow> comparison_mismatch list \<Rightarrow> comparison_report" where
  "build_report reference candidate failures errs mms =
     \<lparr>policy = ''ctsc.strict'', policy_version = ''0.2.0'',
      report_reference = reference, report_candidate = candidate,
      equivalent = (failures = [] \<and> errs = [] \<and> mms = []),
      validation_failures = failures, report_errors = errs, report_mismatches = mms\<rparr>"

datatype stop = Panic | OutOfFuel

type_synonym sink = "comparison_diagnostic list \<times> comparison_mismatch list"
type_synonym outcome = "stop + sink"

definition mismatch :: "string \<Rightarrow> string \<Rightarrow> string \<Rightarrow> comparison_mismatch list" where
  "mismatch path e a = [\<lparr>mismatch_path = path, expected = e, actual = a\<rparr>]"

definition comparison_error :: "string \<Rightarrow> string \<Rightarrow> comparison_diagnostic list" where
  "comparison_error path message = [\<lparr>diagnostic_path = path, diagnostic_message = message\<rparr>]"

definition report_mismatch :: "comparison_mismatch list \<Rightarrow> outcome" where
  "report_mismatch ms = Inr ([], ms)"

definition report_error :: "comparison_diagnostic list \<Rightarrow> outcome" where
  "report_error es = Inr (es, [])"

definition then_do :: "outcome \<Rightarrow> outcome \<Rightarrow> outcome" where
  "then_do p q =
     (case p of Inl s \<Rightarrow> Inl s
      | Inr (es, ms) \<Rightarrow> (case q of Inl s \<Rightarrow> Inl s | Inr (es', ms') \<Rightarrow> Inr (es @ es', ms @ ms')))"

definition do_all :: "outcome list \<Rightarrow> outcome" where
  "do_all ps = foldr then_do ps (Inr ([], []))"

abbreviation clean :: "outcome \<Rightarrow> bool" where
  "clean p \<equiv> p = Inr ([], [])"

lemma mismatch_not_Nil [simp]: "mismatch p e a \<noteq> []"
  by (simp add: mismatch_def)

lemma comparison_error_not_Nil [simp]: "comparison_error p m \<noteq> []"
  by (simp add: comparison_error_def)

lemma clean_report_mismatch [simp]: "clean (report_mismatch ms) \<longleftrightarrow> ms = []"
  by (simp add: report_mismatch_def)

lemma clean_report_error [simp]: "clean (report_error es) \<longleftrightarrow> es = []"
  by (simp add: report_error_def)

lemma clean_then_do [simp]: "clean (then_do p q) \<longleftrightarrow> clean p \<and> clean q"
  by (auto simp: then_do_def split: sum.splits)

lemma clean_do_all [simp]: "clean (do_all ps) \<longleftrightarrow> (\<forall>p\<in>set ps. clean p)"
  by (induction ps) (auto simp: do_all_def)

section \<open>The child index\<close>

type_synonym trace_index = "((string \<times> string) \<times> trace_span list) list"

definition trace_index :: "trace_document \<Rightarrow> trace_index" where
  "trace_index doc = foldl (\<lambda>m span. bt_push (trace_id span, parent_span_id span) span m) [] (doc_spans doc)"

definition children_of :: "trace_index \<Rightarrow> trace_span \<Rightarrow> trace_span list" where
  "children_of index span =
     (case map_of index (trace_id span, span_id span) of None \<Rightarrow> [] | Some spans \<Rightarrow> spans)"

lemma trace_index_from:
  "(case map_of (foldl (\<lambda>m span. bt_push (trace_id span, parent_span_id span) span m) m spans) (t, p) of
      None \<Rightarrow> [] | Some l \<Rightarrow> l) =
   (case map_of m (t, p) of None \<Rightarrow> [] | Some l \<Rightarrow> l) @
     filter (\<lambda>c. trace_id c = t \<and> parent_span_id c = p) spans"
  by (induction spans arbitrary: m) (auto simp: map_of_bt_push)

lemma children_of_index:
  "children_of (trace_index doc) span =
     filter (\<lambda>c. trace_id c = trace_id span \<and> parent_span_id c = span_id span) (doc_spans doc)"
  using trace_index_from [of "[]"] by (simp add: children_of_def trace_index_def)

section \<open>Span identity\<close>

datatype span_identity = OperationIdentity string string | SpanIdentity string

fun identity_key :: "span_identity \<Rightarrow> nat \<times> string \<times> string" where
  "identity_key (OperationIdentity c n) = (0, c, n)"
| "identity_key (SpanIdentity n) = (1, n, [])"

lemma identity_key_inject: "identity_key x = identity_key y \<longleftrightarrow> x = y"
  by (cases x; cases y) simp_all

instantiation span_identity :: linorder
begin

definition less_eq_span_identity :: "span_identity \<Rightarrow> span_identity \<Rightarrow> bool" where
  "x \<le> y \<longleftrightarrow> identity_key x \<le> identity_key y"

definition less_span_identity :: "span_identity \<Rightarrow> span_identity \<Rightarrow> bool" where
  "x < y \<longleftrightarrow> identity_key x < identity_key y"

instance
  by standard (auto simp: less_eq_span_identity_def less_span_identity_def less_le identity_key_inject)

end

definition attribute_string :: "trace_span \<Rightarrow> string \<Rightarrow> string" where
  "attribute_string span key =
     (case string_attr (span_attributes span) key of None \<Rightarrow> ''<missing>'' | Some s \<Rightarrow> s)"

definition event_string :: "trace_event \<Rightarrow> string \<Rightarrow> string" where
  "event_string event key =
     (case string_attr (event_attributes event) key of None \<Rightarrow> ''<missing>'' | Some s \<Rightarrow> s)"

definition span_identity :: "trace_span \<Rightarrow> span_identity" where
  "span_identity span =
     (if span_name span = ''conformance.operation''
      then OperationIdentity (attribute_string span ''conformance.component.id'')
             (attribute_string span ''conformance.operation.name'')
      else SpanIdentity (span_name span))"

fun identity_text :: "renderer \<Rightarrow> span_identity \<Rightarrow> string" where
  "identity_text R (OperationIdentity c n) =
     ''operation[component='' @ debug_text R c @ '',name='' @ debug_text R n @ '']''"
| "identity_text R (SpanIdentity n) = n"

section \<open>Values and events\<close>

record comparison =
  cmp_renderer :: renderer
  reference_index :: trace_index
  candidate_index :: trace_index
  cmp_registry :: "registry_set option"

type_synonym op_declaration = "(resolved_component \<times> registry_operation) option"

definition compare_value ::
    "renderer \<Rightarrow> type_ref option \<Rightarrow> resolved_component option \<Rightarrow> registry_set option \<Rightarrow> string \<Rightarrow>
     any_value option \<Rightarrow> any_value option \<Rightarrow> comparison_mismatch list" where
  "compare_value R vt rc reg path reference candidate =
     (case (reference, candidate) of
        (Some a, Some b) \<Rightarrow>
          (case (vt, rc, reg) of
             (Some t, Some c, Some r) \<Rightarrow>
               let x = canonical_value r c a t; y = canonical_value r c b t in
               if x \<noteq> y then
                 mismatch path
                   (case x of None \<Rightarrow> ''<invalid>'' | Some v \<Rightarrow> display_canonical R v)
                   (case y of None \<Rightarrow> ''<invalid>'' | Some v \<Rightarrow> display_canonical R v)
               else []
           | _ \<Rightarrow> if a \<noteq> b then mismatch path (display_any R a) (display_any R b) else [])
      | (Some a, None) \<Rightarrow> mismatch path (display_any R a) ''<missing>''
      | (None, Some b) \<Rightarrow> mismatch path ''<missing>'' (display_any R b)
      | (None, None) \<Rightarrow> [])"

definition get_at :: "'a list \<Rightarrow> nat \<Rightarrow> 'a option" where
  "get_at xs i = (if i < length xs then Some (xs ! i) else None)"

definition observation_type :: "op_declaration \<Rightarrow> string \<Rightarrow> type_ref option" where
  "observation_type decl name =
     Option.bind decl (\<lambda>(_, operation). map_option nv_type (find (\<lambda>o'. nv_name o' = name) (op_observations operation)))"

definition result_type :: "op_declaration \<Rightarrow> type_ref option" where
  "result_type decl = Option.bind decl (\<lambda>(_, operation). out_result (op_outcomes operation))"

definition error_type :: "op_declaration \<Rightarrow> string \<Rightarrow> type_ref option" where
  "error_type decl name =
     Option.bind decl (\<lambda>(_, operation).
       Option.bind (find (\<lambda>e. err_name e = name) (out_errors (op_outcomes operation))) err_type)"

definition input_type :: "op_declaration \<Rightarrow> string \<Rightarrow> type_ref option" where
  "input_type decl name =
     Option.bind decl (\<lambda>(_, operation). map_option nv_type (find (\<lambda>i. nv_name i = name) (op_inputs operation)))"

definition compare_event ::
    "renderer \<Rightarrow> registry_set option \<Rightarrow> op_declaration \<Rightarrow> string \<Rightarrow> trace_event \<Rightarrow> trace_event \<Rightarrow>
     comparison_mismatch list" where
  "compare_event R reg decl path a b =
     (if event_name a \<noteq> event_name b then mismatch (path @ ''.name'') (event_name a) (event_name b)
      else if event_name a = ''conformance.observation'' then
        (let x = event_string a ''conformance.observation.name'';
             y = event_string b ''conformance.observation.name''
         in (if x \<noteq> y then mismatch (path @ ''.observation'') x y else []) @
            compare_value R (if x = y then observation_type decl x else None) (map_option fst decl) reg (path @ ''.value'')
              (map_of (event_attributes a) ''conformance.observation.value'')
              (map_of (event_attributes b) ''conformance.observation.value''))
      else if event_name a = ''conformance.result'' then
        compare_value R (result_type decl) (map_option fst decl) reg (path @ ''.result'')
          (map_of (event_attributes a) ''conformance.result.value'')
          (map_of (event_attributes b) ''conformance.result.value'')
      else if event_name a = ''conformance.error'' then
        (let x = event_string a ''conformance.error.name'';
             y = event_string b ''conformance.error.name''
         in (if x \<noteq> y then mismatch (path @ ''.error'') x y else []) @
            compare_value R (if x = y then error_type decl x else None) (map_option fst decl) reg (path @ ''.value'')
              (map_of (event_attributes a) ''conformance.error.value'')
              (map_of (event_attributes b) ''conformance.error.value''))
      else if event_name a = ''conformance.fault'' then
        for_each (\<lambda>key. compare_value R None None None (path @ ''.'' @ key)
            (map_of (event_attributes a) key) (map_of (event_attributes b) key))
          [''conformance.fault.type'', ''conformance.fault.message'']
      else [])"

definition compare_events ::
    "renderer \<Rightarrow> registry_set option \<Rightarrow> op_declaration \<Rightarrow> string \<Rightarrow> trace_event list \<Rightarrow> trace_event list \<Rightarrow>
     comparison_mismatch list" where
  "compare_events R reg decl path reference candidate =
     for_each (\<lambda>i. let event_path = path @ ''.events['' @ nat_dec i @ '']'' in
       case (get_at reference i, get_at candidate i) of
         (Some a, Some b) \<Rightarrow> compare_event R reg decl event_path a b
       | (Some a, None) \<Rightarrow> mismatch event_path (event_name a) ''<missing>''
       | (None, Some b) \<Rightarrow> mismatch event_path ''<missing>'' (event_name b)
       | (None, None) \<Rightarrow> [])
       [0..<max (length reference) (length candidate)]"

definition all_keys :: "('k::linorder \<times> 'v) list \<Rightarrow> ('k \<times> 'w) list \<Rightarrow> 'k list" where
  "all_keys m m' = sort (remdups (map fst m @ map fst m'))"

definition operation_inputs :: "trace_span \<Rightarrow> attributes option" where
  "operation_inputs span = Option.bind (map_of (span_attributes span) ''conformance.operation.inputs'') as_kvlist"

definition compare_inputs ::
    "renderer \<Rightarrow> registry_set option \<Rightarrow> op_declaration \<Rightarrow> string \<Rightarrow> trace_span \<Rightarrow> trace_span \<Rightarrow> outcome" where
  "compare_inputs R reg decl path reference candidate =
     (case (operation_inputs reference, operation_inputs candidate) of
        (Some xs, Some ys) \<Rightarrow>
          report_mismatch (for_each (\<lambda>name.
            compare_value R (input_type decl name) (map_option fst decl) reg (path @ ''.inputs.'' @ name)
              (map_of xs name) (map_of ys name)) (all_keys xs ys))
      | _ \<Rightarrow> Inl Panic)"

section \<open>Ordering and matching of children\<close>

definition interval_of :: "trace_span \<Rightarrow> (nat \<times> nat) option" where
  "interval_of span =
     (case (start_time span, end_time span) of (Some s, Some e) \<Rightarrow> Some (s, e) | _ \<Rightarrow> None)"

definition bad_interval :: "trace_span \<Rightarrow> bool" where
  "bad_interval span \<longleftrightarrow> (case interval_of span of None \<Rightarrow> True | Some (s, e) \<Rightarrow> e < s)"

fun check_adjacent :: "trace_span list \<Rightarrow> string option" where
  "check_adjacent (l # r # spans) =
     (case (interval_of l, interval_of r) of
        (Some (ls, le), Some (rs, re)) \<Rightarrow>
          if le \<le> rs \<and> re \<le> ls
          then Some ''equal child intervals make strict sequential ordering ambiguous''
          else if le > rs
          then Some ''overlapping child spans outside conformance.parallel are unsupported''
          else check_adjacent (r # spans)
      | _ \<Rightarrow> None)"
| "check_adjacent _ = None"

definition sequential_children ::
    "string \<Rightarrow> string \<Rightarrow> trace_span list \<Rightarrow> comparison_diagnostic list + trace_span list" where
  "sequential_children side path children =
     (if \<exists>span\<in>set children. bad_interval span
      then Inl (comparison_error (side @ ''.'' @ path @ ''.children'')
                  ''child spans require valid start/end intervals for strict ordering'')
      else let sorted_spans = sort_key (\<lambda>span. (start_time span, end_time span)) children in
           case check_adjacent sorted_spans of
             Some message \<Rightarrow> Inl (comparison_error (side @ ''.'' @ path @ ''.children'') message)
           | None \<Rightarrow> Inr sorted_spans)"

fun identity_loop ::
    "renderer \<Rightarrow> string \<Rightarrow> string \<Rightarrow> trace_span list \<Rightarrow> (span_identity \<times> trace_span) list \<Rightarrow>
     comparison_diagnostic list \<times> (span_identity \<times> trace_span) list" where
  "identity_loop R side path [] m = ([], m)"
| "identity_loop R side path (child # spans) m =
     (let identity = span_identity child;
          (errs, m') = identity_loop R side path spans (bt_insert identity child m)
      in ((if map_of m identity \<noteq> None
           then comparison_error (side @ ''.'' @ path @ ''.parallel['' @ identity_text R identity @ '']'')
                  ''duplicate parallel branch semantic identity is ambiguous''
           else []) @ errs, m'))"

definition identity_map ::
    "renderer \<Rightarrow> string \<Rightarrow> string \<Rightarrow> trace_span list \<Rightarrow>
     comparison_diagnostic list \<times> (span_identity \<times> trace_span) list option" where
  "identity_map R side path children =
     (let (errs, m) = identity_loop R side path children [] in (errs, if errs = [] then Some m else None))"

section \<open>Spans\<close>

type_synonym child_comparison = "string \<Rightarrow> trace_span \<Rightarrow> trace_span \<Rightarrow> outcome"

definition compare_parallel :: "comparison \<Rightarrow> child_comparison \<Rightarrow> child_comparison" where
  "compare_parallel cx rec path reference candidate =
     (let R = cmp_renderer cx;
          (errs, ms) = identity_map R ''reference'' path (children_of (reference_index cx) reference);
          (errs', ms') = identity_map R ''candidate'' path (children_of (candidate_index cx) candidate)
      in then_do (report_error (errs @ errs'))
           (case (ms, ms') of
              (Some m, Some m') \<Rightarrow>
                do_all (map (\<lambda>identity.
                  let child_path = path @ ''.parallel['' @ identity_text R identity @ '']'' in
                  case (map_of m identity, map_of m' identity) of
                    (Some a, Some b) \<Rightarrow> rec child_path a b
                  | (Some _, None) \<Rightarrow> report_mismatch (mismatch child_path ''present'' ''<missing>'')
                  | (None, Some _) \<Rightarrow> report_mismatch (mismatch child_path ''<missing>'' ''present'')
                  | (None, None) \<Rightarrow> Inr ([], [])) (all_keys m m'))
            | _ \<Rightarrow> Inr ([], [])))"

definition compare_children :: "comparison \<Rightarrow> child_comparison \<Rightarrow> child_comparison" where
  "compare_children cx rec path reference candidate =
     (if span_name reference = ''conformance.parallel'' \<or> span_name candidate = ''conformance.parallel''
      then compare_parallel cx rec path reference candidate
      else
        case sequential_children ''reference'' path (children_of (reference_index cx) reference) of
          Inl errs \<Rightarrow> report_error errs
        | Inr xs \<Rightarrow>
            (case sequential_children ''candidate'' path (children_of (candidate_index cx) candidate) of
               Inl errs \<Rightarrow> report_error errs
             | Inr ys \<Rightarrow>
                 do_all (map (\<lambda>i.
                   let child_path = path @ ''.children['' @ nat_dec i @ '']'';
                       text = (\<lambda>span. identity_text (cmp_renderer cx) (span_identity span)) in
                   case (get_at xs i, get_at ys i) of
                     (Some a, Some b) \<Rightarrow> rec child_path a b
                   | (Some a, None) \<Rightarrow> report_mismatch (mismatch child_path (text a) ''<missing>'')
                   | (None, Some b) \<Rightarrow> report_mismatch (mismatch child_path ''<missing>'' (text b))
                   | (None, None) \<Rightarrow> Inr ([], [])) [0..<max (length xs) (length ys)])))"

definition compare_operation :: "comparison \<Rightarrow> child_comparison \<Rightarrow> child_comparison" where
  "compare_operation cx rec path reference candidate =
     (let R = cmp_renderer cx;
          rc = attribute_string reference ''conformance.component.id'';
          cc = attribute_string candidate ''conformance.component.id'';
          rn = attribute_string reference ''conformance.operation.name'';
          cn = attribute_string candidate ''conformance.operation.name'';
          decl = (if rc = cc \<and> rn = cn then Option.bind (cmp_registry cx) (\<lambda>reg. find_operation reg rc rn) else None)
      in do_all
          [report_mismatch (if rc \<noteq> cc then mismatch (path @ ''.component'') rc cc else []),
           report_mismatch (if rn \<noteq> cn then mismatch (path @ ''.operation'') rn cn else []),
           compare_inputs R (cmp_registry cx) decl path reference candidate,
           report_mismatch (compare_events R (cmp_registry cx) decl path (span_events reference) (span_events candidate)),
           compare_children cx rec path reference candidate])"

primrec compare_child :: "comparison \<Rightarrow> nat \<Rightarrow> child_comparison" where
  "compare_child cx 0 = (\<lambda>path reference candidate. Inl OutOfFuel)"
| "compare_child cx (Suc n) = (\<lambda>path reference candidate.
     if span_name reference \<noteq> span_name candidate
     then report_mismatch (mismatch (path @ ''.span'') (span_name reference) (span_name candidate))
     else if span_name reference = ''conformance.operation'' then
       compare_operation cx (compare_child cx n)
         (path @ ''.operation['' @ attribute_string reference ''conformance.component.id'' @ ''::'' @
            attribute_string reference ''conformance.operation.name'' @ '']'') reference candidate
     else if span_name reference = ''conformance.parallel'' then
       then_do (report_mismatch (compare_events (cmp_renderer cx) (cmp_registry cx) None path
                  (span_events reference) (span_events candidate)))
         (compare_parallel cx (compare_child cx n) path reference candidate)
     else report_mismatch (mismatch (path @ ''.span'') (span_name reference) (span_name candidate)))"

definition compare_container :: "comparison \<Rightarrow> nat \<Rightarrow> child_comparison" where
  "compare_container cx n path reference candidate =
     then_do (report_mismatch (compare_events (cmp_renderer cx) (cmp_registry cx) None path
                (span_events reference) (span_events candidate)))
       (compare_children cx (compare_child cx n) path reference candidate)"

section \<open>Documents\<close>

definition scenario_name :: "trace_span \<Rightarrow> string" where
  "scenario_name span =
     (case string_attr (span_attributes span) ''conformance.scenario.name'' of None \<Rightarrow> '''' | Some s \<Rightarrow> s)"

fun scenario_loop ::
    "renderer \<Rightarrow> string \<Rightarrow> trace_span list \<Rightarrow> (string \<times> trace_span) list \<Rightarrow>
     comparison_diagnostic list \<times> (string \<times> trace_span) list" where
  "scenario_loop R side [] m = ([], m)"
| "scenario_loop R side (scenario # spans) m =
     (if span_name scenario \<noteq> ''conformance.scenario'' then scenario_loop R side spans m
      else let name = scenario_name scenario;
               (errs, m') = scenario_loop R side spans (bt_insert name scenario m)
           in ((if map_of m name \<noteq> None
                then comparison_error (side @ ''.scenario['' @ debug_text R name @ '']'')
                       ''scenario names must be unique within a run''
                else []) @ errs, m'))"

definition scenarios ::
    "renderer \<Rightarrow> string \<Rightarrow> trace_index \<Rightarrow> trace_span \<Rightarrow> comparison_diagnostic list \<times> (string \<times> trace_span) list" where
  "scenarios R side index run = scenario_loop R side (children_of index run) []"

definition runs_of :: "trace_document \<Rightarrow> trace_span list" where
  "runs_of doc = filter (\<lambda>span. span_name span = ''conformance.run'') (doc_spans doc)"

definition run_selection :: "string \<Rightarrow> trace_span list \<Rightarrow> comparison_diagnostic list" where
  "run_selection side runs =
     (if length runs \<noteq> 1
      then comparison_error (side @ ''.run'')
             (''implicit run selection requires exactly one run, found '' @ nat_dec (length runs))
      else [])"

definition compare_scenarios ::
    "comparison \<Rightarrow> nat \<Rightarrow> (string \<times> trace_span) list \<Rightarrow> (string \<times> trace_span) list \<Rightarrow> outcome" where
  "compare_scenarios cx n rs cs =
     do_all (map (\<lambda>name.
       let path = ''scenario['' @ debug_text (cmp_renderer cx) name @ '']'' in
       case (map_of rs name, map_of cs name) of
         (Some a, Some b) \<Rightarrow> compare_container cx n path a b
       | (Some _, None) \<Rightarrow> report_mismatch (mismatch path ''present'' ''<missing>'')
       | (None, Some _) \<Rightarrow> report_mismatch (mismatch path ''<missing>'' ''present'')
       | (None, None) \<Rightarrow> Inr ([], [])) (all_keys rs cs))"

definition compare_documents ::
    "renderer \<Rightarrow> registry_set option \<Rightarrow> nat \<Rightarrow> trace_document \<Rightarrow> trace_document \<Rightarrow> outcome" where
  "compare_documents R reg n reference candidate =
     (let rruns = runs_of reference; cruns = runs_of candidate;
          selection = run_selection ''reference'' rruns @ run_selection ''candidate'' cruns
      in case (rruns, cruns) of
           (rrun # _, crun # _) \<Rightarrow>
             if selection \<noteq> [] then report_error selection
             else
               let cx = \<lparr>cmp_renderer = R, reference_index = trace_index reference,
                         candidate_index = trace_index candidate, cmp_registry = reg\<rparr>;
                   (errs, rs) = scenarios R ''reference'' (reference_index cx) rrun;
                   (errs', cs) = scenarios R ''candidate'' (candidate_index cx) crun
               in do_all
                    [report_mismatch (compare_events R reg None ''run'' (span_events rrun) (span_events crun)),
                     report_error (errs @ errs'),
                     compare_scenarios cx n rs cs]
         | _ \<Rightarrow> report_error selection)"

section \<open>Loaded artifacts\<close>

record 'a loaded =
  loaded_value :: "'a option"
  loaded_issues :: issues

definition prefix_issues :: "string \<Rightarrow> issues \<Rightarrow> issues" where
  "prefix_issues prefix found =
     map (\<lambda>i. \<lparr>issue_location = prefix @ '':'' @ issue_location i, issue_message = issue_message i\<rparr>) found"

definition load_failures ::
    "trace_document loaded \<Rightarrow> trace_document loaded \<Rightarrow> registry_set loaded option \<Rightarrow> issues" where
  "load_failures rt ct reg =
     prefix_issues ''reference'' (loaded_issues rt) @
     prefix_issues ''candidate'' (loaded_issues ct) @
     (case reg of None \<Rightarrow> [] | Some r \<Rightarrow> prefix_issues ''registry'' (loaded_issues r))"

definition linked_failures ::
    "renderer \<Rightarrow> trace_document loaded \<Rightarrow> trace_document loaded \<Rightarrow> registry_set loaded option \<Rightarrow> issues" where
  "linked_failures R rt ct reg =
     (case (loaded_value rt, loaded_value ct, Option.bind reg loaded_value) of
        (Some a, Some b, Some r) \<Rightarrow>
          prefix_issues ''reference linked'' (check_linked R r a) @
          prefix_issues ''candidate linked'' (check_linked R r b)
      | _ \<Rightarrow> [])"

definition compare_loaded ::
    "renderer \<Rightarrow> nat \<Rightarrow> string \<Rightarrow> string \<Rightarrow> trace_document loaded \<Rightarrow> trace_document loaded \<Rightarrow>
     registry_set loaded option \<Rightarrow> stop + comparison_report" where
  "compare_loaded R n reference candidate rt ct reg =
     (let loading = load_failures rt ct reg;
          failures = loading @ (if loading = [] then linked_failures R rt ct reg else [])
      in case (loaded_value rt, loaded_value ct) of
           (Some a, Some b) \<Rightarrow>
             if failures = [] then
               (case compare_documents R (Option.bind reg loaded_value) n a b of
                  Inl stop \<Rightarrow> Inl stop
                | Inr (errs, mms) \<Rightarrow> Inr (build_report reference candidate failures errs mms))
             else Inr (build_report reference candidate failures [] [])
         | _ \<Rightarrow> Inr (build_report reference candidate failures [] []))"

end
