(* ===== verification/Ctsc_Trace.thy ===== *)
theory Ctsc_Trace
  imports Ctsc_Comparison
begin

text \<open>
  Trace Core semantic validation (\<open>validate_semantics\<close> and \<open>validate_events\<close> of
  \<open>rust/crates/specgate-ctsc/src/validation/trace.rs\<close>, \<open>trace/ancestry.rs\<close>, \<open>trace/fault.rs\<close> and
  the attribute checks of \<open>trace/fields.rs\<close>). The loop that follows parent links has fuel; enough
  fuel is proved to be one more than the number of spans.
\<close>

section \<open>Roles\<close>

datatype span_role = RunRole | ScenarioRole | OperationRole | ParallelRole | OtherSpan

definition parse_span_role :: "string \<Rightarrow> span_role" where
  "parse_span_role name =
     (if name = ''conformance.run'' then RunRole
      else if name = ''conformance.scenario'' then ScenarioRole
      else if name = ''conformance.operation'' then OperationRole
      else if name = ''conformance.parallel'' then ParallelRole
      else OtherSpan)"

datatype event_role =
  ObservationRole | ResultRole | EmptyRole | ErrorRole | FaultRole | AbandonedRole | OtherEvent

definition parse_event_role :: "string \<Rightarrow> event_role" where
  "parse_event_role name =
     (if name = ''conformance.observation'' then ObservationRole
      else if name = ''conformance.result'' then ResultRole
      else if name = ''conformance.empty'' then EmptyRole
      else if name = ''conformance.error'' then ErrorRole
      else if name = ''conformance.fault'' then FaultRole
      else if name = ''conformance.abandoned'' then AbandonedRole
      else OtherEvent)"

definition operation_only :: "event_role \<Rightarrow> bool" where
  "operation_only r \<longleftrightarrow> r \<in> {ObservationRole, ResultRole, EmptyRole, ErrorRole, AbandonedRole}"

datatype fault_observer = TargetObserver | SupervisorObserver | OtherObserver

definition parse_observer :: "string option \<Rightarrow> fault_observer" where
  "parse_observer v =
     (if v = Some ''target'' then TargetObserver
      else if v = Some ''supervisor'' then SupervisorObserver
      else OtherObserver)"

definition ctsc_events :: "string list" where
  "ctsc_events = [''conformance.observation'', ''conformance.result'', ''conformance.empty'',
     ''conformance.error'', ''conformance.fault'', ''conformance.abandoned'']"

section \<open>Attribute checks (\<open>fields.rs\<close>)\<close>

definition starts_with :: "string \<Rightarrow> string \<Rightarrow> bool" where
  "starts_with prefix s \<longleftrightarrow> take (length prefix) s = prefix"

definition reject_attrs :: "attributes \<Rightarrow> string list \<Rightarrow> string \<Rightarrow> issues" where
  "reject_attrs attrs allowed loc =
     for_each (\<lambda>key. if key \<notin> set allowed
                 then issue loc (''undeclared CTSC attribute '' @ ticked key @ '' is not allowed in this scope'') else [])
       (filter (starts_with ''conformance.'') (map fst attrs))"

datatype attribute_type = StringType | IntType

definition check_attr :: "attributes \<Rightarrow> string \<Rightarrow> attribute_type \<Rightarrow> string \<Rightarrow> issues" where
  "check_attr attrs key expected_type loc =
     (case map_of attrs key of
        None \<Rightarrow> []
      | Some v \<Rightarrow>
          if (case expected_type of StringType \<Rightarrow> as_string v \<noteq> None | IntType \<Rightarrow> as_int v \<noteq> None) then []
          else issue loc (''attribute '' @ ticked key @ '' must use '' @
                 (case expected_type of StringType \<Rightarrow> ''stringValue'' | IntType \<Rightarrow> ''intValue'')))"

definition require_str :: "attributes \<Rightarrow> string \<Rightarrow> string \<Rightarrow> issues \<times> string option" where
  "require_str attrs key loc =
     (case map_of attrs key of
        Some (AString v) \<Rightarrow> ([], Some v)
      | Some _ \<Rightarrow> (issue loc (''attribute '' @ ticked key @ '' must use stringValue''), None)
      | None \<Rightarrow> (issue loc (''missing string attribute '' @ ticked key), None))"

definition is_hex_id :: "string \<Rightarrow> nat \<Rightarrow> bool" where
  "is_hex_id v len \<longleftrightarrow> length v = len \<and> list_ex (\<lambda>c. c \<noteq> CHR ''0'') v \<and> list_all is_lower_hex v"

section \<open>Extension fault names (\<open>fault.rs\<close>)\<close>

fun split_on :: "char \<Rightarrow> string \<Rightarrow> string list" where
  "split_on sep [] = [[]]"
| "split_on sep (c # cs) =
     (if c = sep then [] # split_on sep cs
      else case split_on sep cs of [] \<Rightarrow> [[c]] | seg # segs \<Rightarrow> (c # seg) # segs)"

definition fault_first_segment :: "string \<Rightarrow> bool" where
  "fault_first_segment first \<longleftrightarrow>
     first \<noteq> ''conformance'' \<and>
     (case first of [] \<Rightarrow> False
      | c # cs \<Rightarrow> is_lower c \<and> list_all (\<lambda>b. is_lower b \<or> is_digit b) cs)"

definition fault_segment :: "string \<Rightarrow> bool" where
  "fault_segment seg \<longleftrightarrow>
     seg \<noteq> [] \<and> list_all (\<lambda>b. is_lower b \<or> is_digit b \<or> b \<in> {CHR ''_'', CHR ''-''}) seg"

definition is_fault :: "string \<Rightarrow> bool" where
  "is_fault v =
     (case split_on (CHR ''.'') v of
        [] \<Rightarrow> False
      | first # remaining \<Rightarrow>
          fault_first_segment first \<and> remaining \<noteq> [] \<and> list_all fault_segment remaining)"

section \<open>Ancestry (\<open>ancestry.rs\<close>)\<close>

type_synonym span_key_id = "string \<times> string"
type_synonym span_ids = "(span_key_id \<times> trace_span list) list"

datatype resolution = Root trace_span | SelfParent | Cycle | MissingRun | MultipleParents

type_synonym ancestry_cache = "(span_key_id \<times> resolution) list"

definition own_key :: "trace_span \<Rightarrow> span_key_id" where
  "own_key span = (trace_id span, span_id span)"

definition spans_by_id :: "trace_span list \<Rightarrow> span_ids" where
  "spans_by_id spans = foldl (\<lambda>m span. bt_push (own_key span) span m) [] spans"

text \<open>One iteration of the parent walk: a final resolution or the parent to continue with.\<close>

definition ancestor_step :: "span_ids \<Rightarrow> trace_span \<Rightarrow> resolution + trace_span" where
  "ancestor_step by_id current =
     (if span_name current = ''conformance.run''
      then Inl (if parent_span_id current = [] then Root current else MissingRun)
      else if parent_span_id current = span_id current then Inl SelfParent
      else if parent_span_id current = [] then Inl MissingRun
      else case map_of by_id (trace_id current, parent_span_id current) of
             None \<Rightarrow> Inl MissingRun
           | Some [parent] \<Rightarrow> Inr parent
           | Some _ \<Rightarrow> Inl MultipleParents)"

fun ancestor_loop ::
    "span_ids \<Rightarrow> ancestry_cache \<Rightarrow> nat \<Rightarrow> span_key_id list \<Rightarrow> trace_span \<Rightarrow> (resolution \<times> span_key_id list) option" where
  "ancestor_loop by_id cache 0 path current = None"
| "ancestor_loop by_id cache (Suc n) path current =
     (case map_of cache (own_key current) of
        Some cached \<Rightarrow> Some (cached, path)
      | None \<Rightarrow>
          if own_key current \<in> set path then Some (Cycle, path)
          else case ancestor_step by_id current of
                 Inl r \<Rightarrow> Some (r, path @ [own_key current])
               | Inr parent \<Rightarrow> ancestor_loop by_id cache n (path @ [own_key current]) parent)"

definition run_ancestor ::
    "span_ids \<Rightarrow> nat \<Rightarrow> ancestry_cache \<Rightarrow> trace_span \<Rightarrow> (resolution \<times> ancestry_cache) option" where
  "run_ancestor by_id n cache span =
     map_option (\<lambda>(r, path). (r, foldl (\<lambda>c key. bt_insert key r c) cache path))
       (ancestor_loop by_id cache n [] span)"

text \<open>The resolutions of the non-run spans, in order, with the cache threaded through.\<close>

fun resolve_all ::
    "span_ids \<Rightarrow> nat \<Rightarrow> ancestry_cache \<Rightarrow> trace_span list \<Rightarrow> (trace_span \<times> resolution) list option" where
  "resolve_all by_id n cache [] = Some []"
| "resolve_all by_id n cache (span # spans) =
     (case run_ancestor by_id n cache span of
        None \<Rightarrow> None
      | Some (r, cache') \<Rightarrow> map_option (Cons (span, r)) (resolve_all by_id n cache' spans))"

fun ancestry_issue :: "trace_span \<times> resolution \<Rightarrow> issues" where
  "ancestry_issue (span, Root run) = []"
| "ancestry_issue (span, SelfParent) = issue (span_location span) ''CTSC ancestor chain contains a self-parent cycle''"
| "ancestry_issue (span, Cycle) = issue (span_location span) ''CTSC ancestor chain contains a cycle''"
| "ancestry_issue (span, MissingRun) =
     issue (span_location span) ''CTSC ancestor chain must terminate at a conformance.run span''"
| "ancestry_issue (span, MultipleParents) =
     issue (span_location span) ''CTSC ancestor chain has invalid multiple ancestry because a parent span ID resolves to multiple CTSC spans''"

definition resolved_roots :: "(trace_span \<times> resolution) list \<Rightarrow> (trace_span \<times> string) list" where
  "resolved_roots rs =
     List.map_filter (\<lambda>(span, r). case r of Root run \<Rightarrow> Some (span, span_id run) | _ \<Rightarrow> None) rs"

definition trace_roots :: "(trace_span \<times> string) list \<Rightarrow> string \<Rightarrow> string list" where
  "trace_roots resolved trace = remdups (map snd (filter (\<lambda>(span, _). trace_id span = trace) resolved))"

definition validate_ancestry :: "nat \<Rightarrow> trace_span list \<Rightarrow> issues option" where
  "validate_ancestry n spans =
     map_option (\<lambda>rs.
       let resolved = resolved_roots rs in
       for_each ancestry_issue rs @
       for_each (\<lambda>(span, _).
         if length (trace_roots resolved (trace_id span)) > 1
         then issue (span_location span) ''CTSC spans sharing a traceId must terminate at the same conformance.run span''
         else []) resolved)
     (resolve_all (spans_by_id spans) n [] (filter (\<lambda>span. span_name span \<noteq> ''conformance.run'') spans))"

section \<open>Events\<close>

record event_counts =
  result_count :: nat
  failure_count :: nat
  terminated :: bool

definition no_counts :: event_counts where
  "no_counts = \<lparr>result_count = 0, failure_count = 0, terminated = False\<rparr>"

definition failure_seen :: "event_counts \<Rightarrow> event_counts" where
  "failure_seen st = st\<lparr>failure_count := Suc (failure_count st), terminated := True\<rparr>"

definition supervisor_faults :: "string list" where
  "supervisor_faults = [''launch_failure'', ''process_exit'', ''signal'', ''timeout'', ''deadlock'', ''host_loss'', ''export_failure'']"

definition fault_attrs :: "string list" where
  "fault_attrs = [''conformance.fault.type'', ''conformance.fault.message'', ''conformance.fault.native_type'',
     ''conformance.fault.observer'', ''conformance.fault.phase'', ''conformance.fault.operation.name'',
     ''conformance.fault.operation.component_id'', ''conformance.fault.exit_code'', ''conformance.fault.signal'',
     ''conformance.fault.timeout_ms'']"

definition validate_fault :: "span_role \<Rightarrow> string \<Rightarrow> attributes \<Rightarrow> issues" where
  "validate_fault role loc attrs =
     (let (type_issues, fault_type) = require_str attrs ''conformance.fault.type'' loc;
          (observer_issues, observer) = require_str attrs ''conformance.fault.observer'' loc
      in reject_attrs attrs fault_attrs loc @
         require_that (role \<in> {RunRole, ScenarioRole, OperationRole}) loc
           ''fault must belong to a run, scenario, or operation span'' @
         type_issues @ observer_issues @
         require_that (fault_type \<noteq> Some ''incomplete_capture'' \<or> observer = Some ''target'') loc
           ''incomplete_capture fault must be observed by the target'' @
         (if parse_observer observer = TargetObserver then
            require_that (role = OperationRole) loc ''target fault must belong to an operation span''
          else if parse_observer observer = SupervisorObserver then
            require_that (role \<in> {RunRole, ScenarioRole}) loc
              ''supervisor fault must belong to a run or scenario span'' @
            (case fault_type of None \<Rightarrow> []
             | Some t \<Rightarrow> require_that (t \<in> set supervisor_faults \<or> is_fault t) loc
                 ''supervisor fault type must be a defined core type or a producer-qualified dotted namespace'')
          else []) @
         for_each (\<lambda>key. check_attr attrs key StringType loc)
           [''conformance.fault.message'', ''conformance.fault.native_type'', ''conformance.fault.phase'',
            ''conformance.fault.operation.name'', ''conformance.fault.operation.component_id'', ''conformance.fault.signal''] @
         for_each (\<lambda>key. check_attr attrs key IntType loc) [''conformance.fault.exit_code'', ''conformance.fault.timeout_ms''])"

definition validate_event :: "span_role \<Rightarrow> string \<Rightarrow> event_counts \<Rightarrow> trace_event \<Rightarrow> issues \<times> event_counts" where
  "validate_event role loc st event =
     (let attrs = event_attributes event;
          late = (if role = OperationRole \<and> terminated st
                  then issue loc ''operation events must not appear after the terminal event'' else [])
      in if event_name event \<notin> set ctsc_events
         then (late @ issue loc (''unsupported CTSC event name '' @ ticked (event_name event)), st)
         else
           let event_role = parse_event_role (event_name event);
               before = late @ (if operation_only event_role
                 then require_that (role = OperationRole) loc (event_name event @ '' must belong to a conformance.operation span'')
                 else [])
           in (case event_role of
                 ObservationRole \<Rightarrow>
                   (before @ reject_attrs attrs [''conformance.observation.name'', ''conformance.observation.value''] loc @
                      fst (require_str attrs ''conformance.observation.name'' loc) @
                      require_that (map_of attrs ''conformance.observation.value'' \<noteq> None) loc ''missing conformance.observation.value'', st)
               | ResultRole \<Rightarrow>
                   (before @ reject_attrs attrs [''conformance.result.value''] loc @
                      require_that (map_of attrs ''conformance.result.value'' \<noteq> None) loc ''missing conformance.result.value'',
                    st\<lparr>result_count := Suc (result_count st), terminated := True\<rparr>)
               | EmptyRole \<Rightarrow> (before @ reject_attrs attrs [] loc, failure_seen st)
               | ErrorRole \<Rightarrow>
                   (before @ reject_attrs attrs [''conformance.error.name'', ''conformance.error.value''] loc @
                      fst (require_str attrs ''conformance.error.name'' loc), failure_seen st)
               | FaultRole \<Rightarrow>
                   (before @ validate_fault role loc attrs, if role = OperationRole then failure_seen st else st)
               | AbandonedRole \<Rightarrow> (before @ reject_attrs attrs [] loc, failure_seen st)
               | OtherEvent \<Rightarrow> (before, st)))"

fun event_loop :: "span_role \<Rightarrow> string \<Rightarrow> nat \<Rightarrow> event_counts \<Rightarrow> trace_event list \<Rightarrow> issues \<times> event_counts" where
  "event_loop role loc i st [] = ([], st)"
| "event_loop role loc i st (event # events) =
     (let (found, st') = validate_event role (loc @ ''.events['' @ nat_dec i @ '']'') st event;
          (rest, st'') = event_loop role loc (Suc i) st' events
      in (found @ rest, st''))"

definition validate_events :: "trace_span \<Rightarrow> issues" where
  "validate_events span =
     (let role = parse_span_role (span_name span);
          loc = span_location span;
          (found, st) = event_loop role loc 0 no_counts (span_events span);
          has = (\<lambda>roles. \<exists>event\<in>set (span_events span). parse_event_role (event_name event) \<in> roles)
      in found @
         (if role = OperationRole then
            require_that (failure_count st \<le> 1) loc
              ''operation must not contain multiple non-result completion/failure events'' @
            require_that (result_count st = 0 \<or> failure_count st = 0) loc
              ''result events cannot be combined with another completion/failure event'' @
            require_that (result_count st \<le> 1) loc ''operation may contain at most one result event'' @
            (if has {ErrorRole, FaultRole} then
               require_that (span_stat span = Error) loc ''declared error and fault operations must have ERROR status'' else []) @
            (if has {AbandonedRole} then
               require_that (span_stat span = Unset) loc ''abandoned operations must have UNSET status'' else []) @
            require_that (terminated st \<or> span_stat span = Ok) loc
              ''operation without a completion or failure event must have OK status''
          else []) @
         (if role \<in> {RunRole, ScenarioRole} \<and> has {FaultRole} then
            require_that (span_stat span = Error) loc ''fault-bearing run or scenario must have ERROR status'' else []))"

section \<open>Spans\<close>

definition duplicate_ids :: "trace_span list \<Rightarrow> issues" where
  "duplicate_ids spans =
     fst (foldl (\<lambda>(out, seen) span.
       (out @
          require_that (is_hex_id (trace_id span) 32) (span_location span)
            ''traceId must be 32 lowercase hexadecimal characters and nonzero'' @
          require_that (is_hex_id (span_id span) 16) (span_location span)
            ''spanId must be 16 lowercase hexadecimal characters and nonzero'' @
          (if own_key span \<in> set seen then issue (span_location span) ''duplicate span ID within trace'' else []),
        own_key span # seen)) ([], []) spans)"

definition unique_parent :: "span_ids \<Rightarrow> trace_span \<Rightarrow> trace_span option" where
  "unique_parent by_id span =
     (case map_of by_id (trace_id span, parent_span_id span) of Some [parent] \<Rightarrow> Some parent | _ \<Rightarrow> None)"

definition validate_role :: "trace_span \<Rightarrow> span_role \<Rightarrow> issues" where
  "validate_role span parent_role =
     (let attrs = span_attributes span; loc = span_location span in
      case parse_span_role (span_name span) of
        RunRole \<Rightarrow>
          reject_attrs attrs [''conformance.run.id'', ''conformance.run.name''] loc @
          require_that (parent_span_id span = []) loc ''run span must be a root span'' @
          fst (require_str attrs ''conformance.run.id'' loc) @
          check_attr attrs ''conformance.run.name'' StringType loc
      | ScenarioRole \<Rightarrow>
          reject_attrs attrs [''conformance.scenario.name'', ''conformance.scenario.index''] loc @
          require_that (parent_role = RunRole) loc ''scenario parent must be a conformance.run span'' @
          fst (require_str attrs ''conformance.scenario.name'' loc) @
          check_attr attrs ''conformance.scenario.index'' IntType loc
      | OperationRole \<Rightarrow>
          reject_attrs attrs [''conformance.component.id'', ''conformance.operation.name'', ''conformance.operation.inputs''] loc @
          require_that (parent_role \<in> {ScenarioRole, OperationRole, ParallelRole}) loc
            ''operation parent must be scenario, operation, or parallel'' @
          fst (require_str attrs ''conformance.component.id'' loc) @
          fst (require_str attrs ''conformance.operation.name'' loc) @
          require_that (Option.bind (map_of attrs ''conformance.operation.inputs'') as_kvlist \<noteq> None) loc
            ''operation inputs must use kvlistValue''
      | ParallelRole \<Rightarrow>
          reject_attrs attrs [''conformance.parallel.name''] loc @
          require_that (parent_role \<in> {ScenarioRole, OperationRole}) loc ''parallel parent must be scenario or operation'' @
          check_attr attrs ''conformance.parallel.name'' StringType loc
      | OtherSpan \<Rightarrow> [])"

definition encloses :: "trace_span \<Rightarrow> trace_span \<Rightarrow> bool" where
  "encloses parent span \<longleftrightarrow>
     (case (interval_of parent, interval_of span) of
        (Some (ps, pe), Some (cs, ce)) \<Rightarrow> ps \<le> cs \<and> ce \<le> pe
      | _ \<Rightarrow> False)"

definition validate_span :: "span_ids \<Rightarrow> trace_span \<Rightarrow> issues" where
  "validate_span by_id span =
     (let loc = span_location span;
          candidates = map_of by_id (trace_id span, parent_span_id span);
          parent = unique_parent by_id span;
          parent_role = (case parent of None \<Rightarrow> OtherSpan | Some p \<Rightarrow> parse_span_role (span_name p))
      in (case candidates of None \<Rightarrow> []
          | Some l \<Rightarrow> if length l > 1 then issue loc ''parent span ID resolves to multiple CTSC spans'' else []) @
         require_that (\<not> bad_interval span) loc
           ''CTSC spans require start/end timestamps with end not before start'' @
         validate_role span parent_role @
         (case parent of None \<Rightarrow> []
          | Some p \<Rightarrow> if parse_span_role (span_name p) = ParallelRole
                      then require_that (encloses p span) loc
                             ''conformance.parallel interval must enclose every direct branch''
                      else []) @
         validate_events span)"

definition validate_semantics :: "nat \<Rightarrow> trace_span list \<Rightarrow> issues option" where
  "validate_semantics n spans =
     map_option (\<lambda>ancestry. duplicate_ids spans @ ancestry @ for_each (validate_span (spans_by_id spans)) spans)
       (validate_ancestry n spans)"

end
