(* ===== verification/Ctsc_Otlp.thy ===== *)
theory Ctsc_Otlp
  imports Ctsc_Registry_Model Ctsc_Numbers
begin

text \<open>
  OTLP protobuf-JSON scalars (\<open>rust/crates/specgate-ctsc/src/validation/otlp.rs\<close>): integers written
  as numbers, strings, decimals or exponents, doubles with symbolic non-finite values, hexadecimal
  identifiers. The decimal forms of binary64 numbers and base64 are the fields of a \<open>codec\<close>, an
  argument of the definitions that use them.
\<close>

record codec =
  float_text :: "f64_bits \<Rightarrow> string" \<comment> \<open>\<open>Number::to_string\<close> of a non-integer number\<close>
  parse_f64 :: "string \<Rightarrow> f64_bits option" \<comment> \<open>\<open>str::parse::<f64>\<close>\<close>
  int_as_f64 :: "int \<Rightarrow> f64_bits" \<comment> \<open>\<open>Number::as_f64\<close> of an integer\<close>
  base64_decode :: "string \<Rightarrow> u8 list option" \<comment> \<open>the four accepted engines, in order\<close>

section \<open>JSON accessors (\<open>serde_json::Value\<close>)\<close>

fun as_object :: "json \<Rightarrow> (string \<times> json) list option" where
  "as_object (JObject m) = Some m"
| "as_object _ = None"

fun as_array :: "json \<Rightarrow> json list option" where
  "as_array (JArray vs) = Some vs"
| "as_array _ = None"

fun as_str :: "json \<Rightarrow> string option" where
  "as_str (JString s) = Some s"
| "as_str _ = None"

fun as_bool :: "json \<Rightarrow> bool option" where
  "as_bool (JBool b) = Some b"
| "as_bool _ = None"

fun number_int :: "json_number \<Rightarrow> int option" where
  "number_int (PosInt n) = Some (uint n)"
| "number_int (NegInt n) = Some (sint n)"
| "number_int (Float _) = None"

fun as_i64 :: "json \<Rightarrow> int option" where
  "as_i64 (JNumber n) =
     (case number_int n of Some i \<Rightarrow> if i < 2 ^ 63 then Some i else None | None \<Rightarrow> None)"
| "as_i64 _ = None"

definition number_text :: "codec \<Rightarrow> json_number \<Rightarrow> string" where
  "number_text cd n = (case n of Float b \<Rightarrow> float_text cd b | _ \<Rightarrow> int_dec (the (number_int n)))"

definition number_f64 :: "codec \<Rightarrow> json_number \<Rightarrow> f64_bits" where
  "number_f64 cd n = (case n of Float b \<Rightarrow> b | _ \<Rightarrow> int_as_f64 cd (the (number_int n)))"

section \<open>Integers\<close>

fun split_once :: "(char \<Rightarrow> bool) \<Rightarrow> string \<Rightarrow> (string \<times> string) option" where
  "split_once p [] = None"
| "split_once p (c # cs) =
     (if p c then Some ([], cs) else map_option (\<lambda>(a, b). (c # a, b)) (split_once p cs))"

text \<open>Sign, integral digits, fraction digits and exponent of a decimal literal.\<close>

definition decimal_parts :: "string \<Rightarrow> (bool \<times> string \<times> string \<times> int) option" where
  "decimal_parts s =
     (case (case split_once (\<lambda>c. c = CHR ''e'' \<or> c = CHR ''E'') s of
              Some (m, ex) \<Rightarrow> map_option (Pair m) (parse_signed 32 ex)
            | None \<Rightarrow> Some (s, 0)) of
        None \<Rightarrow> None
      | Some (m, ex) \<Rightarrow>
          let (negative, mantissa) = (case m of CHR ''-'' # r \<Rightarrow> (True, r) | _ \<Rightarrow> (False, m));
              (whole, fraction) = (case split_once (\<lambda>c. c = CHR ''.'') mantissa of None \<Rightarrow> (mantissa, []) | Some p \<Rightarrow> p)
          in if whole = [] \<or> \<not> list_all is_digit whole \<or> \<not> list_all is_digit fraction \<or>
                (CHR ''.'' \<in> set mantissa \<and> fraction = [])
             then None else Some (negative, whole, fraction, ex))"

definition shift_digits :: "string \<Rightarrow> int \<Rightarrow> string option" where
  "shift_digits digits shift =
     (if shift \<ge> 0 then
        (if int (length digits) + shift > 39 then None else Some (digits @ replicate (nat shift) CHR ''0''))
      else let remove = nat (- shift) in
           if remove > length digits \<or> \<not> list_all (\<lambda>c. c = CHR ''0'') (drop (length digits - remove) digits)
           then None else Some (take (length digits - remove) digits))"

definition magnitude_of :: "string \<Rightarrow> int option" where
  "magnitude_of digits =
     (let ds = dropWhile (\<lambda>c. c = CHR ''0'') digits in if ds = [] then Some 0 else parse_signed 128 ds)"

definition parse_decimal :: "string \<Rightarrow> int option" where
  "parse_decimal s =
     (case parse_signed 128 s of
        Some i \<Rightarrow> Some i
      | None \<Rightarrow>
          (case decimal_parts s of
             None \<Rightarrow> None
           | Some (negative, whole, fraction, ex) \<Rightarrow>
               if int (length fraction) \<ge> 2 ^ 31 \<or> ex - int (length fraction) < - (2 ^ 31) then None
               else case shift_digits (whole @ fraction) (ex - int (length fraction)) of
                      None \<Rightarrow> None
                    | Some digits \<Rightarrow>
                        map_option (\<lambda>m. if negative then - m else m) (magnitude_of digits)))"

definition parse_integer :: "codec \<Rightarrow> json \<Rightarrow> int option" where
  "parse_integer cd v =
     (case v of JNumber n \<Rightarrow> parse_decimal (number_text cd n) | JString s \<Rightarrow> parse_decimal s | _ \<Rightarrow> None)"

definition parse_i64 :: "codec \<Rightarrow> json \<Rightarrow> i64 option" where
  "parse_i64 cd v =
     Option.bind (parse_integer cd v) (\<lambda>i. if - (2 ^ 63) \<le> i \<and> i < 2 ^ 63 then Some (word_of_int i) else None)"

definition parse_u64 :: "codec \<Rightarrow> json \<Rightarrow> nat option" where
  "parse_u64 cd v = Option.bind (parse_integer cd v) (\<lambda>i. if 0 \<le> i \<and> i < 2 ^ 64 then Some (nat i) else None)"

definition parse_u32 :: "codec \<Rightarrow> json \<Rightarrow> nat option" where
  "parse_u32 cd v = Option.bind (parse_integer cd v) (\<lambda>i. if 0 \<le> i \<and> i < 2 ^ 32 then Some (nat i) else None)"

section \<open>Doubles, bytes and identifiers\<close>

definition finite_double :: "f64_bits \<Rightarrow> f64_value option" where
  "finite_double b = (if f64_is_finite b then Some (Finite b) else None)"

definition parse_double :: "codec \<Rightarrow> json \<Rightarrow> f64_value option" where
  "parse_double cd v =
     (case v of
        JNumber n \<Rightarrow> finite_double (number_f64 cd n)
      | JString s \<Rightarrow>
          if s = ''NaN'' then Some NaN
          else if s = ''Infinity'' then Some Infinity
          else if s = ''-Infinity'' then Some NegativeInfinity
          else Option.bind (parse_f64 cd s) finite_double
      | _ \<Rightarrow> None)"

definition is_hex_digit :: "char \<Rightarrow> bool" where
  "is_hex_digit c \<longleftrightarrow> is_lower_hex c \<or> 65 \<le> (of_char c :: nat) \<and> (of_char c :: nat) \<le> 70"

definition lower_char :: "char \<Rightarrow> char" where
  "lower_char c = (let n = (of_char c :: nat) in if 65 \<le> n \<and> n \<le> 90 then char_of (n + 32) else c)"

definition normalize_hex :: "string \<Rightarrow> string option" where
  "normalize_hex v = (if even (length v) \<and> list_all is_hex_digit v then Some (map lower_char v) else None)"

section \<open>Integers denote what they spell\<close>

lemma dec_value_append: "dec_value (s @ t) = dec_value s * 10 ^ length t + dec_value t"
proof (induction t rule: rev_induct)
  case (snoc c t)
  have "dec_value (s @ t @ [c]) = 10 * dec_value (s @ t) + digit_value c"
    using dec_value_snoc [of "s @ t" c] by simp
  then show ?case using snoc by (simp add: dec_value_snoc algebra_simps)
qed simp

lemma digit_value_zero: "digit_value CHR ''0'' = 0"
  by code_simp

lemma dec_value_zeros: "list_all (\<lambda>c. c = CHR ''0'') t \<Longrightarrow> dec_value t = 0"
  by (induction t rule: rev_induct) (simp_all add: dec_value_snoc digit_value_zero)

lemma dec_value_drop_zeros: "dec_value (dropWhile (\<lambda>c. c = CHR ''0'') s) = dec_value s"
proof -
  let ?p = "\<lambda>c. c = CHR ''0''"
  have "list_all ?p (takeWhile ?p s)"
    unfolding list_all_iff by (blast dest: set_takeWhileD)
  then have "dec_value (takeWhile ?p s @ dropWhile ?p s) = dec_value (dropWhile ?p s)"
    by (simp only: dec_value_append dec_value_zeros mult_zero_left add_0)
  then show ?thesis by (simp only: takeWhile_dropWhile_id)
qed

lemma parse_signed_digits:
  assumes "list_all is_digit ds" "parse_signed w ds = Some i"
  shows "i = int (dec_value ds)"
proof (cases ds)
  case (Cons c r)
  then have "c \<noteq> CHR ''+''" "c \<noteq> CHR ''-''" using assms(1) digit_not_sign [of c] by simp_all
  with Cons assms(2) show ?thesis by (auto simp: parse_signed_def Let_def split: if_splits)
qed (use assms(2) in \<open>simp add: parse_signed_def\<close>)

lemma magnitude_of_value:
  assumes "list_all is_digit ds" "magnitude_of ds = Some m"
  shows "m = int (dec_value ds)"
proof -
  let ?d = "dropWhile (\<lambda>c. c = CHR ''0'') ds"
  have d: "list_all is_digit ?d"
    using assms(1) unfolding list_all_iff by (blast dest: set_dropWhileD)
  have "m = int (dec_value ?d)"
  proof (cases "?d = []")
    case True
    then show ?thesis using assms(2) unfolding magnitude_of_def Let_def True by simp
  next
    case False
    then show ?thesis using assms(2) parse_signed_digits [OF d] unfolding magnitude_of_def Let_def by (simp only: if_False)
  qed
  then show ?thesis by (simp only: dec_value_drop_zeros)
qed

lemma shift_digits_value:
  assumes "list_all is_digit ds" "shift_digits ds k = Some es"
  shows "list_all is_digit es" "dec_value es * 10 ^ nat (- k) = dec_value ds * 10 ^ nat k"
proof -
  have z: "is_digit CHR ''0''" by code_simp
  show "list_all is_digit es"
    using assms z by (auto simp: shift_digits_def Let_def list_all_iff split: if_splits dest: in_set_takeD)
  show "dec_value es * 10 ^ nat (- k) = dec_value ds * 10 ^ nat k"
  proof (cases "k \<ge> 0")
    case True
    then have "es = ds @ replicate (nat k) CHR ''0''" using assms(2) by (auto simp: shift_digits_def split: if_splits)
    then show ?thesis using True by (simp add: dec_value_append dec_value_zeros list_all_iff)
  next
    case False
    let ?n = "length ds - nat (- k)"
    from False assms(2) have "es = take ?n ds" "list_all (\<lambda>c. c = CHR ''0'') (drop ?n ds)" "nat (- k) \<le> length ds"
      by (auto simp: shift_digits_def Let_def split: if_splits)
    moreover from this have "dec_value ds = dec_value (take ?n ds) * 10 ^ nat (- k)"
      using dec_value_append [of "take ?n ds" "drop ?n ds"] by (simp add: dec_value_zeros)
    ultimately show ?thesis using False by simp
  qed
qed

lemma decimal_parts_digits:
  "decimal_parts s = Some (neg, whole, fraction, ex) \<Longrightarrow> list_all is_digit whole \<and> list_all is_digit fraction"
  by (auto simp: decimal_parts_def Let_def split: option.splits prod.splits if_splits)

lemma parse_decimal_scaled:
  assumes "parse_decimal s = Some i" "parse_signed 128 s = None" "decimal_parts s = Some (neg, whole, fraction, ex)"
  shows "i * 10 ^ length fraction * 10 ^ nat (- ex) =
     (if neg then - 1 else 1) * int (dec_value (whole @ fraction)) * 10 ^ nat ex"
proof -
  let ?k = "ex - int (length fraction)" and ?ds = "whole @ fraction"
  obtain es m where es: "shift_digits ?ds ?k = Some es" and m: "magnitude_of es = Some m"
    and i: "i = (if neg then - m else m)"
    using assms by (auto simp: parse_decimal_def split: if_splits option.splits)
  have "list_all is_digit ?ds" using decimal_parts_digits [OF assms(3)] by simp
  note v = shift_digits_value [OF this es]
  have "m = int (dec_value es)" by (rule magnitude_of_value [OF v(1) m])
  then have "m * 10 ^ nat (- ?k) = int (dec_value ?ds) * 10 ^ nat ?k"
    using arg_cong [OF v(2), of int] by simp
  moreover have "m * 10 ^ length fraction * 10 ^ nat (- ex) * 10 ^ nat ?k = m * 10 ^ nat (- ?k) * 10 ^ nat ex"
    by (simp add: mult.assoc flip: power_add) (auto simp: nat_add_distrib intro!: arg_cong [of _ _ "power 10"])
  ultimately have "(m * 10 ^ length fraction * 10 ^ nat (- ex)) * 10 ^ nat ?k =
      (int (dec_value ?ds) * 10 ^ nat ex) * 10 ^ nat ?k"
    by simp
  then have "m * 10 ^ length fraction * 10 ^ nat (- ex) = int (dec_value ?ds) * 10 ^ nat ex"
    by simp
  then show ?thesis using i by (auto simp: minus_mult_left [symmetric])
qed

section \<open>Properties\<close>

lemma parse_signed_bound: "parse_signed w s = Some i \<Longrightarrow> - (2 ^ (w - 1)) \<le> i \<and> i < 2 ^ (w - 1)"
  by (auto simp: parse_signed_def Let_def split: if_splits list.splits prod.splits)

lemma parse_signed_int_dec:
  assumes "- (2 ^ (w - 1)) \<le> i" "i < 2 ^ (w - 1)"
  shows "parse_signed w (int_dec i) = Some i"
proof (cases "i < 0")
  case True
  then show ?thesis
    using assms nat_dec_digits nat_dec_nonempty dec_value_nat_dec
    by (simp add: int_dec_def parse_signed_def Let_def)
next
  case False
  then obtain c r where cr: "nat_dec (nat i) = c # r" "is_digit c"
    using nat_dec_digits [of "nat i"] nat_dec_nonempty [of "nat i"] by (cases "nat_dec (nat i)") auto
  with False show ?thesis
    using assms nat_dec_digits [of "nat i"] dec_value_nat_dec [of "nat i"] digit_not_sign [of c]
    by (simp add: int_dec_def parse_signed_def Let_def)
qed

lemma parse_decimal_int_dec: "- (2 ^ 127) \<le> i \<Longrightarrow> i < 2 ^ 127 \<Longrightarrow> parse_decimal (int_dec i) = Some i"
  using parse_signed_int_dec [of 128 i] by (simp add: parse_decimal_def)

lemma sint_bounds: "- (2 ^ 63) \<le> sint (i :: 64 word) \<and> sint i < 2 ^ 63"
  using sint_ge [of i] sint_lt [of i] by simp

lemma uint_nonneg_sint: "0 \<le> sint (i :: 64 word) \<Longrightarrow> uint i = sint i"
proof -
  assume "0 \<le> sint i"
  moreover have "uint (word_of_int (sint i) :: 64 word) = sint i mod 2 ^ 64"
    unfolding uint_word_of_int by simp
  ultimately show ?thesis
    using sint_bounds [of i] by simp
qed

text \<open>
  Integers survive their JSON forms: a 64-bit signed integer written in decimal, in a string or
  as a number, is read back as itself.
\<close>

lemma parse_i64_roundtrip:
  "parse_i64 cd (JString (int_dec (sint i))) = Some i \<and>
   parse_i64 cd (JNumber (if 0 \<le> sint i then PosInt i else NegInt i)) = Some i"
proof -
  have "number_text cd (if 0 \<le> sint i then PosInt i else NegInt i) = int_dec (sint i)"
    by (simp add: number_text_def uint_nonneg_sint)
  moreover have "parse_decimal (int_dec (sint i)) = Some (sint i)"
    using sint_bounds [of i] by (intro parse_decimal_int_dec) simp_all
  ultimately show ?thesis
    using sint_bounds [of i] by (simp add: parse_i64_def parse_integer_def)
qed

text \<open>
  C35: a decimal or exponent literal is accepted as an integer only when it denotes one: the result
  times the literal's scale is exactly its digits, and the result fits 128 bits.
\<close>

theorem parse_decimal_sound:
  assumes "parse_decimal s = Some i"
  shows "- (2 ^ 127) \<le> i \<and> i < 2 ^ 127 \<and>
    (parse_signed 128 s = Some i \<or>
     (\<exists>neg whole fraction ex. decimal_parts s = Some (neg, whole, fraction, ex) \<and>
        i * 10 ^ length fraction * 10 ^ nat (- ex) =
          (if neg then - 1 else 1) * int (dec_value (whole @ fraction)) * 10 ^ nat ex))"
proof (cases "parse_signed 128 s")
  case (Some j)
  with assms parse_signed_bound [OF Some] show ?thesis by (simp add: parse_decimal_def)
next
  case None
  then obtain neg whole fraction ex es m where p: "decimal_parts s = Some (neg, whole, fraction, ex)"
    and m: "magnitude_of es = Some m" "i = (if neg then - m else m)"
    and es: "shift_digits (whole @ fraction) (ex - int (length fraction)) = Some es"
    using assms by (auto simp: parse_decimal_def split: if_splits option.splits)
  have "list_all is_digit es"
    using shift_digits_value(1) [OF _ es] decimal_parts_digits [OF p] by simp
  then have "0 \<le> m" using magnitude_of_value [OF _ m(1)] by simp
  moreover have "m < 2 ^ 127"
    using m(1) parse_signed_bound [of 128] by (auto simp: magnitude_of_def Let_def split: if_splits)
  ultimately show ?thesis
    using parse_decimal_scaled [OF assms None p] p m(2) by auto
qed

theorem parse_decimal_sound_witness: "- (2 ^ 127) \<le> (12 :: int) \<and> decimal_parts ''1200e-2'' = Some (False, ''1200'', [], - 2)"
proof -
  have p: "parse_decimal ''1200e-2'' = Some 12" by code_simp
  have "decimal_parts ''1200e-2'' = Some (False, ''1200'', [], - 2)" by code_simp
  with parse_decimal_sound [OF p] show ?thesis by blast
qed

end
