(* ===== verification/Ctsc_Fields.thy ===== *)
theory Ctsc_Fields
  imports Ctsc_Trace Ctsc_Otlp
begin

text \<open>
  Typed fields of OTLP JSON objects (\<open>rust/crates/specgate-ctsc/src/validation/trace/fields.rs\<close>):
  attribute items_in and \<open>AnyValue\<close>s become attribute values while every defect is reported. An abstract
  reading of JSON, the relation \<open>denotes\<close>, says which attribute value a JSON value stands for; the
  parser is proved to report nothing exactly on the values that denote something, and to return what
  they denote.
\<close>

definition located :: "string \<Rightarrow> string \<Rightarrow> string" where
  "located path loc = path @ '':'' @ loc"

text \<open>\<open>for (i, x) in xs.iter().enumerate()\<close> with issues and a local variable.\<close>

fun fold_from :: "nat \<Rightarrow> ('s \<Rightarrow> nat \<Rightarrow> 'a \<Rightarrow> 'i list \<times> 's) \<Rightarrow> 's \<Rightarrow> 'a list \<Rightarrow> 'i list \<times> 's" where
  "fold_from i f s [] = ([], s)"
| "fold_from i f s (x # xs) =
     (let (out, s') = f s i x; (rest, s'') = fold_from (Suc i) f s' xs in (out @ rest, s''))"

lemma fold_from_cong [fundef_cong]:
  "i = j \<Longrightarrow> s = t \<Longrightarrow> xs = ys \<Longrightarrow> (\<And>u k x. x \<in> set ys \<Longrightarrow> f u k x = g u k x) \<Longrightarrow>
   fold_from i f s xs = fold_from j g t ys"
  by (induction ys arbitrary: i j s t xs) (auto simp: Let_def split: prod.splits)

text \<open>The same loop when it only appends to a vector.\<close>

definition append_from :: "(nat \<Rightarrow> 'a \<Rightarrow> 'i list \<times> 'b list) \<Rightarrow> 'a list \<Rightarrow> 'i list \<times> 'b list" where
  "append_from f xs = fold_from 0 (\<lambda>acc i x. let (out, more) = f i x in (out, acc @ more)) [] xs"

definition pushed :: "'i list \<times> 'b option \<Rightarrow> 'i list \<times> 'b list" where
  "pushed p = (fst p, case snd p of None \<Rightarrow> [] | Some x \<Rightarrow> [x])"

lemma append_from_all2:
  assumes "\<And>i x ys. x \<in> set xs \<Longrightarrow> f i x = ([], ys) \<Longrightarrow> list_all2 R (g x) ys"
    and "append_from f xs = ([], res)"
  shows "list_all2 R (concat (map g xs)) res"
proof -
  have "fold_from i (\<lambda>acc i x. let (out, more) = f i x in (out, acc @ more)) acc xs = ([], res) \<Longrightarrow>
      \<exists>ys. res = acc @ ys \<and> list_all2 R (concat (map g xs)) ys" for i acc
    using assms(1)
  proof (induction xs arbitrary: i acc)
    case (Cons x xs)
    obtain out more where f: "f i x = (out, more)" by fastforce
    with Cons.prems(1) have *: "out = []"
      "fold_from (Suc i) (\<lambda>acc i x. let (out, more) = f i x in (out, acc @ more)) (acc @ more) xs = ([], res)"
      by (auto simp: Let_def split: prod.splits)
    then obtain ys where "res = (acc @ more) @ ys" "list_all2 R (concat (map g xs)) ys"
      using Cons.IH Cons.prems(2) by (meson list.set_intros(2))
    moreover have "list_all2 R (g x) more" using Cons.prems(2) f *(1) by simp
    ultimately show ?case by (auto simp: list_all2_appendI)
  qed simp
  from this [of 0 "[]"] assms(2) show ?thesis by (auto simp: append_from_def)
qed

section \<open>Object members\<close>

definition alternates :: "(string \<times> string) list" where
  "alternates =
    [(''stringValue'', ''string_value''), (''boolValue'', ''bool_value''), (''intValue'', ''int_value''),
     (''doubleValue'', ''double_value''), (''bytesValue'', ''bytes_value''), (''arrayValue'', ''array_value''),
     (''kvlistValue'', ''kvlist_value''), (''resourceSpans'', ''resource_spans''), (''scopeSpans'', ''scope_spans''),
     (''traceId'', ''trace_id''), (''spanId'', ''span_id''), (''parentSpanId'', ''parent_span_id''),
     (''startTimeUnixNano'', ''start_time_unix_nano''), (''endTimeUnixNano'', ''end_time_unix_nano''),
     (''droppedAttributesCount'', ''dropped_attributes_count''), (''droppedEventsCount'', ''dropped_events_count''),
     (''droppedLinksCount'', ''dropped_links_count'')]"

type_synonym json_object = "(string \<times> json) list"

definition json_field :: "json_object \<Rightarrow> string \<Rightarrow> json option" where
  "json_field m key =
     (case map_of m key of
        Some v \<Rightarrow> Some v
      | None \<Rightarrow> (case map_of alternates key of None \<Rightarrow> None | Some alternate \<Rightarrow> map_of m alternate))"

definition array_field :: "json_object \<Rightarrow> string \<Rightarrow> string \<Rightarrow> string \<Rightarrow> issues \<times> json list" where
  "array_field m key path loc =
     (case json_field m key of
        None \<Rightarrow> ([], [])
      | Some JNull \<Rightarrow> ([], [])
      | Some (JArray vs) \<Rightarrow> ([], vs)
      | Some _ \<Rightarrow> (issue (located path (field_loc loc key)) (key @ '' must be an array''), []))"

definition optional_array :: "json_object \<Rightarrow> string \<Rightarrow> string \<Rightarrow> string \<Rightarrow> issues \<times> json list option" where
  "optional_array m key path loc =
     (case json_field m key of
        None \<Rightarrow> ([], Some [])
      | Some JNull \<Rightarrow> ([], Some [])
      | Some (JArray vs) \<Rightarrow> ([], Some vs)
      | Some _ \<Rightarrow>
          (issue (located path loc) ((if key = ''values'' then ''value'' else key) @ '' must contain a values array''), None))"

definition string_field :: "json_object \<Rightarrow> string \<Rightarrow> string \<Rightarrow> string \<Rightarrow> issues \<times> string option" where
  "string_field m key path loc =
     (case Option.bind (json_field m key) as_str of
        Some v \<Rightarrow> ([], Some v)
      | None \<Rightarrow> (issue (located path (field_loc loc key)) (key @ '' must be a string''), None))"

definition optional_string :: "json_object \<Rightarrow> string \<Rightarrow> string \<Rightarrow> string \<Rightarrow> issues \<times> string option" where
  "optional_string m key path loc =
     (case json_field m key of
        None \<Rightarrow> ([], None)
      | Some JNull \<Rightarrow> ([], None)
      | Some (JString v) \<Rightarrow> ([], Some v)
      | Some _ \<Rightarrow> (issue (located path (field_loc loc key)) (key @ '' must be a string''), None))"

text \<open>The hexadecimal check shared by \<open>id_field\<close> and \<open>optional_id\<close>.\<close>

definition hex_or_issue :: "string \<Rightarrow> string \<Rightarrow> string \<Rightarrow> issues \<times> string option \<Rightarrow> issues \<times> string option" where
  "hex_or_issue key path loc p =
     (case p of
        (found, None) \<Rightarrow> (found, None)
      | (found, Some v) \<Rightarrow>
          (case normalize_hex v of
             Some h \<Rightarrow> (found, Some h)
           | None \<Rightarrow> (found @ issue (located path (field_loc loc key)) (key @ '' must use the OTLP hexadecimal bytes mapping''), None)))"

definition id_field :: "json_object \<Rightarrow> string \<Rightarrow> string \<Rightarrow> string \<Rightarrow> issues \<times> string option" where
  "id_field m key path loc = hex_or_issue key path loc (string_field m key path loc)"

definition optional_id :: "json_object \<Rightarrow> string \<Rightarrow> string \<Rightarrow> string \<Rightarrow> issues \<times> string option" where
  "optional_id m key path loc = hex_or_issue key path loc (optional_string m key path loc)"

definition time_field :: "codec \<Rightarrow> json_object \<Rightarrow> string \<Rightarrow> string \<Rightarrow> string \<Rightarrow> issues \<times> nat option" where
  "time_field cd m key path loc =
     (case json_field m key of
        None \<Rightarrow> ([], None)
      | Some v \<Rightarrow>
          if v = JNull then ([], None)
          else (case parse_u64 cd v of
                  Some n \<Rightarrow> ([], Some n)
                | None \<Rightarrow> (issue (located path (field_loc loc key)) (key @ '' must be an unsigned decimal integer''), None)))"

definition validate_zero :: "codec \<Rightarrow> json_object \<Rightarrow> string \<Rightarrow> string \<Rightarrow> string \<Rightarrow> issues" where
  "validate_zero cd m key path loc =
     (case json_field m key of
        None \<Rightarrow> []
      | Some v \<Rightarrow>
          if v = JNull then []
          else require_that (parse_u32 cd v = Some 0) (located path loc) (key @ '' must be a valid uint32 zero''))"

section \<open>Attribute values\<close>

definition value_keys :: "string list" where
  "value_keys = [''stringValue'', ''boolValue'', ''intValue'', ''doubleValue'', ''bytesValue'', ''arrayValue'', ''kvlistValue'']"

text \<open>The one value variant an \<open>AnyValue\<close> object selects, with its raw JSON.\<close>

definition selected_value :: "json_object \<Rightarrow> (string \<times> json) option" where
  "selected_value m =
     (case filter (\<lambda>key. json_field m key \<noteq> None) value_keys of
        [key] \<Rightarrow> if length m = 1 then map_option (Pair key) (json_field m key) else None
      | _ \<Rightarrow> None)"

definition or_issue :: "string \<Rightarrow> string \<Rightarrow> string \<Rightarrow> any_value option \<Rightarrow> issues \<times> any_value option" where
  "or_issue path loc message v =
     (case v of Some x \<Rightarrow> ([], Some x) | None \<Rightarrow> (issue (located path loc) message, None))"

definition double_field :: "codec \<Rightarrow> string \<Rightarrow> string \<Rightarrow> json \<Rightarrow> issues \<times> f64_value option" where
  "double_field cd path loc v =
     (case parse_double cd v of
        Some (Finite b) \<Rightarrow> ([], finite_double b)
      | Some x \<Rightarrow> ([], Some x)
      | None \<Rightarrow> (issue (located path loc) ''doubleValue must be an OTLP number or numeric/symbolic string'', None))"

definition parse_scalar :: "codec \<Rightarrow> string \<Rightarrow> string \<Rightarrow> string \<Rightarrow> json \<Rightarrow> issues \<times> any_value option" where
  "parse_scalar cd path loc selected raw =
     (if selected = ''stringValue'' then
        or_issue path loc ''stringValue must be a string'' (map_option AString (as_str raw))
      else if selected = ''boolValue'' then
        or_issue path loc ''boolValue must be a boolean'' (map_option ABool (as_bool raw))
      else if selected = ''intValue'' then
        or_issue path loc ''intValue must contain an OTLP int64 JSON number or numeric string''
          (map_option AInt (parse_i64 cd raw))
      else if selected = ''doubleValue'' then
        (let (found, v) = double_field cd path loc raw in (found, map_option ADouble v))
      else or_issue path loc ''bytesValue must be valid base64''
             (map_option ABytes (Option.bind (as_str raw) (base64_decode cd))))"

lemma map_of_size_json: "map_of m k = Some (v :: json) \<Longrightarrow> size v < size (JObject m)"
  by (induction m) (auto split: if_splits)

lemma json_field_size: "json_field m k = Some v \<Longrightarrow> size v < size (JObject m)"
  by (auto simp: json_field_def dest: map_of_size_json split: option.splits)

lemma as_object_size: "as_object v = Some m \<Longrightarrow> size v = size (JObject m)"
  by (cases v) simp_all

lemma optional_array_size:
  assumes "optional_array m k path loc = (i, Some vs)" "x \<in> set vs"
  shows "size x < size (JObject m)"
proof -
  from assms have "json_field m k = Some (JArray vs)"
    by (auto simp: optional_array_def split: option.splits json.splits)
  then have "size (JArray vs) < size (JObject m)" by (rule json_field_size)
  moreover have "size x < size (JArray vs)" using assms(2) by (induction vs) auto
  ultimately show ?thesis by simp
qed

lemma selected_value_field: "selected_value m = Some (k, raw) \<Longrightarrow> json_field m k = Some raw \<and> k \<in> set value_keys"
proof -
  assume s: "selected_value m = Some (k, raw)"
  then have "filter (\<lambda>key. json_field m key \<noteq> None) value_keys = [k]" "json_field m k = Some raw"
    by (auto simp: selected_value_def split: list.splits if_splits)
  then show ?thesis by (metis filter_is_subset list.set_intros(1) subsetD)
qed

lemma array_item_size:
  assumes "as_object v = Some m" "selected_value m = Some (k, raw)" "as_object raw = Some array"
    and "(found, Some items) = optional_array array ''values'' path loc" "item \<in> set items"
  shows "size item < size v"
proof -
  have "size item < size raw"
    using optional_array_size [OF assms(4) [symmetric] assms(5)] as_object_size [OF assms(3)] by simp
  moreover have "size raw < size v"
    using json_field_size [OF conjunct1 [OF selected_value_field [OF assms(2)]]] as_object_size [OF assms(1)]
    by simp
  ultimately show ?thesis by simp
qed

lemma child_size:
  "json_field entry k = Some child \<Longrightarrow> as_object item = Some entry \<Longrightarrow> size child < size item"
  by (drule json_field_size) (simp only: as_object_size)

text \<open>
  One item of a key/value list, the loop body shared by \<open>kvlistValue\<close>s and attribute lists: what it
  reports for a malformed item, a missing key, a duplicate key and a missing value are arguments.
\<close>

definition add_entry ::
    "issues \<Rightarrow> issues \<Rightarrow> (string \<Rightarrow> issues) \<Rightarrow> (string \<Rightarrow> issues) \<Rightarrow> (string \<Rightarrow> json \<Rightarrow> issues \<times> any_value option) \<Rightarrow>
     attributes \<Rightarrow> json \<Rightarrow> issues \<times> attributes" where
  "add_entry no_object no_key duplicate no_value parse attrs item =
     (case as_object item of
        None \<Rightarrow> (no_object, attrs)
      | Some entry \<Rightarrow>
        (case Option.bind (json_field entry ''key'') as_str of
           None \<Rightarrow> (no_key, attrs)
         | Some key \<Rightarrow>
           if map_of attrs key \<noteq> None then (duplicate key, attrs)
           else (case json_field entry ''value'' of
                   None \<Rightarrow> (no_value key, attrs)
                 | Some child \<Rightarrow>
                   (case parse key child of
                      (out, None) \<Rightarrow> (out, attrs)
                    | (out, Some x) \<Rightarrow> (out, bt_insert key x attrs)))))"

lemma add_entry_cong [fundef_cong]:
  "a = a' \<Longrightarrow> b = b' \<Longrightarrow> c = c' \<Longrightarrow> d = d' \<Longrightarrow> attrs = attrs' \<Longrightarrow> item = item' \<Longrightarrow>
   (\<And>key child. size child < size item' \<Longrightarrow> f key child = g key child) \<Longrightarrow>
   add_entry a b c d f attrs item = add_entry a' b' c' d' g attrs' item'"
  by (auto simp: add_entry_def dest: child_size split: option.splits)

function parse_value :: "codec \<Rightarrow> string \<Rightarrow> string \<Rightarrow> json \<Rightarrow> issues \<times> any_value option" where
  "parse_value cd path loc v =
     (case as_object v of
        None \<Rightarrow> (issue (located path loc) ''AnyValue must be an object'', None)
      | Some m \<Rightarrow>
        (case selected_value m of
           None \<Rightarrow> (issue (located path loc) ''AnyValue must select exactly one concrete value variant'', None)
         | Some (selected, raw) \<Rightarrow>
           if selected = ''arrayValue'' then
             (case as_object raw of
                None \<Rightarrow> (issue (located path loc) ''arrayValue must be an object'', None)
              | Some array \<Rightarrow>
                (case optional_array array ''values'' path loc of
                   (found, None) \<Rightarrow> (found, None)
                 | (found, Some items) \<Rightarrow>
                   let (rest, parsed) =
                     fold_from 0 (\<lambda>parsed i item.
                       case parse_value cd path (index_loc loc i) item of
                         (out, None) \<Rightarrow> (out, parsed)
                       | (out, Some x) \<Rightarrow> (out, parsed @ [x])) [] items
                   in (found @ rest, Some (AArray parsed))))
           else if selected = ''kvlistValue'' then
             (case as_object raw of
                None \<Rightarrow> (issue (located path loc) ''kvlistValue must be an object'', None)
              | Some kvlist \<Rightarrow>
                (case optional_array kvlist ''values'' path loc of
                   (found, None) \<Rightarrow> (found, None)
                 | (found, Some items) \<Rightarrow>
                   let (rest, parsed) =
                     fold_from 0 (\<lambda>parsed i item.
                       let item_loc = located path (field_loc loc (nat_dec i)) in
                       add_entry (issue item_loc ''kvlist item must be an object'')
                         (issue item_loc ''kvlist item must contain a string key'')
                         (\<lambda>key. issue (located path loc) (''duplicate kvlist key '' @ ticked key))
                         (\<lambda>key. issue item_loc ''kvlist item must contain an AnyValue'')
                         (\<lambda>key child. parse_value cd path (field_loc loc key) child) parsed item) [] items
                   in (found @ rest, Some (AKvList parsed))))
           else parse_scalar cd path loc selected raw))"
  by pat_completeness auto
termination
  by (relation "measure (\<lambda>(cd, path, loc, v). size v)")
    (auto simp: array_item_size intro: less_trans [OF _ array_item_size])

declare parse_value.simps [simp del]

definition parse_attributes :: "codec \<Rightarrow> json option \<Rightarrow> string \<Rightarrow> string \<Rightarrow> issues \<times> attributes" where
  "parse_attributes cd v path loc =
     (case v of
        None \<Rightarrow> ([], [])
      | Some JNull \<Rightarrow> ([], [])
      | Some (JArray items) \<Rightarrow>
          fold_from 0 (\<lambda>attrs i item.
            let item_loc = located path (loc @ ''.attributes['' @ nat_dec i @ '']'') in
            add_entry (issue item_loc ''attribute must be an object'')
              (issue item_loc ''attribute key must be a string'')
              (\<lambda>key. issue (located path loc) (''duplicate attribute key '' @ ticked key))
              (\<lambda>key. issue (located path (field_loc loc key)) ''attribute value must be an AnyValue'')
              (\<lambda>key raw. parse_value cd path (field_loc loc key) raw) attrs item) [] items
      | Some _ \<Rightarrow> (issue (located path (loc @ ''.attributes'')) ''attributes must be an array'', []))"

section \<open>What a JSON value denotes\<close>

definition selects :: "json \<Rightarrow> string \<Rightarrow> json \<Rightarrow> bool" where
  "selects v key raw \<longleftrightarrow> (\<exists>m. as_object v = Some m \<and> selected_value m = Some (key, raw))"

definition items_in :: "json \<Rightarrow> json list \<Rightarrow> bool" where
  "items_in raw items \<longleftrightarrow>
     (\<exists>m. as_object raw = Some m \<and>
        (json_field m ''values'' = Some (JArray items) \<or> json_field m ''values'' \<in> {None, Some JNull} \<and> items = []))"

definition entry_of :: "json \<Rightarrow> string \<Rightarrow> json \<Rightarrow> bool" where
  "entry_of item key child \<longleftrightarrow>
     (\<exists>m. as_object item = Some m \<and> json_field m ''key'' = Some (JString key) \<and> json_field m ''value'' = Some child)"

inductive denotes :: "codec \<Rightarrow> json \<Rightarrow> any_value \<Rightarrow> bool" for cd where
  string: "selects v ''stringValue'' (JString s) \<Longrightarrow> denotes cd v (AString s)"
| bool: "selects v ''boolValue'' (JBool b) \<Longrightarrow> denotes cd v (ABool b)"
| int: "selects v ''intValue'' raw \<Longrightarrow> parse_i64 cd raw = Some i \<Longrightarrow> denotes cd v (AInt i)"
| double: "selects v ''doubleValue'' raw \<Longrightarrow> parse_double cd raw = Some d \<Longrightarrow> denotes cd v (ADouble d)"
| bytes: "selects v ''bytesValue'' (JString s) \<Longrightarrow> base64_decode cd s = Some bs \<Longrightarrow> denotes cd v (ABytes bs)"
| array: "selects v ''arrayValue'' raw \<Longrightarrow> items_in raw items \<Longrightarrow> list_all2 (denotes cd) items xs \<Longrightarrow> denotes cd v (AArray xs)"
| kvlist: "selects v ''kvlistValue'' raw \<Longrightarrow> items_in raw items \<Longrightarrow>
    list_all2 (\<lambda>item kv. \<exists>child. entry_of item (fst kv) child \<and> denotes cd child (snd kv)) items kvs \<Longrightarrow>
    distinct (map fst kvs) \<Longrightarrow> denotes cd v (AKvList (bt_collect kvs))"

inductive_cases denotesE: "denotes cd v x"

text \<open>Attribute items_in denote maps in the same way.\<close>

definition entry_denotes :: "codec \<Rightarrow> json \<Rightarrow> string \<times> any_value \<Rightarrow> bool" where
  "entry_denotes cd item kv \<longleftrightarrow> (\<exists>child. entry_of item (fst kv) child \<and> denotes cd child (snd kv))"

definition attributes_denote :: "codec \<Rightarrow> json list \<Rightarrow> attributes \<Rightarrow> bool" where
  "attributes_denote cd items attrs \<longleftrightarrow>
     (\<exists>kvs. list_all2 (entry_denotes cd) items kvs \<and> distinct (map fst kvs) \<and> attrs = bt_collect kvs)"

subsection \<open>Loops without issues\<close>

lemma fold_from_Nil_Cons:
  "fold_from i f s (x # xs) = ([], t) \<longleftrightarrow> (\<exists>s'. f s i x = ([], s') \<and> fold_from (Suc i) f s' xs = ([], t))"
  by (auto simp: Let_def split: prod.splits)

lemma fold_collect:
  assumes "\<And>item k r. item \<in> set items \<Longrightarrow> f k item = ([], r) \<longleftrightarrow> (\<exists>x. r = Some x \<and> D item x)"
  shows "fold_from i (\<lambda>acc k item. case f k item of (out, None) \<Rightarrow> (out, acc) | (out, Some x) \<Rightarrow> (out, acc @ [x])) acc items
      = ([], res) \<longleftrightarrow> (\<exists>xs. res = acc @ xs \<and> list_all2 D items xs)"
  using assms
proof (induction items arbitrary: i acc)
  case (Cons item items)
  let ?g = "\<lambda>acc k item. case f k item of (out, None) \<Rightarrow> (out, acc) | (out, Some x) \<Rightarrow> (out, acc @ [x])"
  have "f i item = ([], r) \<longleftrightarrow> (\<exists>x. r = Some x \<and> D item x)" for r
    using Cons.prems by simp
  then have "?g acc i item = ([], s') \<longleftrightarrow> (\<exists>x. s' = acc @ [x] \<and> D item x)" for s'
    by (cases "f i item"; cases "snd (f i item)") (auto, blast+)
  moreover have "fold_from (Suc i) ?g acc' items = ([], res) \<longleftrightarrow> (\<exists>xs. res = acc' @ xs \<and> list_all2 D items xs)" for acc'
    using Cons by simp
  ultimately show ?case
    unfolding fold_from_Nil_Cons by (auto simp: list_all2_Cons1)
qed auto

lemma fold_entries:
  fixes acc :: "('k::linorder \<times> 'v) list"
  assumes "\<And>item m k m'. item \<in> set items \<Longrightarrow>
     step m k item = ([], m') \<longleftrightarrow> (\<exists>kv. E item kv \<and> map_of m (fst kv) = None \<and> m' = bt_insert (fst kv) (snd kv) m)"
  shows "fold_from i step acc items = ([], res) \<longleftrightarrow>
     (\<exists>kvs. list_all2 E items kvs \<and> distinct (map fst kvs) \<and> (\<forall>kv\<in>set kvs. map_of acc (fst kv) = None) \<and>
        res = foldl (\<lambda>m (k, v). bt_insert k v m) acc kvs)"
  using assms
proof (induction items arbitrary: i acc)
  case (Cons item items)
  have rest: "fold_from (Suc i) step m items = ([], res) \<longleftrightarrow>
     (\<exists>kvs. list_all2 E items kvs \<and> distinct (map fst kvs) \<and> (\<forall>kv\<in>set kvs. map_of m (fst kv) = None) \<and>
        res = foldl (\<lambda>m (k, v). bt_insert k v m) m kvs)" for m
    using Cons by simp
  have first: "step acc i item = ([], m') \<longleftrightarrow>
      (\<exists>kv. E item kv \<and> map_of acc (fst kv) = None \<and> m' = bt_insert (fst kv) (snd kv) acc)" for m'
    using Cons.prems by simp
  have ins: "map_of (bt_insert a b acc) c = None \<longleftrightarrow> c \<noteq> a \<and> map_of acc c = None" for a b c
    by (simp add: map_of_bt_insert)
  show ?case (is "?l \<longleftrightarrow> ?r")
  proof
    assume ?l
    then obtain kv kvs where kv: "E item kv" "map_of acc (fst kv) = None" "list_all2 E items kvs" "distinct (map fst kvs)"
      "\<forall>kv'\<in>set kvs. map_of (bt_insert (fst kv) (snd kv) acc) (fst kv') = None"
      "res = foldl (\<lambda>m (k, v). bt_insert k v m) (bt_insert (fst kv) (snd kv) acc) kvs"
      unfolding fold_from_Nil_Cons first rest by blast
    then show ?r by (intro exI [of _ "kv # kvs"]) (cases kv, auto simp: ins)
  next
    assume ?r
    then obtain kv kvs where kv: "E item kv" "list_all2 E items kvs" "distinct (map fst (kv # kvs))"
      "\<forall>kv'\<in>set (kv # kvs). map_of acc (fst kv') = None" "res = foldl (\<lambda>m (k, v). bt_insert k v m) acc (kv # kvs)"
      unfolding list_all2_Cons1 by blast
    then have "\<forall>kv'\<in>set kvs. map_of (bt_insert (fst kv) (snd kv) acc) (fst kv') = None"
      by (simp add: ins image_iff) metis
    with kv show ?l
      unfolding fold_from_Nil_Cons first rest
      by (intro exI [of _ "bt_insert (fst kv) (snd kv) acc"] conjI exI [of _ kv] exI [of _ kvs]) (auto simp: split_beta)
  qed
qed auto

subsection \<open>The parser is exact\<close>

lemma scalar_exact:
  assumes "selects v k raw" "k \<noteq> ''arrayValue''" "k \<noteq> ''kvlistValue''"
  shows "parse_scalar cd path loc k raw = ([], r) \<longleftrightarrow> (\<exists>x. r = Some x \<and> denotes cd v x)"
proof -
  have key: "k \<in> {''stringValue'', ''boolValue'', ''intValue'', ''doubleValue'', ''bytesValue''}"
    using assms selected_value_field by (fastforce simp: selects_def value_keys_def)
  have one: "selects v k' raw' \<longleftrightarrow> k' = k \<and> raw' = raw" for k' raw'
    using assms(1) by (auto simp: selects_def)
  have fin: "parse_double cd raw = Some (Finite b) \<Longrightarrow> f64_is_finite b" for b
    by (auto simp: parse_double_def finite_double_def split: json.splits if_splits Option.bind_splits)
  have parts: "denotes cd v (AString s) \<longleftrightarrow> k = ''stringValue'' \<and> raw = JString s"
    "denotes cd v (ABool b) \<longleftrightarrow> k = ''boolValue'' \<and> raw = JBool b"
    "denotes cd v (AInt i) \<longleftrightarrow> k = ''intValue'' \<and> parse_i64 cd raw = Some i"
    "denotes cd v (ADouble d) \<longleftrightarrow> k = ''doubleValue'' \<and> parse_double cd raw = Some d"
    "denotes cd v (ABytes bs) \<longleftrightarrow> k = ''bytesValue'' \<and> (\<exists>s. raw = JString s \<and> base64_decode cd s = Some bs)"
    "\<not> denotes cd v (AArray xs)" "\<not> denotes cd v (AKvList kvs)" for s b i d bs xs kvs
    using assms by (auto simp: denotes.simps [of cd v] one)
  have "parse_scalar cd path loc k raw = ([], r) \<longleftrightarrow>
      (k = ''stringValue'' \<and> (\<exists>s. raw = JString s \<and> r = Some (AString s)) \<or>
       k = ''boolValue'' \<and> (\<exists>b. raw = JBool b \<and> r = Some (ABool b)) \<or>
       k = ''intValue'' \<and> (\<exists>i. parse_i64 cd raw = Some i \<and> r = Some (AInt i)) \<or>
       k = ''doubleValue'' \<and> (\<exists>d. parse_double cd raw = Some d \<and> r = Some (ADouble d)) \<or>
       k = ''bytesValue'' \<and> (\<exists>s bs. raw = JString s \<and> base64_decode cd s = Some bs \<and> r = Some (ABytes bs)))"
    (is "_ \<longleftrightarrow> ?spec")
  proof -
    from key consider "k = ''stringValue''" | "k = ''boolValue''" | "k = ''intValue''" | "k = ''doubleValue''" | "k = ''bytesValue''"
      by (elim insertE emptyE)
    then show ?thesis
    proof cases
      case 4
      have "double_field cd path loc raw = ([], d) \<longleftrightarrow> (\<exists>x. parse_double cd raw = Some x \<and> d = Some x)" for d
        using fin by (auto simp: double_field_def finite_double_def split: option.splits f64_value.splits)
      with 4 show ?thesis
        by (cases "double_field cd path loc raw"; cases "snd (double_field cd path loc raw)")
          (auto simp: parse_scalar_def, blast+)
    qed (cases raw; auto simp: parse_scalar_def or_issue_def split: option.splits)+
  qed
  also have "\<dots> \<longleftrightarrow> (\<exists>x. r = Some x \<and> denotes cd v x)" (is "_ \<longleftrightarrow> ?r")
  proof (cases r)
    case (Some x)
    then show ?thesis by (cases x) (auto simp: parts)
  qed simp
  finally show ?thesis .
qed

lemma optional_array_lists:
  "as_object raw = Some m \<Longrightarrow>
   optional_array m ''values'' path loc = ([], r) \<longleftrightarrow> (\<exists>items. r = Some items \<and> items_in raw items)"
  by (auto simp: optional_array_def items_in_def split: option.splits json.splits)

lemma items_in_object: "as_object raw = None \<Longrightarrow> \<not> items_in raw items"
  by (simp add: items_in_def)

lemma items_in_functional: "items_in raw items \<Longrightarrow> items_in raw items' \<Longrightarrow> items = items'"
  by (auto simp: items_in_def)

lemma as_str_bind: "Option.bind j as_str = Some s \<longleftrightarrow> j = Some (JString s)"
  by (cases j; cases "the j") auto

lemma parse_value_array:
  assumes "as_object v = Some m" "selected_value m = Some (''arrayValue'', raw)"
    and "\<And>items item k r. items_in raw items \<Longrightarrow> item \<in> set items \<Longrightarrow>
      parse_value cd path (index_loc loc k) item = ([], r) \<longleftrightarrow> (\<exists>x. r = Some x \<and> denotes cd item x)"
  shows "parse_value cd path loc v = ([], r) \<longleftrightarrow>
    (\<exists>items xs. items_in raw items \<and> list_all2 (denotes cd) items xs \<and> r = Some (AArray xs))"
proof (cases "as_object raw")
  case None
  then show ?thesis using assms(1,2) by (simp add: parse_value.simps [of cd path loc v] items_in_object)
next
  case (Some a)
  obtain found listed where opt: "optional_array a ''values'' path loc = (found, listed)" by fastforce
  show ?thesis
  proof (cases "found = [] \<and> listed \<noteq> None")
    case True
    then obtain items where items: "listed = Some items" "found = []" by auto
    with opt Some have ls: "items_in raw items" using optional_array_lists by blast
    let ?step = "\<lambda>parsed i item. case parse_value cd path (index_loc loc i) item of
       (out, None) \<Rightarrow> (out, parsed) | (out, Some x) \<Rightarrow> (out, parsed @ [x])"
    obtain rest parsed where f: "fold_from 0 ?step [] items = (rest, parsed)" by fastforce
    have loop: "fold_from 0 ?step [] items = ([], res) \<longleftrightarrow> (\<exists>xs. res = [] @ xs \<and> list_all2 (denotes cd) items xs)" for res
      by (rule fold_collect) (rule assms(3) [OF ls])
    have "parse_value cd path loc v = (rest, Some (AArray parsed))"
      unfolding parse_value.simps [of cd path loc v] by (simp add: assms(1,2) Some opt items f)
    moreover have "(rest, parsed) = ([], res) \<longleftrightarrow> list_all2 (denotes cd) items res" for res
      using loop [of res] unfolding f by simp
    moreover have "items_in raw items' \<longleftrightarrow> items' = items" for items'
      using items_in_functional [OF ls] ls by blast
    ultimately show ?thesis by auto
  next
    case False
    then have "found \<noteq> []" using opt optional_array_lists [OF Some] by (cases listed) auto
    moreover from this opt have "\<not> items_in raw items" for items using optional_array_lists [OF Some, of path loc] by auto
    ultimately show ?thesis
      unfolding parse_value.simps [of cd path loc v] by (auto simp: assms(1,2) Some opt split: option.splits prod.splits)
  qed
qed

lemma add_entry_exact:
  assumes "a \<noteq> []" "b \<noteq> []" "\<And>key. c key \<noteq> []" "\<And>key. d key \<noteq> []"
    and "\<And>key child r. entry_of item key child \<Longrightarrow> parse key child = ([], r) \<longleftrightarrow> (\<exists>x. r = Some x \<and> denotes cd child x)"
  shows "add_entry a b c d parse m item = ([], m') \<longleftrightarrow>
    (\<exists>kv. entry_denotes cd item kv \<and> map_of m (fst kv) = None \<and> m' = bt_insert (fst kv) (snd kv) m)"
proof (cases "\<exists>key child. entry_of item key child")
  case True
  then obtain key child where e: "entry_of item key child" by blast
  have one: "entry_denotes cd item kv \<longleftrightarrow> fst kv = key \<and> denotes cd child (snd kv)" for kv
    using e by (auto simp: entry_of_def entry_denotes_def)
  obtain out r where p: "parse key child = (out, r)" by fastforce
  have q: "out = [] \<and> r = r' \<longleftrightarrow> (\<exists>x. r' = Some x \<and> denotes cd child x)" for r'
    using assms(5) [OF e, of r'] p by auto
  have "add_entry a b c d parse m item =
      (if map_of m key \<noteq> None then (c key, m)
       else case r of None \<Rightarrow> (out, m) | Some x \<Rightarrow> (out, bt_insert key x m))"
    using e p by (auto simp: add_entry_def entry_of_def as_str_bind split: option.splits)
  moreover have "denotes cd child x \<longleftrightarrow> out = [] \<and> r = Some x" for x
    using q [of "Some x"] by blast
  ultimately show ?thesis
    using q [of None] assms(3) unfolding one by (cases r) auto
next
  case False
  then have "fst (add_entry a b c d parse m item) \<noteq> []"
    using assms(1-4) by (auto simp: add_entry_def entry_of_def as_str_bind split: option.splits)
  with False show ?thesis by (auto simp: entry_denotes_def)
qed

lemma add_entries_exact:
  assumes "\<And>m k item m'. item \<in> set items \<Longrightarrow> step m k item = ([], m') \<longleftrightarrow>
     (\<exists>kv. entry_denotes cd item kv \<and> map_of m (fst kv) = None \<and> m' = bt_insert (fst kv) (snd kv) m)"
  shows "fold_from 0 step [] items = ([], res) \<longleftrightarrow> attributes_denote cd items res"
  by (simp add: fold_entries [of items step "entry_denotes cd", OF assms] attributes_denote_def bt_collect_def)

lemma parse_value_kvlist:
  assumes "as_object v = Some m" "selected_value m = Some (''kvlistValue'', raw)"
    and "\<And>items item key child r. items_in raw items \<Longrightarrow> item \<in> set items \<Longrightarrow> entry_of item key child \<Longrightarrow>
      parse_value cd path (field_loc loc key) child = ([], r) \<longleftrightarrow> (\<exists>x. r = Some x \<and> denotes cd child x)"
  shows "parse_value cd path loc v = ([], r) \<longleftrightarrow>
    (\<exists>items kvs. items_in raw items \<and> attributes_denote cd items kvs \<and> r = Some (AKvList kvs))"
proof (cases "as_object raw")
  case None
  then show ?thesis using assms(1,2) by (simp add: parse_value.simps [of cd path loc v] items_in_object)
next
  case (Some a)
  obtain found listed where opt: "optional_array a ''values'' path loc = (found, listed)" by fastforce
  show ?thesis
  proof (cases "found = [] \<and> listed \<noteq> None")
    case True
    then obtain items where items: "listed = Some items" "found = []" by auto
    with opt Some have ls: "items_in raw items" using optional_array_lists by blast
    let ?step = "\<lambda>parsed i item. let item_loc = located path (field_loc loc (nat_dec i)) in
       add_entry (issue item_loc ''kvlist item must be an object'') (issue item_loc ''kvlist item must contain a string key'')
         (\<lambda>key. issue (located path loc) (''duplicate kvlist key '' @ ticked key))
         (\<lambda>key. issue item_loc ''kvlist item must contain an AnyValue'')
         (\<lambda>key child. parse_value cd path (field_loc loc key) child) parsed item"
    obtain rest parsed where f: "fold_from 0 ?step [] items = (rest, parsed)" by fastforce
    have loop: "fold_from 0 ?step [] items = ([], res) \<longleftrightarrow> attributes_denote cd items res" for res
      unfolding Let_def by (rule add_entries_exact) (rule add_entry_exact; simp add: assms(3) [OF ls])
    have "parse_value cd path loc v = (rest, Some (AKvList parsed))"
      using f unfolding parse_value.simps [of cd path loc v] by (simp add: assms(1,2) Some opt items)
    moreover have "(rest, parsed) = ([], res) \<longleftrightarrow> attributes_denote cd items res" for res
      using loop [of res] unfolding f by simp
    moreover have "items_in raw items' \<longleftrightarrow> items' = items" for items'
      using items_in_functional [OF ls] ls by blast
    ultimately show ?thesis by auto
  next
    case False
    then have "found \<noteq> []" using opt optional_array_lists [OF Some] by (cases listed) auto
    moreover from this opt have "\<not> items_in raw items" for items using optional_array_lists [OF Some, of path loc] by auto
    ultimately show ?thesis
      unfolding parse_value.simps [of cd path loc v] by (auto simp: assms(1,2) Some opt split: option.splits prod.splits)
  qed
qed

lemma parse_value_exact_size:
  "size v < n \<Longrightarrow> parse_value cd path loc v = ([], r) \<longleftrightarrow> (\<exists>x. r = Some x \<and> denotes cd v x)"
proof (induction n arbitrary: v loc r)
  case (Suc n)
  show ?case
  proof (cases "\<exists>k raw. selects v k raw")
    case False
    then have "\<not> denotes cd v x" for x by (auto elim: denotesE)
    moreover from False have "fst (parse_value cd path loc v) \<noteq> []"
      by (auto simp: parse_value.simps [of cd path loc v] selects_def split: option.splits)
    ultimately show ?thesis by auto
  next
    case True
    then obtain k raw m where sel: "selects v k raw" and m: "as_object v = Some m" "selected_value m = Some (k, raw)"
      by (auto simp: selects_def)
    have one: "selects v k' raw' \<longleftrightarrow> k' = k \<and> raw' = raw" for k' raw'
      using sel by (auto simp: selects_def)
    have small: "size item < n" if "items_in raw items" "item \<in> set items" for items item
    proof -
      from that obtain a where a: "as_object raw = Some a" by (auto simp: items_in_def)
      with that(1) have "optional_array a ''values'' path loc = ([], Some items)"
        by (simp add: optional_array_lists)
      from array_item_size [OF m a this [symmetric] that(2)] Suc.prems show ?thesis by simp
    qed
    consider "k \<noteq> ''arrayValue'' \<and> k \<noteq> ''kvlistValue''" | "k = ''arrayValue''" | "k = ''kvlistValue''" by blast
    then show ?thesis
    proof cases
      case 1
      then show ?thesis
        using scalar_exact [OF sel] m by (simp add: parse_value.simps [of cd path loc v])
    next
      case 2
      have "denotes cd v x \<longleftrightarrow> (\<exists>items xs. items_in raw items \<and> list_all2 (denotes cd) items xs \<and> x = AArray xs)" for x
        using 2 one by (auto simp: denotes.simps [of cd v])
      moreover have "parse_value cd path loc v = ([], r) \<longleftrightarrow>
          (\<exists>items xs. items_in raw items \<and> list_all2 (denotes cd) items xs \<and> r = Some (AArray xs))"
        by (rule parse_value_array [OF m(1) m(2) [unfolded 2]]) (use Suc.IH small in blast)
      ultimately show ?thesis by auto
    next
      case 3
      have "denotes cd v x \<longleftrightarrow> (\<exists>items kvs. items_in raw items \<and> attributes_denote cd items kvs \<and> x = AKvList kvs)" for x
        using 3 one by (auto simp: denotes.simps [of cd v] attributes_denote_def entry_denotes_def [abs_def])
      moreover have "parse_value cd path loc v = ([], r) \<longleftrightarrow>
          (\<exists>items kvs. items_in raw items \<and> attributes_denote cd items kvs \<and> r = Some (AKvList kvs))"
      proof (rule parse_value_kvlist [OF m(1) m(2) [unfolded 3]])
        fix items item key child r
        assume "items_in raw items" "item \<in> set items" "entry_of item key child"
        then have "size child < size item" "size item < n"
          using small child_size by (auto simp: entry_of_def)
        then have "size child < n" by (rule less_trans)
        then show "parse_value cd path (field_loc loc key) child = ([], r) \<longleftrightarrow> (\<exists>x. r = Some x \<and> denotes cd child x)"
          by (rule Suc.IH)
      qed
      ultimately show ?thesis by auto
    qed
  qed
qed simp

lemma parse_value_denotes: "parse_value cd path loc v = ([], r) \<longleftrightarrow> (\<exists>x. r = Some x \<and> denotes cd v x)"
  by (rule parse_value_exact_size) (rule lessI)

lemma parse_attributes_denotes:
  "parse_attributes cd v path loc = ([], attrs) \<longleftrightarrow>
     v \<in> {None, Some JNull} \<and> attrs = [] \<or> (\<exists>items. v = Some (JArray items) \<and> attributes_denote cd items attrs)"
proof -
  let ?step = "\<lambda>attrs i item. let item_loc = located path (loc @ ''.attributes['' @ nat_dec i @ '']'') in
     add_entry (issue item_loc ''attribute must be an object'') (issue item_loc ''attribute key must be a string'')
       (\<lambda>key. issue (located path loc) (''duplicate attribute key '' @ ticked key))
       (\<lambda>key. issue (located path (field_loc loc key)) ''attribute value must be an AnyValue'')
       (\<lambda>key raw. parse_value cd path (field_loc loc key) raw) attrs item"
  have loop: "fold_from 0 ?step [] items = ([], res) \<longleftrightarrow> attributes_denote cd items res" for items res
    unfolding Let_def by (rule add_entries_exact) (rule add_entry_exact; simp add: parse_value_denotes)
  show ?thesis
    unfolding parse_attributes_def loop [symmetric] by (auto split: option.splits json.splits)
qed

section \<open>Well-formed attribute values\<close>

fun value_wf :: "any_value \<Rightarrow> bool" where
  "value_wf (AArray xs) \<longleftrightarrow> (\<forall>x\<in>set xs. value_wf x)"
| "value_wf (AKvList kvs) \<longleftrightarrow> bt_wf kvs \<and> (\<forall>kv\<in>set kvs. value_wf (snd kv))"
| "value_wf (ADouble (Finite b)) \<longleftrightarrow> f64_is_finite b"
| "value_wf _ \<longleftrightarrow> True"

definition attributes_wf :: "attributes \<Rightarrow> bool" where
  "attributes_wf attrs \<longleftrightarrow> value_wf (AKvList attrs)"

lemma parse_double_finite: "parse_double cd raw = Some (Finite b) \<Longrightarrow> f64_is_finite b"
  by (auto simp: parse_double_def finite_double_def split: json.splits if_splits Option.bind_splits)

lemma denotes_wf: "denotes cd v x \<Longrightarrow> value_wf x"
proof (induction rule: denotes.induct)
  case (double v raw d)
  then show ?case using parse_double_finite by (cases d) auto
next
  case (array v raw items xs)
  then show ?case by (auto simp: list_all2_conv_all_nth in_set_conv_nth)
next
  case (kvlist v raw items kvs)
  then have "list_all2 (\<lambda>item kv. value_wf (snd kv)) items kvs"
    by (auto elim: list_all2_mono)
  then have "\<forall>kv\<in>set kvs. value_wf (snd kv)" by (auto simp: list_all2_conv_all_nth in_set_conv_nth) (metis snd_conv)
  with bt_collect_set(1) [OF \<open>distinct (map fst kvs)\<close>] show ?case by (simp add: bt_wf_collect)
qed simp_all

lemma attributes_denote_wf: "attributes_denote cd items attrs \<Longrightarrow> attributes_wf attrs"
proof -
  assume "attributes_denote cd items attrs"
  then obtain kvs where kvs: "list_all2 (entry_denotes cd) items kvs" "distinct (map fst kvs)" "attrs = bt_collect kvs"
    by (auto simp: attributes_denote_def)
  then have "\<forall>kv\<in>set kvs. value_wf (snd kv)"
    using denotes_wf by (fastforce simp: list_all2_conv_all_nth in_set_conv_nth entry_denotes_def)
  with kvs(3) bt_collect_set(1) [OF kvs(2)] show ?thesis by (simp add: attributes_wf_def bt_wf_collect)
qed

lemma parse_attributes_wf: "parse_attributes cd v path loc = ([], attrs) \<Longrightarrow> attributes_wf attrs"
  using attributes_denote_wf by (auto simp: parse_attributes_denotes attributes_wf_def)

section \<open>Properties\<close>

text \<open>
  C19: the attribute value parser implements the abstract reading: it reports nothing exactly when
  the JSON value denotes an attribute value, and then it returns that value; no element of a nested
  array or key/value list is dropped or overwritten silently.
\<close>

theorem parse_value_exact: "parse_value cd path loc v = ([], r) \<longleftrightarrow> (\<exists>x. r = Some x \<and> denotes cd v x \<and> value_wf x)"
  using parse_value_denotes denotes_wf by blast

end
