(* ===== verification/Ctsc_Loading.thy ===== *)
theory Ctsc_Loading
  imports Ctsc_Fields
begin

text \<open>
  Loading a trace (\<open>load_bytes\<close>, \<open>parse_documents\<close> and \<open>parse_span\<close> of
  \<open>rust/crates/specgate-ctsc/src/validation/trace.rs\<close>): UTF-8, JSON or JSON-lines documents, the walk
  over resources, scopes and spans, and the normalized spans. \<open>otlp::parse_document\<close> (the JSON parser
  and its derived protobuf shape) is the argument \<open>pd\<close>, which returns an error text or a value.
\<close>

section \<open>Text\<close>

definition continuation :: "char \<Rightarrow> bool" where
  "continuation c \<longleftrightarrow> 128 \<le> (of_char c :: nat) \<and> (of_char c :: nat) \<le> 191"

definition second_byte :: "char \<Rightarrow> char \<Rightarrow> bool" where
  "second_byte first c \<longleftrightarrow>
     (let f = (of_char first :: nat); n = (of_char c :: nat) in
      continuation c \<and> (f = 224 \<longrightarrow> 160 \<le> n) \<and> (f = 237 \<longrightarrow> n \<le> 159) \<and> (f = 240 \<longrightarrow> 144 \<le> n) \<and> (f = 244 \<longrightarrow> n \<le> 143))"

definition utf8_width :: "char \<Rightarrow> nat" where
  "utf8_width c =
     (let n = (of_char c :: nat) in
      if n < 128 then 1 else if 194 \<le> n \<and> n \<le> 223 then 2 else if 224 \<le> n \<and> n \<le> 239 then 3
      else if 240 \<le> n \<and> n \<le> 244 then 4 else 0)"

text \<open>The error of the bytes after the first: incomplete (\<open>None\<close>) or invalid after \<open>k\<close> bytes.\<close>

fun tail_error :: "char \<Rightarrow> nat \<Rightarrow> nat \<Rightarrow> string \<Rightarrow> nat option option" where
  "tail_error first k 0 cs = None"
| "tail_error first k (Suc n) [] = Some None"
| "tail_error first k (Suc n) (c # cs) =
     (if (if k = 1 then second_byte first c else continuation c) then tail_error first (Suc k) n cs else Some (Some k))"

function utf8_error :: "nat \<Rightarrow> string \<Rightarrow> (nat \<times> nat option) option" where
  "utf8_error i [] = None"
| "utf8_error i (c # cs) =
     (if utf8_width c = 0 then Some (i, Some 1)
      else case tail_error c 1 (utf8_width c - 1) cs of
             Some e \<Rightarrow> Some (i, e)
           | None \<Rightarrow> utf8_error (i + utf8_width c) (drop (utf8_width c - 1) cs))"
  by pat_completeness auto
termination
  by (relation "measure (length \<circ> snd)") simp_all

fun utf8_error_text :: "nat \<times> nat option \<Rightarrow> string" where
  "utf8_error_text (i, Some k) = ''invalid utf-8 sequence of '' @ nat_dec k @ '' bytes from index '' @ nat_dec i"
| "utf8_error_text (i, None) = ''incomplete utf-8 byte sequence from index '' @ nat_dec i"

text \<open>\<open>str::lines\<close>, and \<open>trim().is_empty()\<close>: every character is Unicode white space.\<close>

definition strip_cr :: "string \<Rightarrow> string" where
  "strip_cr s = (if s \<noteq> [] \<and> last s = CHR 0x0D then butlast s else s)"

definition text_lines :: "string \<Rightarrow> string list" where
  "text_lines text =
     (let segments = split_on (CHR 0x0A) text
      in map strip_cr (butlast segments) @ (if last segments = [] then [] else [last segments]))"

definition wide_space :: "nat \<Rightarrow> nat \<Rightarrow> nat \<Rightarrow> bool" where
  "wide_space a b c \<longleftrightarrow>
     (a, b, c) \<in> {(225, 154, 128), (226, 129, 159), (227, 128, 128)} \<or>
     a = 226 \<and> b = 128 \<and> (128 \<le> c \<and> c \<le> 138 \<or> c = 168 \<or> c = 169 \<or> c = 175)"

fun blank :: "string \<Rightarrow> bool" where
  "blank [] \<longleftrightarrow> True"
| "blank [a] \<longleftrightarrow> 9 \<le> (of_char a :: nat) \<and> (of_char a :: nat) \<le> 13 \<or> (of_char a :: nat) = 32"
| "blank (a # b # cs) \<longleftrightarrow>
     (if 9 \<le> (of_char a :: nat) \<and> (of_char a :: nat) \<le> 13 \<or> (of_char a :: nat) = 32 then blank (b # cs)
      else if (of_char a :: nat) = 194 \<and> (of_char b :: nat) \<in> {133, 160} then blank cs
      else case cs of [] \<Rightarrow> False | c # ds \<Rightarrow> wide_space (of_char a) (of_char b) (of_char c) \<and> blank ds)"

text \<open>\<open>Path::extension\<close> of a Unix path.\<close>

definition file_name :: "string \<Rightarrow> string option" where
  "file_name path =
     (case rev (filter (\<lambda>c. c \<noteq> [] \<and> c \<noteq> ''.'') (split_on (CHR ''/'') path)) of
        [] \<Rightarrow> None
      | name # _ \<Rightarrow> if name = ''..'' then None else Some name)"

definition extension :: "string \<Rightarrow> string option" where
  "extension path =
     Option.bind (file_name path) (\<lambda>name.
       let segments = split_on (CHR ''.'') name
       in if length segments < 2 \<or> length name = Suc (length (last segments)) then None else Some (last segments))"

section \<open>Documents\<close>

definition mapping_error :: "string \<Rightarrow> string" where
  "mapping_error e = ''invalid OTLP JSON/protobuf mapping: '' @ e"

definition parse_documents :: "(string \<Rightarrow> string + json) \<Rightarrow> string \<Rightarrow> string \<Rightarrow> issues \<times> json list" where
  "parse_documents pd path text =
     (if extension path \<noteq> Some ''jsonl'' then
        (case pd text of
           Inr v \<Rightarrow> ([], [v])
         | Inl e \<Rightarrow> (issue (located path ''$'') (mapping_error e), []))
      else
        append_from (\<lambda>i line.
          let loc = located path (''line '' @ nat_dec (i + 1)) in
          if blank line then (issue loc ''blank JSONL line'', [])
          else case pd line of
                 Inr v \<Rightarrow> ([], [v])
               | Inl e \<Rightarrow> (issue loc (mapping_error e), [])) (text_lines text))"

section \<open>Spans\<close>

definition parse_status :: "json_object \<Rightarrow> span_status" where
  "parse_status m =
     (case Option.bind (Option.bind (json_field m ''status'') as_object) (\<lambda>status. json_field status ''code'') of
        None \<Rightarrow> Unset
      | Some code \<Rightarrow>
          if as_i64 code = Some 1 \<or> as_str code = Some ''STATUS_CODE_OK'' then Ok
          else if as_i64 code = Some 2 \<or> as_str code = Some ''STATUS_CODE_ERROR'' then Error
          else Unset)"

definition parse_event :: "codec \<Rightarrow> string \<Rightarrow> string \<Rightarrow> json \<Rightarrow> issues \<times> trace_event option" where
  "parse_event cd path loc v =
     (case as_object v of
        None \<Rightarrow> (issue (located path loc) ''event must be an object'', None)
      | Some event \<Rightarrow>
          let zero = validate_zero cd event ''droppedAttributesCount'' path loc;
              (found, name) = string_field event ''name'' path loc
          in (case name of
                None \<Rightarrow> (zero @ found, None)
              | Some n \<Rightarrow>
                  let (out, attrs) = parse_attributes cd (json_field event ''attributes'') path loc
                  in (zero @ found @ out, Some \<lparr>event_name = n, event_attributes = attrs\<rparr>)))"

definition parse_events :: "codec \<Rightarrow> string \<Rightarrow> string \<Rightarrow> json list \<Rightarrow> issues \<times> trace_event list" where
  "parse_events cd path loc vs =
     append_from (\<lambda>i v. pushed (parse_event cd path (loc @ ''.events['' @ nat_dec i @ '']'') v)) vs"

text \<open>The part of \<open>parse_span\<close> after its identifiers and name have been read.\<close>

definition span_body ::
    "codec \<Rightarrow> string \<Rightarrow> string \<Rightarrow> json_object \<Rightarrow> attributes \<Rightarrow> string \<Rightarrow> string \<Rightarrow> string \<Rightarrow> string \<Rightarrow> issues \<times> trace_span" where
  "span_body cd path loc m resource trace span parent name =
     (let (i1, starts) = time_field cd m ''startTimeUnixNano'' path loc;
          (i2, ends) = time_field cd m ''endTimeUnixNano'' path loc;
          (i3, attrs) = parse_attributes cd (json_field m ''attributes'') path loc;
          (i4, event_values) = array_field m ''events'' path loc;
          (i5, events) = parse_events cd path loc event_values
      in (i1 @ i2 @ i3 @ i4 @ i5,
          \<lparr>trace_id = trace, span_id = span, parent_span_id = parent, span_name = name, start_time = starts,
           end_time = ends, span_attributes = attrs, span_events = events, span_stat = parse_status m,
           resource_attributes = resource, span_location = located path loc\<rparr>))"

definition parse_span :: "codec \<Rightarrow> string \<Rightarrow> attributes \<Rightarrow> json_object \<times> string \<Rightarrow> issues \<times> trace_span option" where
  "parse_span cd path resource raw =
     (let (m, loc) = raw;
          zero = for_each (\<lambda>key. validate_zero cd m key path loc)
            [''droppedAttributesCount'', ''droppedEventsCount'', ''droppedLinksCount'']
      in case id_field m ''traceId'' path loc of
           (i1, None) \<Rightarrow> (zero @ i1, None)
         | (i1, Some trace) \<Rightarrow>
           (case id_field m ''spanId'' path loc of
              (i2, None) \<Rightarrow> (zero @ i1 @ i2, None)
            | (i2, Some span) \<Rightarrow>
              (let (i3, parent) = optional_id m ''parentSpanId'' path loc in
               case string_field m ''name'' path loc of
                 (i4, None) \<Rightarrow> (zero @ i1 @ i2 @ i3 @ i4, None)
               | (i4, Some name) \<Rightarrow>
                 let (i5, s) = span_body cd path loc m resource trace span (case parent of None \<Rightarrow> [] | Some p \<Rightarrow> p) name
                 in (zero @ i1 @ i2 @ i3 @ i4 @ i5, Some s))))"

section \<open>Resources and scopes\<close>

definition ctsc_spans :: "string list" where
  "ctsc_spans = [''conformance.run'', ''conformance.scenario'', ''conformance.operation'', ''conformance.parallel'']"

definition ctsc_version :: string where
  "ctsc_version = ''0.4.0''"

definition is_ctsc_span :: "json_object \<Rightarrow> bool" where
  "is_ctsc_span span \<longleftrightarrow> (case Option.bind (map_of span ''name'') as_str of None \<Rightarrow> False | Some n \<Rightarrow> n \<in> set ctsc_spans)"

definition scope_span_list :: "string \<Rightarrow> string \<Rightarrow> json_object \<Rightarrow> issues \<times> (json_object \<times> string) list" where
  "scope_span_list path scope_loc scope =
     (let (found, span_values) = array_field scope ''spans'' path scope_loc;
          (rest, spans) =
            append_from (\<lambda>i v.
              let loc = scope_loc @ ''.spans['' @ nat_dec i @ '']'' in
              case as_object v of
                None \<Rightarrow> (issue (located path loc) ''span must be an object'', [])
              | Some span \<Rightarrow> ([], if is_ctsc_span span then [(span, loc)] else [])) span_values
      in (found @ rest, spans))"

definition check_scope :: "codec \<Rightarrow> string \<Rightarrow> string \<Rightarrow> json_object \<Rightarrow> issues" where
  "check_scope cd path loc scope =
     (case json_field scope ''scope'' of
        None \<Rightarrow> []
      | Some v \<Rightarrow>
          (case as_object v of
             Some instrumentation \<Rightarrow>
               let (found, attrs) = parse_attributes cd (json_field instrumentation ''attributes'') path loc
               in validate_zero cd instrumentation ''droppedAttributesCount'' path loc @ found @
                  reject_attrs attrs [] (located path loc)
           | None \<Rightarrow> if v = JNull then [] else issue (located path loc) ''scope must be an object''))"

definition load_scope :: "codec \<Rightarrow> string \<Rightarrow> string \<Rightarrow> json \<Rightarrow> issues \<times> (json_object \<times> string) list" where
  "load_scope cd path scope_loc v =
     (case as_object v of
        None \<Rightarrow> (issue (located path scope_loc) ''scopeSpans item must be an object'', [])
      | Some scope \<Rightarrow>
          let (found, spans) = scope_span_list path scope_loc scope
          in if spans = [] then (found, [])
             else (found @ check_scope cd path (scope_loc @ ''.scope'') scope, spans))"

definition resource_span_list :: "codec \<Rightarrow> string \<Rightarrow> string \<Rightarrow> json_object \<Rightarrow> issues \<times> (json_object \<times> string) list" where
  "resource_span_list cd path loc resource_spans =
     (let (found, scope_values) = array_field resource_spans ''scopeSpans'' path loc;
          (rest, spans) =
            append_from (\<lambda>i v. load_scope cd path (loc @ ''.scopeSpans['' @ nat_dec i @ '']'') v) scope_values
      in (found @ rest, spans))"

definition required_attrs :: "string list" where
  "required_attrs = [''conformance.version'', ''conformance.tool.name'', ''conformance.tool.version'',
     ''conformance.target.name'', ''conformance.target.language'']"

definition registry_attrs :: "string list" where
  "registry_attrs = [''conformance.registry.id'', ''conformance.registry.version'', ''conformance.registry.digest'',
     ''conformance.registry.uri'']"

definition check_resource :: "string \<Rightarrow> string \<Rightarrow> attributes \<Rightarrow> issues" where
  "check_resource path loc attrs =
     reject_attrs attrs (required_attrs @ registry_attrs) (located path loc) @
     for_each (\<lambda>key.
       let (found, actual) = require_str attrs key loc in
       found @ (if key = ''conformance.version'' \<and> actual \<noteq> None \<and> actual \<noteq> Some ctsc_version
                then issue (located path loc) (''conformance.version must be '' @ ticked ctsc_version) else []))
       required_attrs @
     for_each (\<lambda>key. check_attr attrs key StringType (located path loc)) registry_attrs"

definition parse_resource :: "codec \<Rightarrow> string \<Rightarrow> string \<Rightarrow> json_object \<Rightarrow> issues \<times> attributes" where
  "parse_resource cd path loc resource_spans =
     (let value = json_field resource_spans ''resource'';
          resource = Option.bind value as_object;
          shape = (case value of None \<Rightarrow> []
                   | Some v \<Rightarrow> if as_object v = None \<and> v \<noteq> JNull
                               then issue (located path loc) ''resource must be an object'' else []);
          zero = (case resource of None \<Rightarrow> [] | Some r \<Rightarrow> validate_zero cd r ''droppedAttributesCount'' path loc);
          (found, attrs) = parse_attributes cd (Option.bind resource (\<lambda>r. json_field r ''attributes'')) path loc
      in (shape @ zero @ found @ check_resource path loc attrs, attrs))"

definition parse_spans :: "codec \<Rightarrow> string \<Rightarrow> attributes \<Rightarrow> (json_object \<times> string) list \<Rightarrow> issues \<times> trace_span list" where
  "parse_spans cd path resource raw =
     append_from (\<lambda>i r. pushed (parse_span cd path resource r)) raw"

definition load_resource :: "codec \<Rightarrow> string \<Rightarrow> string \<Rightarrow> json \<Rightarrow> issues \<times> trace_span list" where
  "load_resource cd path loc v =
     (case as_object v of
        None \<Rightarrow> (issue (located path loc) ''resourceSpans item must be an object'', [])
      | Some resource_spans \<Rightarrow>
          let (found, raw) = resource_span_list cd path loc resource_spans in
          if raw = [] then (found, [])
          else let (out, attrs) = parse_resource cd path (loc @ ''.resource'') resource_spans;
                   (rest, spans) = parse_spans cd path attrs raw
               in (found @ out @ rest, spans))"

definition load_batch :: "codec \<Rightarrow> string \<Rightarrow> nat \<Rightarrow> json \<Rightarrow> issues \<times> trace_span list" where
  "load_batch cd path index v =
     (let loc = ''$['' @ nat_dec index @ '']'' in
      case as_object v of
        None \<Rightarrow> (issue (located path loc) ''OTLP TracesData must be a JSON object'', [])
      | Some batch \<Rightarrow>
          let (found, resources) = array_field batch ''resourceSpans'' path loc;
              (rest, spans) =
                append_from (\<lambda>i r. load_resource cd path (loc @ ''.resourceSpans['' @ nat_dec i @ '']'') r) resources
          in (found @ rest, spans))"

definition load_documents :: "codec \<Rightarrow> string \<Rightarrow> json list \<Rightarrow> issues \<times> trace_span list" where
  "load_documents cd path documents =
     append_from (load_batch cd path) documents"

text \<open>
  The issues and the document; \<open>None\<close> inside is text that is not UTF-8. The outer option is the fuel
  of the ancestor walk, one more than the number of spans.
\<close>

definition load_bytes ::
    "codec \<Rightarrow> (string \<Rightarrow> string + json) \<Rightarrow> string \<Rightarrow> string \<Rightarrow> (issues \<times> trace_document option) option" where
  "load_bytes cd pd path bytes =
     (case utf8_error 0 bytes of
        Some e \<Rightarrow> Some (issue (located path ''$'') (''trace must be UTF-8: '' @ utf8_error_text e), None)
      | None \<Rightarrow>
          let (i1, documents) = parse_documents pd path bytes;
              (i2, spans) = load_documents cd path documents;
              i3 = (if spans = [] \<and> (documents \<noteq> [] \<or> blank bytes)
                    then issue (located path ''$'') ''trace contains no CTSC spans'' else [])
          in map_option (\<lambda>i4. (i1 @ i2 @ i3 @ i4, Some \<lparr>doc_spans = spans\<rparr>))
               (validate_semantics (Suc (length spans)) spans))"

section \<open>What the loader reads\<close>

text \<open>
  The CTSC span objects of a list of documents in document order, and the span an object stands for.
\<close>

definition members :: "json_object \<Rightarrow> string \<Rightarrow> json list" where
  "members m key = (case json_field m key of Some (JArray vs) \<Rightarrow> vs | _ \<Rightarrow> [])"

definition member_objects :: "(json_object \<Rightarrow> 'a list) \<Rightarrow> json list \<Rightarrow> 'a list" where
  "member_objects f vs = concat (map (\<lambda>v. case as_object v of None \<Rightarrow> [] | Some m \<Rightarrow> f m) vs)"

definition scope_objects :: "json_object \<Rightarrow> json_object list" where
  "scope_objects scope = member_objects (\<lambda>m. if is_ctsc_span m then [m] else []) (members scope ''spans'')"

definition resource_objects :: "json_object \<Rightarrow> json_object list" where
  "resource_objects m = member_objects scope_objects (members m ''scopeSpans'')"

definition ctsc_objects :: "json list \<Rightarrow> json_object list" where
  "ctsc_objects documents =
     member_objects (\<lambda>batch. member_objects resource_objects (members batch ''resourceSpans'')) documents"

definition hex_member :: "json_object \<Rightarrow> string \<Rightarrow> string \<Rightarrow> bool" where
  "hex_member m key v \<longleftrightarrow> (\<exists>s. json_field m key = Some (JString s) \<and> normalize_hex s = Some v)"

definition absent :: "json_object \<Rightarrow> string \<Rightarrow> bool" where
  "absent m key \<longleftrightarrow> json_field m key \<in> {None, Some JNull}"

definition time_member :: "codec \<Rightarrow> json_object \<Rightarrow> string \<Rightarrow> nat option \<Rightarrow> bool" where
  "time_member cd m key t \<longleftrightarrow>
     absent m key \<and> t = None \<or> (\<exists>v n. json_field m key = Some v \<and> parse_u64 cd v = Some n \<and> t = Some n)"

definition attributes_member :: "codec \<Rightarrow> json_object \<Rightarrow> attributes \<Rightarrow> bool" where
  "attributes_member cd m attrs \<longleftrightarrow>
     absent m ''attributes'' \<and> attrs = [] \<or>
     (\<exists>items. json_field m ''attributes'' = Some (JArray items) \<and> attributes_denote cd items attrs)"

definition event_denotes :: "codec \<Rightarrow> json \<Rightarrow> trace_event \<Rightarrow> bool" where
  "event_denotes cd v e \<longleftrightarrow>
     (\<exists>m. as_object v = Some m \<and> json_field m ''name'' = Some (JString (event_name e)) \<and>
        attributes_member cd m (event_attributes e))"

definition span_denotes :: "codec \<Rightarrow> json_object \<Rightarrow> trace_span \<Rightarrow> bool" where
  "span_denotes cd m s \<longleftrightarrow>
     hex_member m ''traceId'' (trace_id s) \<and> hex_member m ''spanId'' (span_id s) \<and>
     (absent m ''parentSpanId'' \<and> parent_span_id s = [] \<or> hex_member m ''parentSpanId'' (parent_span_id s)) \<and>
     json_field m ''name'' = Some (JString (span_name s)) \<and>
     time_member cd m ''startTimeUnixNano'' (start_time s) \<and> time_member cd m ''endTimeUnixNano'' (end_time s) \<and>
     attributes_member cd m (span_attributes s) \<and>
     list_all2 (event_denotes cd) (members m ''events'') (span_events s) \<and> span_stat s = parse_status m"

subsection \<open>Fields without issues\<close>

lemma array_field_clean: "array_field m key path loc = ([], vs) \<Longrightarrow> vs = members m key"
  by (auto simp: array_field_def members_def split: option.splits json.splits)

lemma string_field_clean: "string_field m key path loc = ([], r) \<longleftrightarrow> (\<exists>s. json_field m key = Some (JString s) \<and> r = Some s)"
  by (auto simp: string_field_def as_str_bind split: option.splits)

lemma id_field_clean: "id_field m key path loc = ([], r) \<longleftrightarrow> (\<exists>v. hex_member m key v \<and> r = Some v)"
proof -
  obtain found s where f: "string_field m key path loc = (found, s)" by fastforce
  show ?thesis
  proof (cases "\<exists>t. json_field m key = Some (JString t)")
    case True
    then obtain t where "json_field m key = Some (JString t)" "found = []" "s = Some t"
      using f by (auto simp: string_field_def)
    then show ?thesis by (auto simp: id_field_def hex_or_issue_def hex_member_def f split: option.splits)
  next
    case False
    then have "found \<noteq> [] \<and> s = None" using f by (auto simp: string_field_def as_str_bind split: option.splits)
    with False show ?thesis by (auto simp: id_field_def hex_or_issue_def hex_member_def f)
  qed
qed

lemma optional_id_clean:
  "optional_id m key path loc = ([], r) \<longleftrightarrow> absent m key \<and> r = None \<or> (\<exists>v. hex_member m key v \<and> r = Some v)"
  by (auto simp: optional_id_def hex_or_issue_def optional_string_def absent_def hex_member_def
      split: option.splits json.splits prod.splits)

lemma time_field_clean: "time_field cd m key path loc = ([], t) \<Longrightarrow> time_member cd m key t"
  by (auto simp: time_field_def time_member_def absent_def split: option.splits if_splits)

lemma parse_attributes_clean:
  "parse_attributes cd (json_field m ''attributes'') path loc = ([], attrs) \<longleftrightarrow> attributes_member cd m attrs"
  by (auto simp: parse_attributes_denotes attributes_member_def absent_def)

lemma attributes_member_wf: "attributes_member cd m attrs \<Longrightarrow> attributes_wf attrs"
  using parse_attributes_clean parse_attributes_wf by blast

lemma append_pushed_all2:
  assumes "\<And>i x r. x \<in> set xs \<Longrightarrow> f i x = ([], r) \<Longrightarrow> \<exists>y. r = Some y \<and> R x y"
    and "append_from (\<lambda>i x. pushed (f i x)) xs = ([], res)"
  shows "list_all2 R xs res"
proof -
  have "list_all2 R [x] ys" if "x \<in> set xs" "pushed (f i x) = ([], ys)" for i x ys
    using that assms(1) [of x i "snd (f i x)"] by (cases "f i x") (auto simp: pushed_def)
  from append_from_all2 [of xs _ R "\<lambda>x. [x]", OF this assms(2)] show ?thesis by simp
qed

lemma parse_event_clean: "parse_event cd path loc v = ([], r) \<Longrightarrow> \<exists>e. r = Some e \<and> event_denotes cd v e"
proof -
  assume p: "parse_event cd path loc v = ([], r)"
  then obtain m where m: "as_object v = Some m" by (auto simp: parse_event_def split: option.splits)
  obtain found name where n: "string_field m ''name'' path loc = (found, name)" by fastforce
  with p m have "found = []" by (auto simp: parse_event_def Let_def split: option.splits prod.splits)
  with n obtain s where s: "json_field m ''name'' = Some (JString s)" "name = Some s"
    using string_field_clean by blast
  obtain out attrs where a: "parse_attributes cd (json_field m ''attributes'') path loc = (out, attrs)" by fastforce
  with p m n s have "out = []" "r = Some \<lparr>event_name = s, event_attributes = attrs\<rparr>"
    by (auto simp: parse_event_def Let_def)
  with a m s show ?thesis by (auto simp: event_denotes_def parse_attributes_clean)
qed

lemma parse_events_clean: "parse_events cd path loc vs = ([], es) \<Longrightarrow> list_all2 (event_denotes cd) vs es"
  unfolding parse_events_def by (rule append_pushed_all2 [rotated]) (auto dest: parse_event_clean)

lemma span_body_clean:
  assumes "span_body cd path loc m resource tr sp par name = ([], s)"
  shows "trace_id s = tr" "span_id s = sp" "parent_span_id s = par" "span_name s = name" "resource_attributes s = resource"
    "time_member cd m ''startTimeUnixNano'' (start_time s)" "time_member cd m ''endTimeUnixNano'' (end_time s)"
    "attributes_member cd m (span_attributes s)" "list_all2 (event_denotes cd) (members m ''events'') (span_events s)"
    "span_stat s = parse_status m"
  using assms array_field_clean [of m "''events''" path loc] parse_events_clean [of cd path loc]
    time_field_clean [of cd m _ path loc]
  by (auto simp: span_body_def Let_def parse_attributes_clean split: prod.splits)

lemma parse_span_clean:
  assumes "parse_span cd path resource (m, loc) = ([], r)"
  shows "\<exists>s. r = Some s \<and> span_denotes cd m s \<and> resource_attributes s = resource"
proof -
  obtain i1 t i2 s i3 p i4 n where parts: "id_field m ''traceId'' path loc = (i1, t)" "id_field m ''spanId'' path loc = (i2, s)"
    "optional_id m ''parentSpanId'' path loc = (i3, p)" "string_field m ''name'' path loc = (i4, n)"
    by (metis surj_pair)
  from assms have e1: "i1 = []" by (auto simp: parse_span_def Let_def parts(1) split: option.splits prod.splits)
  with parts(1) obtain t' where t: "t = Some t'" "hex_member m ''traceId'' t'" using id_field_clean by blast
  from assms have e2: "i2 = []" by (auto simp: parse_span_def Let_def parts(1,2) t split: option.splits prod.splits)
  with parts(2) obtain s' where s: "s = Some s'" "hex_member m ''spanId'' s'" using id_field_clean by blast
  from assms have e3: "i3 = []" "i4 = []" by (auto simp: parse_span_def Let_def parts t s split: option.splits prod.splits)
  then have p: "absent m ''parentSpanId'' \<and> p = None \<or> (\<exists>v. hex_member m ''parentSpanId'' v \<and> p = Some v)"
    using parts(3) optional_id_clean by blast
  from e3 obtain n' where n: "n = Some n'" "json_field m ''name'' = Some (JString n')"
    using parts(4) string_field_clean by blast
  from assms obtain z where "span_body cd path loc m resource t' s' (case p of None \<Rightarrow> [] | Some v \<Rightarrow> v) n' = ([], z)" "r = Some z"
    by (auto simp: parse_span_def Let_def parts t s n split: prod.splits)
  with span_body_clean [OF this(1)] t s p n show ?thesis
    by (auto simp: span_denotes_def)
qed

subsection \<open>The walk without issues\<close>

lemma all2_fst: "list_all2 (\<lambda>m p. m = fst p) ms raw \<longleftrightarrow> ms = map fst raw"
  by (induction ms raw rule: list_induct2') auto

lemma scope_span_list_clean:
  assumes "scope_span_list path scope_loc scope = ([], raw)"
  shows "map fst raw = scope_objects scope"
proof -
  obtain vs where vs: "array_field scope ''spans'' path scope_loc = ([], vs)"
    and raw: "append_from (\<lambda>i v. let loc = scope_loc @ ''.spans['' @ nat_dec i @ '']'' in
       case as_object v of None \<Rightarrow> (issue (located path loc) ''span must be an object'', [])
       | Some span \<Rightarrow> ([], if is_ctsc_span span then [(span, loc)] else [])) vs = ([], raw)"
    using assms by (auto simp: scope_span_list_def split: prod.splits)
  have "list_all2 (\<lambda>m p. m = fst p)
      (concat (map (\<lambda>v. case as_object v of None \<Rightarrow> [] | Some m \<Rightarrow> if is_ctsc_span m then [m] else []) vs)) raw"
    by (rule append_from_all2 [OF _ raw]) (auto simp: Let_def split: option.splits if_splits)
  then show ?thesis
    by (simp add: array_field_clean [OF vs] scope_objects_def member_objects_def all2_fst)
qed

lemma resource_span_list_clean:
  assumes "resource_span_list cd path loc m = ([], raw)"
  shows "map fst raw = resource_objects m"
proof -
  obtain vs where vs: "array_field m ''scopeSpans'' path loc = ([], vs)"
    and raw: "append_from (\<lambda>i v. load_scope cd path (loc @ ''.scopeSpans['' @ nat_dec i @ '']'') v) vs = ([], raw)"
    using assms by (auto simp: resource_span_list_def split: prod.splits)
  have scope: "list_all2 (\<lambda>m p. m = fst p) (case as_object v of None \<Rightarrow> [] | Some m \<Rightarrow> scope_objects m) ys"
    if "load_scope cd path l v = ([], ys)" for l v ys
  proof -
    from that obtain sc where sc: "as_object v = Some sc" by (auto simp: load_scope_def split: option.splits)
    obtain found raw' where sl: "scope_span_list path l sc = (found, raw')" by fastforce
    with that sc have "found = []" "raw' = ys" by (auto simp: load_scope_def Let_def split: if_splits)
    with scope_span_list_clean [OF sl [unfolded this]] show ?thesis
      by (simp add: sc all2_fst)
  qed
  have "list_all2 (\<lambda>m p. m = fst p) (concat (map (\<lambda>v. case as_object v of None \<Rightarrow> [] | Some m \<Rightarrow> scope_objects m) vs)) raw"
    by (rule append_from_all2 [OF _ raw]) (rule scope)
  then show ?thesis
    by (simp add: array_field_clean [OF vs] resource_objects_def member_objects_def all2_fst)
qed

definition resource_conforms :: "attributes \<Rightarrow> bool" where
  "resource_conforms attrs \<longleftrightarrow>
     attributes_wf attrs \<and> map_of attrs ''conformance.version'' = Some (AString ctsc_version) \<and>
     (\<forall>key\<in>set required_attrs. \<exists>v. map_of attrs key = Some (AString v)) \<and>
     (\<forall>key\<in>fst ` set attrs. starts_with ''conformance.'' key \<longrightarrow> key \<in> set (required_attrs @ registry_attrs))"

lemma require_str_clean: "require_str attrs key loc = ([], r) \<Longrightarrow> \<exists>v. map_of attrs key = Some (AString v) \<and> r = Some v"
  by (auto simp: require_str_def split: option.splits any_value.splits)

lemma parse_resource_clean:
  assumes "parse_resource cd path loc m = ([], attrs)"
  shows "resource_conforms attrs"
proof -
  from assms have check: "check_resource path loc attrs = []" and wf: "attributes_wf attrs"
    using parse_attributes_wf by (auto simp: parse_resource_def Let_def split: prod.splits)
  have str: "\<exists>v. map_of attrs key = Some (AString v) \<and>
      (key = ''conformance.version'' \<longrightarrow> v = ctsc_version)" if "key \<in> set required_attrs" for key
  proof -
    obtain found actual where r: "require_str attrs key loc = (found, actual)" by fastforce
    with check that have "found = []" "key = ''conformance.version'' \<longrightarrow> actual = None \<or> actual = Some ctsc_version"
      by (auto simp: check_resource_def for_each_Nil_iff Let_def split: if_splits)
    with require_str_clean r show ?thesis by fastforce
  qed
  have "''conformance.version'' \<in> set required_attrs" by (simp add: required_attrs_def)
  with str have "map_of attrs ''conformance.version'' = Some (AString ctsc_version)" by blast
  moreover have "\<forall>key\<in>fst ` set attrs. starts_with ''conformance.'' key \<longrightarrow> key \<in> set (required_attrs @ registry_attrs)"
    using check by (auto simp: check_resource_def reject_attrs_def for_each_Nil_iff split: if_splits)
  ultimately show ?thesis using wf str unfolding resource_conforms_def by blast
qed

definition loaded_span :: "codec \<Rightarrow> json_object \<Rightarrow> trace_span \<Rightarrow> bool" where
  "loaded_span cd m s \<longleftrightarrow> span_denotes cd m s \<and> resource_conforms (resource_attributes s)"

lemma load_resource_clean:
  assumes "load_resource cd path loc v = ([], spans)"
  shows "list_all2 (loaded_span cd) (case as_object v of None \<Rightarrow> [] | Some m \<Rightarrow> resource_objects m) spans"
proof -
  from assms obtain m where m: "as_object v = Some m" by (auto simp: load_resource_def split: option.splits)
  obtain found raw where raw: "resource_span_list cd path loc m = (found, raw)" by fastforce
  with assms m have "found = []" by (auto simp: load_resource_def Let_def split: if_splits prod.splits)
  note obj = resource_span_list_clean [OF raw [unfolded this]]
  show ?thesis
  proof (cases "raw = []")
    case True
    with assms m raw obj show ?thesis by (simp add: load_resource_def)
  next
    case False
    with assms m raw obtain attrs where res: "parse_resource cd path (loc @ ''.resource'') m = ([], attrs)"
      and sp: "parse_spans cd path attrs raw = ([], spans)"
      by (auto simp: load_resource_def split: prod.splits)
    have "list_all2 (\<lambda>p s. loaded_span cd (fst p) s) raw spans"
    proof (rule append_pushed_all2 [OF _ sp [unfolded parse_spans_def]])
      fix i x r assume "parse_span cd path attrs x = ([], r)"
      then show "\<exists>y. r = Some y \<and> loaded_span cd (fst x) y"
        using parse_span_clean [of cd path attrs "fst x" "snd x" r] parse_resource_clean [OF res] by (auto simp: loaded_span_def)
    qed
    then have "list_all2 (loaded_span cd) (map fst raw) spans" by (simp add: list_all2_map1)
    with obj m show ?thesis by simp
  qed
qed

lemma load_documents_clean:
  assumes "load_documents cd path documents = ([], spans)"
  shows "list_all2 (loaded_span cd) (ctsc_objects documents) spans"
  unfolding ctsc_objects_def member_objects_def [of _ documents]
proof (rule append_from_all2 [OF _ assms [unfolded load_documents_def]])
  fix i v ys assume l: "load_batch cd path i v = ([], ys)"
  then obtain b where b: "as_object v = Some b" by (auto simp: load_batch_def Let_def split: option.splits)
  with l obtain vs where vs: "array_field b ''resourceSpans'' path (''$['' @ nat_dec i @ '']'') = ([], vs)"
    and more: "append_from (\<lambda>k r. load_resource cd path ((''$['' @ nat_dec i @ '']'') @ ''.resourceSpans['' @ nat_dec k @ '']'') r) vs = ([], ys)"
    by (auto simp: load_batch_def Let_def split: prod.splits)
  have "list_all2 (loaded_span cd) (concat (map (\<lambda>v. case as_object v of None \<Rightarrow> [] | Some m \<Rightarrow> resource_objects m) vs)) ys"
    by (rule append_from_all2 [OF _ more]) (rule load_resource_clean)
  then show "list_all2 (loaded_span cd)
      (case as_object v of None \<Rightarrow> [] | Some batch \<Rightarrow> member_objects resource_objects (members batch ''resourceSpans'')) ys"
    by (simp add: b array_field_clean [OF vs] member_objects_def)
qed

end
