(* ===== verification/Ctsc_Encoding.thy ===== *)
theory Ctsc_Encoding
  imports Ctsc_Loading
begin

text \<open>
  Capture encoding (\<open>rust/crates/specgate-ctsc/src/capture.rs\<close>, \<open>capture/encoding.rs\<close> and the wire types
  of \<open>capture/otlp.rs\<close>): completed scenarios become one OTLP document with deterministic identifiers
  and timestamps. Arithmetic on 64-bit integers is checked as in the source; an \<open>expect\<close> that fails is
  the error \<open>Panicked\<close>. The result carries the JSON value the source writes as compact text.
\<close>

type_synonym u64 = "64 word"

section \<open>Captured evidence\<close>

datatype capture_value =
    VString string
  | VInteger i64
  | VUnsigned u64
  | VFloat f64_bits
  | VBool bool
  | VList "capture_value list"
  | VMap "(string \<times> capture_value) list"
  | VSet "capture_value list"

record boundary =
  boundary_id :: string
  boundary_parent :: "string option"
  boundary_start :: i64
  boundary_end :: i64
  boundary_status :: span_status

record observation =
  obs_order :: u64
  obs_time :: i64
  obs_name :: string
  obs_value :: capture_value

datatype completion =
    CompletedResult u64 i64 capture_value
  | CompletedEmpty u64 i64
  | CompletedError u64 i64 string "capture_value option"
  | CompletedFault u64 i64 string string string \<comment> \<open>type, message, observer\<close>
  | CompletedAbandoned u64 i64

record operation =
  operation_order :: u64
  operation_id :: string
  operation_parent :: string
  component_id :: string
  operation_name :: string
  operation_start :: i64
  operation_end :: i64
  operation_status :: span_status
  inputs :: "(string \<times> capture_value) list"
  observations :: "observation list"
  completed :: "completion option"

record capture =
  capture_trace :: string
  scenario_name :: string
  run_boundary :: boundary
  scenario :: boundary
  operations :: "operation list"

record metadata =
  tool_version :: string
  target_name :: string
  target_language :: string
  meta_registry_id :: string
  meta_registry_version :: string
  meta_registry_digest :: string

datatype enc_error = EncodeError string | Panicked string

text \<open>The builders reject reversed intervals and duplicate operation identifiers.\<close>

definition build_operation :: "operation \<Rightarrow> enc_error + operation" where
  "build_operation op =
     (if sint (operation_end op) < sint (operation_start op)
      then Inl (EncodeError (''operation end timestamp '' @ int_dec (sint (operation_end op)) @
             '' precedes start timestamp '' @ int_dec (sint (operation_start op))))
      else Inr op)"

definition build_capture :: "capture \<Rightarrow> enc_error + capture" where
  "build_capture c =
     (if sint (boundary_end (run_boundary c)) < sint (boundary_start (run_boundary c))
      then Inl (EncodeError (''capture run end '' @ int_dec (sint (boundary_end (run_boundary c))) @
             '' precedes start '' @ int_dec (sint (boundary_start (run_boundary c)))))
      else if sint (boundary_end (scenario c)) < sint (boundary_start (scenario c))
      then Inl (EncodeError (''capture scenario end '' @ int_dec (sint (boundary_end (scenario c))) @
             '' precedes start '' @ int_dec (sint (boundary_start (scenario c)))))
      else if card (set (map operation_id (operations c))) \<noteq> length (operations c)
      then Inl (EncodeError ''capture operation span IDs must be unique'')
      else Inr c)"

section \<open>Wire values\<close>

datatype wire_double = DNumber f64_bits | DSymbol string

datatype wire_value =
    WString string
  | WBool bool
  | WInt string
  | WDouble wire_double
  | WArray "wire_value list"
  | WKvlist "(string \<times> wire_value) list"

type_synonym key_value = "string \<times> wire_value"

record wire_event =
  wire_order :: u64
  wire_time :: string
  wire_event_name :: string
  wire_event_attributes :: "key_value list"

record wire_span =
  wire_trace :: string
  wire_name :: string
  wire_id :: string
  wire_parent :: "string option"
  wire_kind :: u64
  wire_start :: string
  wire_end :: string
  wire_attributes :: "key_value list"
  wire_events :: "wire_event list"
  wire_status :: u64

record wire_document =
  wire_resource :: "key_value list"
  wire_scope_version :: string
  wire_spans :: "wire_span list"

definition f64_is_nan :: "f64_bits \<Rightarrow> bool" where
  "f64_is_nan b \<longleftrightarrow> f64_exp b = 2047 \<and> f64_man b \<noteq> 0"

definition f64_is_infinite :: "f64_bits \<Rightarrow> bool" where
  "f64_is_infinite b \<longleftrightarrow> f64_exp b = 2047 \<and> f64_man b = 0"

definition double_value :: "f64_bits \<Rightarrow> wire_double" where
  "double_value b =
     (if f64_is_nan b then DSymbol ''NaN''
      else if f64_is_infinite b \<and> f64_sign b = 0 then DSymbol ''Infinity''
      else if f64_is_infinite b then DSymbol ''-Infinity''
      else DNumber b)"

fun any_value_of :: "capture_value \<Rightarrow> wire_value" where
  "any_value_of (VString s) = WString s"
| "any_value_of (VInteger i) = WInt (int_dec (sint i))"
| "any_value_of (VUnsigned n) = WString (int_dec (uint n))"
| "any_value_of (VFloat b) = WDouble (double_value b)"
| "any_value_of (VBool b) = WBool b"
| "any_value_of (VList vs) = WArray (map any_value_of vs)"
| "any_value_of (VSet vs) = WArray (map any_value_of vs)"
| "any_value_of (VMap kvs) = WKvlist (map (\<lambda>(k, v). (k, any_value_of v)) kvs)"

definition string_attribute :: "string \<Rightarrow> string \<Rightarrow> key_value" where
  "string_attribute key v = (key, WString v)"

definition integer_attribute :: "string \<Rightarrow> i64 \<Rightarrow> key_value" where
  "integer_attribute key v = (key, WInt (int_dec (sint v)))"

section \<open>Checked arithmetic and wire constraints\<close>

fun map_result :: "('a \<Rightarrow> 'e + 'b) \<Rightarrow> 'a list \<Rightarrow> 'e + 'b list" where
  "map_result f [] = Inr []"
| "map_result f (x # xs) = and_then (f x) (\<lambda>y. and_then (map_result f xs) (\<lambda>ys. Inr (y # ys)))"

definition i64_checked :: "int \<Rightarrow> i64 option" where
  "i64_checked i = (if - (2 ^ 63) \<le> i \<and> i < 2 ^ 63 then Some (word_of_int i) else None)"

definition or_error :: "string \<Rightarrow> 'a option \<Rightarrow> enc_error + 'a" where
  "or_error msg r = (case r of None \<Rightarrow> Inl (EncodeError msg) | Some x \<Rightarrow> Inr x)"

definition wire_panic :: enc_error where
  "wire_panic = Panicked ''capture values must satisfy OTLP wire constraints''"

definition offset_time :: "i64 \<Rightarrow> i64 \<Rightarrow> enc_error + i64" where
  "offset_time v offset = or_error ''CTSC logical timestamp overflow'' (i64_checked (sint v + sint offset))"

definition next_id :: "u64 \<Rightarrow> enc_error + u64" where
  "next_id n = (if uint n + 1 < 2 ^ 64 then Inr (n + 1) else Inl (EncodeError ''CTSC span ID sequence overflow''))"

definition hex_char :: "int \<Rightarrow> char" where
  "hex_char k = char_of (if k < 10 then 48 + nat k else 87 + nat k)"

fun hex_pad :: "nat \<Rightarrow> int \<Rightarrow> string" where
  "hex_pad 0 n = []"
| "hex_pad (Suc w) n = hex_pad w (n div 16) @ [hex_char (n mod 16)]"

definition hex_wire :: "nat \<Rightarrow> string \<Rightarrow> enc_error + string" where
  "hex_wire width s =
     (if length s = width \<and> list_all is_hex_digit s \<and> list_ex (\<lambda>c. c \<noteq> CHR ''0'') s then Inr s else Inl wire_panic)"

definition checked_id :: "u64 \<Rightarrow> enc_error + string" where
  "checked_id n =
     (if n = 0 then Inl (Panicked ''CTSC span ID sequence must remain nonzero'') else hex_wire 16 (hex_pad 16 (uint n)))"

definition unix_nanos :: "i64 \<Rightarrow> enc_error + string" where
  "unix_nanos t =
     (let s = int_dec (sint t) in
      case parse_unsigned 64 s of None \<Rightarrow> Inl wire_panic | Some _ \<Rightarrow> Inr s)"

definition offset_nanos :: "i64 \<Rightarrow> i64 \<Rightarrow> enc_error + string" where
  "offset_nanos v offset = and_then (offset_time v offset) unix_nanos"

definition status_code :: "span_status \<Rightarrow> u64" where
  "status_code s = (case s of Unset \<Rightarrow> 0 | Ok \<Rightarrow> 1 | Error \<Rightarrow> 2)"

section \<open>Operation spans\<close>

definition observation_event :: "i64 \<Rightarrow> observation \<Rightarrow> enc_error + wire_event" where
  "observation_event offset obs =
     and_then (offset_nanos (obs_time obs) offset) (\<lambda>t.
       Inr \<lparr>wire_order = obs_order obs, wire_time = t, wire_event_name = ''conformance.observation'',
            wire_event_attributes = [string_attribute ''conformance.observation.name'' (obs_name obs),
              (''conformance.observation.value'', any_value_of (obs_value obs))]\<rparr>)"

definition completion_parts :: "completion \<Rightarrow> u64 \<times> i64 \<times> string \<times> key_value list" where
  "completion_parts c =
     (case c of
        CompletedResult order t v \<Rightarrow> (order, t, ''conformance.result'', [(''conformance.result.value'', any_value_of v)])
      | CompletedEmpty order t \<Rightarrow> (order, t, ''conformance.empty'', [])
      | CompletedError order t name v \<Rightarrow>
          (order, t, ''conformance.error'', string_attribute ''conformance.error.name'' name #
             (case v of None \<Rightarrow> [] | Some x \<Rightarrow> [(''conformance.error.value'', any_value_of x)]))
      | CompletedFault order t kind message observer \<Rightarrow>
          (order, t, ''conformance.fault'', [string_attribute ''conformance.fault.type'' kind,
             string_attribute ''conformance.fault.message'' message, string_attribute ''conformance.fault.observer'' observer])
      | CompletedAbandoned order t \<Rightarrow> (order, t, ''conformance.abandoned'', []))"

definition completion_event :: "i64 \<Rightarrow> completion \<Rightarrow> enc_error + wire_event" where
  "completion_event offset c =
     (case completion_parts c of (order, t, name, attrs) \<Rightarrow>
        and_then (offset_nanos t offset) (\<lambda>s.
          Inr \<lparr>wire_order = order, wire_time = s, wire_event_name = name, wire_event_attributes = attrs\<rparr>))"

record placement =
  place_id :: string
  place_parent :: string
  place_offset :: i64

definition operation_events :: "i64 \<Rightarrow> operation \<Rightarrow> enc_error + wire_event list" where
  "operation_events offset op =
     and_then (map_result (observation_event offset) (observations op)) (\<lambda>events.
     and_then (map_result (completion_event offset) (case completed op of None \<Rightarrow> [] | Some c \<Rightarrow> [c])) (\<lambda>more.
       Inr (sort_key wire_order (events @ more))))"

definition operation_attributes :: "operation \<Rightarrow> key_value list" where
  "operation_attributes op =
     [string_attribute ''conformance.component.id'' (component_id op),
      string_attribute ''conformance.operation.name'' (operation_name op),
      (''conformance.operation.inputs'', WKvlist (map (\<lambda>(k, v). (k, any_value_of v)) (inputs op)))]"

definition operation_span :: "string \<Rightarrow> operation \<Rightarrow> placement \<Rightarrow> enc_error + wire_span" where
  "operation_span trace op place =
     and_then (operation_events (place_offset place) op) (\<lambda>events.
     and_then (hex_wire 32 trace) (\<lambda>tid.
     and_then (offset_nanos (operation_start op) (place_offset place)) (\<lambda>s.
     and_then (offset_nanos (operation_end op) (place_offset place)) (\<lambda>e.
       Inr \<lparr>wire_trace = tid, wire_name = ''conformance.operation'', wire_id = place_id place,
            wire_parent = Some (place_parent place), wire_kind = 1, wire_start = s, wire_end = e,
            wire_attributes = operation_attributes op, wire_events = events,
            wire_status = status_code (operation_status op)\<rparr>))))"

section \<open>The encoder\<close>

record identity =
  identity_trace :: string
  first_id :: u64
  identity_run :: string

definition reference_identity :: identity where
  "reference_identity = \<lparr>identity_trace = ''00000000000000000000000000000001'', first_id = 1, identity_run = ''specgate.capture''\<rparr>"

definition candidate_identity :: identity where
  "candidate_identity = \<lparr>identity_trace = ''00000000000000000000000000000002'', first_id = 0x8000000000000001, identity_run = ''specgate.replay''\<rparr>"

type_synonym id_map = "(string \<times> string) list"

fun allocate_ids :: "string \<Rightarrow> u64 \<Rightarrow> id_map \<Rightarrow> operation list \<Rightarrow> enc_error + (u64 \<times> id_map)" where
  "allocate_ids name n ids [] = Inr (n, ids)"
| "allocate_ids name n ids (op # ops) =
     and_then (checked_id n) (\<lambda>id.
     and_then (next_id n) (\<lambda>n'.
       if map_of ids (operation_id op) \<noteq> None
       then Inl (EncodeError (''native scenario '' @ ticked name @ '' contains duplicate operation span ID '' @ ticked (operation_id op)))
       else allocate_ids name n' (bt_insert (operation_id op) id ids) ops))"

definition place_operation :: "capture \<Rightarrow> string \<Rightarrow> id_map \<Rightarrow> string \<Rightarrow> i64 \<Rightarrow> operation \<Rightarrow> enc_error + wire_span" where
  "place_operation c scenario_id ids trace offset op =
     (case map_of ids (operation_id op) of
        None \<Rightarrow> Inl (Panicked ''every operation received a generated span ID in the preceding loop'')
      | Some own \<Rightarrow>
          and_then
            (if operation_parent op = boundary_id (scenario c) then Inr scenario_id
             else or_error (''native scenario '' @ ticked (scenario_name c) @ '' operation '' @ ticked (operation_name op) @
                     '' has unresolved parent span '' @ ticked (operation_parent op))
                    (map_of ids (operation_parent op)))
            (\<lambda>parent. operation_span trace op \<lparr>place_id = own, place_parent = parent, place_offset = offset\<rparr>))"

definition scenario_span :: "string \<Rightarrow> string \<Rightarrow> string \<Rightarrow> nat \<Rightarrow> capture \<Rightarrow> i64 \<Rightarrow> i64 \<Rightarrow> enc_error + wire_span" where
  "scenario_span trace run_id scenario_id index c starts ends =
     and_then (or_error ''CTSC scenario index exceeds i64'' (i64_checked (int index))) (\<lambda>idx.
     and_then (hex_wire 32 trace) (\<lambda>tid.
     and_then (unix_nanos starts) (\<lambda>s.
     and_then (unix_nanos ends) (\<lambda>e.
       Inr \<lparr>wire_trace = tid, wire_name = ''conformance.scenario'', wire_id = scenario_id, wire_parent = Some run_id,
            wire_kind = 1, wire_start = s, wire_end = e,
            wire_attributes = [string_attribute ''conformance.scenario.name'' (scenario_name c),
              integer_attribute ''conformance.scenario.index'' idx],
            wire_events = [], wire_status = status_code (boundary_status (scenario c))\<rparr>))))"

text \<open>One scenario: its spans, the next free identifier and the next start time.\<close>

definition encode_scenario ::
    "string \<Rightarrow> string \<Rightarrow> u64 \<Rightarrow> i64 \<Rightarrow> nat \<Rightarrow> capture \<Rightarrow> enc_error + (wire_span list \<times> u64 \<times> i64)" where
  "encode_scenario trace run_id n starts index c =
     and_then (checked_id n) (\<lambda>scenario_id.
     and_then (next_id n) (\<lambda>n1.
     and_then (allocate_ids (scenario_name c) n1 [] (operations c)) (\<lambda>(n2, ids).
     and_then (or_error ''CTSC scenario timestamp offset overflow''
                (i64_checked (sint starts - sint (boundary_start (scenario c))))) (\<lambda>offset.
     and_then (offset_time (boundary_end (scenario c)) offset) (\<lambda>ends.
     and_then (scenario_span trace run_id scenario_id index c starts ends) (\<lambda>span.
     and_then (map_result (place_operation c scenario_id ids trace offset) (operations c)) (\<lambda>spans.
     and_then (or_error ''CTSC logical timestamp overflow'' (i64_checked (sint ends + 1))) (\<lambda>next_time.
       Inr (span # spans, n2, next_time)))))))))"

fun encode_scenarios ::
    "string \<Rightarrow> string \<Rightarrow> u64 \<Rightarrow> i64 \<Rightarrow> nat \<Rightarrow> capture list \<Rightarrow> enc_error + (wire_span list \<times> i64)" where
  "encode_scenarios trace run_id n starts index [] = Inr ([], starts)"
| "encode_scenarios trace run_id n starts index (c # cs) =
     and_then (encode_scenario trace run_id n starts index c) (\<lambda>(spans, n', next_time).
     and_then (encode_scenarios trace run_id n' next_time (Suc index) cs) (\<lambda>(more, end_time).
       Inr (spans @ more, end_time)))"

definition resource_attributes_of :: "metadata \<Rightarrow> key_value list" where
  "resource_attributes_of m =
     [string_attribute ''conformance.version'' ctsc_version,
      string_attribute ''conformance.tool.name'' ''specgate'',
      string_attribute ''conformance.tool.version'' (tool_version m),
      string_attribute ''conformance.target.name'' (target_name m),
      string_attribute ''conformance.target.language'' (target_language m),
      string_attribute ''conformance.registry.id'' (meta_registry_id m),
      string_attribute ''conformance.registry.version'' (meta_registry_version m),
      string_attribute ''conformance.registry.digest'' (meta_registry_digest m)]"

definition encode_document :: "capture list \<Rightarrow> metadata \<Rightarrow> identity \<Rightarrow> enc_error + wire_document" where
  "encode_document captures m idn =
     (if captures = [] then Inl (EncodeError ''cannot encode a CTSC run without captured scenarios'')
      else
        and_then (hex_wire 16 (hex_pad 16 (uint (first_id idn)))) (\<lambda>run_id.
        and_then (next_id (first_id idn)) (\<lambda>n.
        and_then (encode_scenarios (identity_trace idn) run_id n 2 0 captures) (\<lambda>(spans, run_end).
        and_then (hex_wire 32 (identity_trace idn)) (\<lambda>tid.
        and_then (unix_nanos 1) (\<lambda>s.
        and_then (unix_nanos run_end) (\<lambda>e.
          Inr \<lparr>wire_resource = resource_attributes_of m, wire_scope_version = tool_version m,
            wire_spans = \<lparr>wire_trace = tid, wire_name = ''conformance.run'', wire_id = run_id, wire_parent = None,
               wire_kind = 1, wire_start = s, wire_end = e,
               wire_attributes = [string_attribute ''conformance.run.id'' (identity_run idn)], wire_events = [],
               wire_status = status_code (if \<exists>c\<in>set captures. boundary_status (scenario c) = Error then Error else Ok)\<rparr> # spans\<rparr>)))))))"

section \<open>The JSON document\<close>

fun wire_json :: "wire_value \<Rightarrow> json" where
  "wire_json (WString s) = JObject [(''stringValue'', JString s)]"
| "wire_json (WBool b) = JObject [(''boolValue'', JBool b)]"
| "wire_json (WInt s) = JObject [(''intValue'', JString s)]"
| "wire_json (WDouble (DNumber b)) = JObject [(''doubleValue'', JNumber (Float b))]"
| "wire_json (WDouble (DSymbol s)) = JObject [(''doubleValue'', JString s)]"
| "wire_json (WArray vs) = JObject [(''arrayValue'', JObject [(''values'', JArray (map wire_json vs))])]"
| "wire_json (WKvlist kvs) =
     JObject [(''kvlistValue'', JObject (if kvs = [] then []
       else [(''values'', JArray (map (\<lambda>(k, v). JObject [(''key'', JString k), (''value'', wire_json v)]) kvs))]))]"

definition key_value_json :: "key_value \<Rightarrow> json" where
  "key_value_json kv = JObject [(''key'', JString (fst kv)), (''value'', wire_json (snd kv))]"

definition event_json :: "wire_event \<Rightarrow> json" where
  "event_json e =
     JObject [(''attributes'', JArray (map key_value_json (wire_event_attributes e))), (''name'', JString (wire_event_name e)),
       (''timeUnixNano'', JString (wire_time e))]"

definition span_object :: "wire_span \<Rightarrow> json_object" where
  "span_object s =
     [(''attributes'', JArray (map key_value_json (wire_attributes s))), (''endTimeUnixNano'', JString (wire_end s))] @
     (if wire_events s = [] then [] else [(''events'', JArray (map event_json (wire_events s)))]) @
     [(''kind'', JNumber (PosInt (wire_kind s))), (''name'', JString (wire_name s))] @
     (case wire_parent s of None \<Rightarrow> [] | Some p \<Rightarrow> [(''parentSpanId'', JString p)]) @
     [(''spanId'', JString (wire_id s)), (''startTimeUnixNano'', JString (wire_start s)),
      (''status'', JObject [(''code'', JNumber (PosInt (wire_status s)))]), (''traceId'', JString (wire_trace s))]"

definition schema_url :: string where
  "schema_url = ''https://specgate.dev/ctsc/schema/'' @ ctsc_version"

definition document_json :: "wire_document \<Rightarrow> json" where
  "document_json d =
     JObject [(''resourceSpans'', JArray [JObject
       [(''resource'', JObject [(''attributes'', JArray (map key_value_json (wire_resource d)))]),
        (''schemaUrl'', JString schema_url),
        (''scopeSpans'', JArray [JObject
          [(''schemaUrl'', JString schema_url),
           (''scope'', JObject [(''name'', JString ''specgate.ctsc''), (''version'', JString (wire_scope_version d))]),
           (''spans'', JArray (map (JObject \<circ> span_object) (wire_spans d)))]])]])]"

record encoding =
  span_count :: int
  otlp_json :: json

text \<open>\<open>operation_count + captures.len() + 1\<close> in \<open>usize\<close>, then in \<open>i32\<close>.\<close>

definition encode :: "capture list \<Rightarrow> metadata \<Rightarrow> identity \<Rightarrow> enc_error + encoding" where
  "encode captures m idn =
     and_then (encode_document captures m idn) (\<lambda>d.
       let count = int (sum_list (map (\<lambda>c. length (operations c)) captures)) + int (length captures) + 1
       in if count \<ge> 2 ^ 64 then Inl (EncodeError ''native CTSC span count exceeds usize'')
          else if count \<ge> 2 ^ 31 then Inl (EncodeError ''native CTSC span count exceeds i32'')
          else Inr \<lparr>span_count = count, otlp_json = document_json d\<rparr>)"

definition encode_reference :: "capture list \<Rightarrow> metadata \<Rightarrow> enc_error + encoding" where
  "encode_reference captures m = encode captures m reference_identity"

definition encode_candidate :: "capture list \<Rightarrow> metadata \<Rightarrow> enc_error + encoding" where
  "encode_candidate captures m = encode captures m candidate_identity"

end
