(* ===== verification/Ctsc_Encoded.thy ===== *)
theory Ctsc_Encoded
  imports Ctsc_Encoding
begin

text \<open>
  What the encoder writes, the loader reads: the JSON of a captured value denotes that value, and the
  document of an encoded run is loaded without issues into exactly the spans the encoder laid out.
\<close>

section \<open>Captured values\<close>

definition f64_class :: "f64_bits \<Rightarrow> f64_value" where
  "f64_class b =
     (if f64_is_nan b then NaN
      else if f64_is_infinite b then (if f64_sign b = 0 then Infinity else NegativeInfinity)
      else Finite b)"

fun captured_value :: "capture_value \<Rightarrow> any_value" where
  "captured_value (VString s) = AString s"
| "captured_value (VInteger i) = AInt i"
| "captured_value (VUnsigned n) = AString (int_dec (uint n))"
| "captured_value (VFloat b) = ADouble (f64_class b)"
| "captured_value (VBool b) = ABool b"
| "captured_value (VList vs) = AArray (map captured_value vs)"
| "captured_value (VSet vs) = AArray (map captured_value vs)"
| "captured_value (VMap kvs) = AKvList (map (\<lambda>(k, v). (k, captured_value v)) kvs)"

text \<open>Every map is a \<open>BTreeMap\<close>.\<close>

fun value_ok :: "capture_value \<Rightarrow> bool" where
  "value_ok (VList vs) \<longleftrightarrow> (\<forall>v\<in>set vs. value_ok v)"
| "value_ok (VSet vs) \<longleftrightarrow> (\<forall>v\<in>set vs. value_ok v)"
| "value_ok (VMap kvs) \<longleftrightarrow> bt_wf kvs \<and> (\<forall>kv\<in>set kvs. value_ok (snd kv))"
| "value_ok _ \<longleftrightarrow> True"

lemma bt_collect_sorted: "bt_wf kvs \<Longrightarrow> bt_collect kvs = kvs"
proof (rule sorted_assoc_ext)
  assume wf: "bt_wf kvs"
  then show "sorted_wrt (<) (map fst kvs)" by (simp add: bt_wf_def)
  have "distinct (map fst (rev kvs))" using bt_wf_distinct [OF wf] by (simp add: rev_map [symmetric])
  then show "map_of (bt_collect kvs) = map_of kvs"
    using bt_wf_distinct [OF wf] by (simp add: map_of_bt_collect map_of_inject_set)
qed (simp add: bt_wf_collect [unfolded bt_wf_def])

lemma selects_single:
  "selects (JObject [(''stringValue'', raw)]) ''stringValue'' raw"
  "selects (JObject [(''boolValue'', raw)]) ''boolValue'' raw"
  "selects (JObject [(''intValue'', raw)]) ''intValue'' raw"
  "selects (JObject [(''doubleValue'', raw)]) ''doubleValue'' raw"
  "selects (JObject [(''arrayValue'', raw)]) ''arrayValue'' raw"
  "selects (JObject [(''kvlistValue'', raw)]) ''kvlistValue'' raw"
  by (simp_all add: selects_def selected_value_def value_keys_def json_field_def alternates_def)

lemma entry_of_json: "entry_of (JObject [(''key'', JString k), (''value'', v)]) k v"
  by (simp add: entry_of_def json_field_def)

lemma items_in_values: "items_in (JObject [(''values'', JArray items)]) items"
  by (simp add: items_in_def json_field_def)

lemma f64_exp_bound: "f64_exp b < 2048"
  by (simp add: f64_exp_def)

lemma finite_class: "\<not> f64_is_nan b \<Longrightarrow> \<not> f64_is_infinite b \<Longrightarrow> f64_is_finite b"
  using f64_exp_bound [of b] by (auto simp: f64_is_nan_def f64_is_infinite_def f64_is_finite_def)

lemma parse_i64_int_dec: "parse_i64 cd (JString (int_dec (sint i))) = Some i"
  using sint_bounds [of i] parse_decimal_int_dec [of "sint i"] by (simp add: parse_i64_def parse_integer_def)

text \<open>The attribute value a wire value stands for, and the wire values the encoder writes.\<close>

fun wire_meaning :: "wire_value \<Rightarrow> any_value" where
  "wire_meaning (WString s) = AString s"
| "wire_meaning (WBool b) = ABool b"
| "wire_meaning (WInt s) = AInt (word_of_int (the (parse_decimal s)))"
| "wire_meaning (WDouble (DNumber b)) = ADouble (Finite b)"
| "wire_meaning (WDouble (DSymbol s)) =
     ADouble (if s = ''NaN'' then NaN else if s = ''Infinity'' then Infinity else NegativeInfinity)"
| "wire_meaning (WArray ws) = AArray (map wire_meaning ws)"
| "wire_meaning (WKvlist kvs) = AKvList (bt_collect (map (\<lambda>(k, w). (k, wire_meaning w)) kvs))"

fun wire_ok :: "wire_value \<Rightarrow> bool" where
  "wire_ok (WInt s) \<longleftrightarrow> (\<exists>i :: i64. s = int_dec (sint i))"
| "wire_ok (WDouble (DNumber b)) \<longleftrightarrow> f64_is_finite b"
| "wire_ok (WDouble (DSymbol s)) \<longleftrightarrow> s \<in> {''NaN'', ''Infinity'', ''-Infinity''}"
| "wire_ok (WArray ws) \<longleftrightarrow> (\<forall>w\<in>set ws. wire_ok w)"
| "wire_ok (WKvlist kvs) \<longleftrightarrow> distinct (map fst kvs) \<and> (\<forall>kv\<in>set kvs. wire_ok (snd kv))"
| "wire_ok _ \<longleftrightarrow> True"

definition attributes_of :: "key_value list \<Rightarrow> attributes" where
  "attributes_of kvs = bt_collect (map (\<lambda>(k, w). (k, wire_meaning w)) kvs)"

definition attributes_ok :: "key_value list \<Rightarrow> bool" where
  "attributes_ok kvs \<longleftrightarrow> distinct (map fst kvs) \<and> (\<forall>kv\<in>set kvs. wire_ok (snd kv))"

lemma entries_denote:
  assumes "\<And>kv. kv \<in> set kvs \<Longrightarrow> denotes cd (wire_json (snd kv)) (wire_meaning (snd kv))"
  shows "list_all2 (entry_denotes cd) (map key_value_json kvs) (map (\<lambda>(k, w). (k, wire_meaning w)) kvs)"
  using assms entry_of_json
  by (fastforce simp: list_all2_map1 list_all2_map2 split_beta entry_denotes_def key_value_json_def intro: list.rel_refl_strong)

lemma wire_denotes: "wire_ok w \<Longrightarrow> denotes cd (wire_json w) (wire_meaning w)"
proof (induction w rule: wire_meaning.induct)
  case (3 s)
  then obtain i :: i64 where i: "s = int_dec (sint i)" by auto
  then have "parse_decimal s = Some (sint i)"
    using sint_bounds [of i] parse_decimal_int_dec [of "sint i"] by simp
  then show ?case using denotes.int [OF selects_single(3) parse_i64_int_dec, of cd i] i by simp
next
  case (4 b)
  then show ?case
    using denotes.double [OF selects_single(4)] by (simp add: parse_double_def number_f64_def finite_double_def)
next
  case (5 s)
  then show ?case
    using denotes.double [OF selects_single(4), of cd "JString s"] by (auto simp: parse_double_def)
next
  case (6 ws)
  then have "list_all2 (denotes cd) (map wire_json ws) (map wire_meaning ws)"
    by (simp add: list_all2_map1 list_all2_map2 list.rel_refl_strong)
  from denotes.array [OF selects_single(5) items_in_values this] show ?case by simp
next
  case (7 kvs)
  let ?raw = "JObject (if kvs = [] then [] else [(''values'', JArray (map key_value_json kvs))])"
  have "items_in ?raw (map key_value_json kvs)"
    by (cases kvs) (simp_all add: items_in_def json_field_def alternates_def)
  moreover have "list_all2 (entry_denotes cd) (map key_value_json kvs) (map (\<lambda>(k, w). (k, wire_meaning w)) kvs)"
    using 7 by (intro entries_denote) fastforce
  moreover have "wire_json (WKvlist kvs) = JObject [(''kvlistValue'', ?raw)]"
    by (simp add: key_value_json_def split_beta cong: map_cong)
  ultimately show ?case
    using denotes.kvlist [OF selects_single(6)] 7(2) by (simp add: entry_denotes_def [abs_def] comp_def split_beta)
qed (use denotes.string [OF selects_single(1)] denotes.bool [OF selects_single(2)] in simp_all)

lemma captured_wire: "value_ok v \<Longrightarrow> wire_ok (any_value_of v) \<and> wire_meaning (any_value_of v) = captured_value v"
proof (induction v rule: captured_value.induct)
  case (2 i)
  then show ?case
    using sint_bounds [of i] parse_decimal_int_dec [of "sint i"] by auto
next
  case (4 b)
  then show ?case using finite_class [of b] by (simp add: double_value_def f64_class_def)
next
  case (8 kvs)
  then have ind: "\<And>k v. (k, v) \<in> set kvs \<Longrightarrow> wire_ok (any_value_of v) \<and> wire_meaning (any_value_of v) = captured_value v"
    by fastforce
  have wf: "bt_wf (map (\<lambda>(k, v). (k, captured_value v)) kvs)"
    using 8(2) by (simp add: bt_wf_def comp_def split_beta)
  have "map (\<lambda>(k, w). (k, wire_meaning w)) (map (\<lambda>(k, v). (k, any_value_of v)) kvs) = map (\<lambda>(k, v). (k, captured_value v)) kvs"
    using ind by auto
  then have "wire_meaning (any_value_of (VMap kvs)) = captured_value (VMap kvs)"
    by (simp only: any_value_of.simps wire_meaning.simps captured_value.simps bt_collect_sorted [OF wf])
  moreover have "wire_ok (any_value_of (VMap kvs))"
    using ind bt_wf_distinct [of kvs] 8(2) by (auto simp: comp_def split_beta)
  ultimately show ?case by blast
qed simp_all

lemma attributes_denoted:
  assumes "attributes_ok kvs"
  shows "attributes_denote cd (map key_value_json kvs) (attributes_of kvs)"
proof -
  have "list_all2 (entry_denotes cd) (map key_value_json kvs) (map (\<lambda>(k, w). (k, wire_meaning w)) kvs)"
    using assms wire_denotes by (intro entries_denote) (auto simp: attributes_ok_def)
  moreover have "distinct (map fst (map (\<lambda>(k, w). (k, wire_meaning w)) kvs))"
    using assms by (simp add: attributes_ok_def comp_def split_beta)
  ultimately show ?thesis unfolding attributes_denote_def attributes_of_def by blast
qed

lemma parse_attributes_written:
  "attributes_ok kvs \<Longrightarrow> parse_attributes cd (Some (JArray (map key_value_json kvs))) path loc = ([], attributes_of kvs)"
  using attributes_denoted by (simp add: parse_attributes_denotes)

section \<open>The document\<close>

definition id_ok :: "nat \<Rightarrow> string \<Rightarrow> bool" where
  "id_ok n s \<longleftrightarrow> length s = n \<and> list_all is_lower_hex s \<and> list_ex (\<lambda>c. c \<noteq> CHR ''0'') s"

definition event_ok :: "wire_event \<Rightarrow> bool" where
  "event_ok e \<longleftrightarrow> attributes_ok (wire_event_attributes e)"

definition nanos_ok :: "string \<Rightarrow> bool" where
  "nanos_ok s \<longleftrightarrow> (\<exists>i :: i64. 0 \<le> sint i \<and> s = int_dec (sint i))"

definition span_ok :: "wire_span \<Rightarrow> bool" where
  "span_ok w \<longleftrightarrow>
     id_ok 32 (wire_trace w) \<and> id_ok 16 (wire_id w) \<and> (\<forall>p. wire_parent w = Some p \<longrightarrow> id_ok 16 p) \<and>
     wire_name w \<in> set ctsc_spans \<and> nanos_ok (wire_start w) \<and> nanos_ok (wire_end w) \<and>
     attributes_ok (wire_attributes w) \<and> (\<forall>e\<in>set (wire_events w). event_ok e)"

definition nanos_value :: "string \<Rightarrow> nat" where
  "nanos_value s = nat (the (parse_decimal s))"

definition event_of :: "wire_event \<Rightarrow> trace_event" where
  "event_of e = \<lparr>event_name = wire_event_name e, event_attributes = attributes_of (wire_event_attributes e)\<rparr>"

definition status_of :: "u64 \<Rightarrow> span_status" where
  "status_of n = (if n = 1 then Ok else if n = 2 then Error else Unset)"

definition span_of :: "attributes \<Rightarrow> string \<Rightarrow> wire_span \<Rightarrow> trace_span" where
  "span_of resource loc w =
     \<lparr>trace_id = wire_trace w, span_id = wire_id w, parent_span_id = (case wire_parent w of None \<Rightarrow> [] | Some p \<Rightarrow> p),
      span_name = wire_name w, start_time = Some (nanos_value (wire_start w)), end_time = Some (nanos_value (wire_end w)),
      span_attributes = attributes_of (wire_attributes w), span_events = map event_of (wire_events w),
      span_stat = status_of (wire_status w), resource_attributes = resource, span_location = loc\<rparr>"

lemma append_from_written:
  assumes "\<And>i x. x \<in> set xs \<Longrightarrow> f i x = ([], [g i x])"
  shows "append_from f xs = ([], map (\<lambda>(i, x). g i x) (enumerate 0 xs))"
proof -
  have "fold_from n (\<lambda>acc i x. let (out, more) = f i x in (out, acc @ more)) acc xs =
      ([], acc @ map (\<lambda>(i, x). g i x) (enumerate n xs))" for n acc
    using assms by (induction xs arbitrary: n acc) simp_all
  then show ?thesis by (simp add: append_from_def)
qed

lemma append_from_plain:
  assumes "\<And>i x. x \<in> set xs \<Longrightarrow> f i x = ([], [g x])"
  shows "append_from f xs = ([], map g xs)"
proof -
  have "append_from f xs = ([], map (\<lambda>(i, x). g x) (enumerate 0 xs))"
    using assms by (rule append_from_written)
  moreover have "map (\<lambda>(i, x). g x) (enumerate 0 xs) = map g (map snd (enumerate 0 xs))"
    by (simp add: split_beta comp_def del: map_snd_enumerate)
  ultimately show ?thesis by simp
qed

lemma append_from_map: "append_from f (map h xs) = append_from (\<lambda>i x. f i (h x)) xs"
proof -
  have "fold_from n (\<lambda>acc i x. let (out, more) = f i x in (out, acc @ more)) acc (map h xs) =
      fold_from n (\<lambda>acc i x. let (out, more) = f i (h x) in (out, acc @ more)) acc xs" for n acc
    by (induction xs arbitrary: n acc) (simp_all add: split_beta Let_def)
  then show ?thesis by (simp add: append_from_def)
qed

lemma lower_hex_normal: "is_lower_hex c \<Longrightarrow> is_hex_digit c \<and> lower_char c = c"
  by (auto simp: is_lower_hex_def is_hex_digit_def is_digit_def lower_char_def Let_def)

lemma id_ok_normal: "id_ok n s \<Longrightarrow> even n \<Longrightarrow> normalize_hex s = Some s"
  using lower_hex_normal by (auto simp: id_ok_def normalize_hex_def list_all_iff intro: map_idI)

lemma nanos_parsed:
  assumes "nanos_ok s"
  shows "parse_u64 cd (JString s) = Some (nanos_value s)" "nanos_value s < 2 ^ 63"
proof -
  from assms obtain i :: i64 where i: "0 \<le> sint i" "s = int_dec (sint i)" by (auto simp: nanos_ok_def)
  then have p: "parse_decimal s = Some (sint i)"
    using sint_bounds [of i] parse_decimal_int_dec [of "sint i"] by simp
  then show "parse_u64 cd (JString s) = Some (nanos_value s)"
    using i sint_bounds [of i] by (simp add: parse_u64_def parse_integer_def nanos_value_def)
  show "nanos_value s < 2 ^ 63" using p i sint_bounds [of i] by (simp add: nanos_value_def nat_less_iff)
qed

lemma parse_events_written:
  assumes "\<forall>e\<in>set es. event_ok e"
  shows "parse_events cd path loc (map event_json es) = ([], map event_of es)"
proof -
  have one: "parse_event cd path l (event_json e) = ([], Some (event_of e))" if "e \<in> set es" for l e
    using that assms
    by (simp add: parse_event_def event_json_def event_ok_def validate_zero_def string_field_def json_field_def
        alternates_def parse_attributes_written event_of_def)
  show ?thesis
    unfolding parse_events_def append_from_map by (rule append_from_plain) (simp add: one pushed_def)
qed

lemma span_object_fields:
  "json_field (span_object w) ''droppedAttributesCount'' = None" "json_field (span_object w) ''droppedEventsCount'' = None"
  "json_field (span_object w) ''droppedLinksCount'' = None"
  "json_field (span_object w) ''traceId'' = Some (JString (wire_trace w))"
  "json_field (span_object w) ''spanId'' = Some (JString (wire_id w))"
  "json_field (span_object w) ''parentSpanId'' = map_option JString (wire_parent w)"
  "json_field (span_object w) ''name'' = Some (JString (wire_name w))"
  "json_field (span_object w) ''startTimeUnixNano'' = Some (JString (wire_start w))"
  "json_field (span_object w) ''endTimeUnixNano'' = Some (JString (wire_end w))"
  "json_field (span_object w) ''attributes'' = Some (JArray (map key_value_json (wire_attributes w)))"
  "json_field (span_object w) ''events'' = (if wire_events w = [] then None else Some (JArray (map event_json (wire_events w))))"
  "json_field (span_object w) ''status'' = Some (JObject [(''code'', JNumber (PosInt (wire_status w)))])"
  "map_of (span_object w) ''name'' = Some (JString (wire_name w))"
  by (simp_all add: span_object_def json_field_def alternates_def split: option.splits)

lemma parse_status_written: "parse_status (span_object w) = status_of (wire_status w)"
proof -
  have "as_i64 (JNumber (PosInt n)) = Some 1 \<longleftrightarrow> n = 1" "as_i64 (JNumber (PosInt n)) = Some 2 \<longleftrightarrow> n = 2" for n
    by (auto simp: word_uint_eq_iff)
  moreover have "json_field [(''code'', x)] ''code'' = Some x" for x by (simp add: json_field_def)
  ultimately show ?thesis
    by (simp add: parse_status_def span_object_fields status_of_def del: as_i64.simps)
qed

lemma id_field_written: "hex_member m key v \<Longrightarrow> id_field m key path loc = ([], Some v)"
  by (simp add: id_field_clean)

lemma parse_span_written:
  assumes "span_ok w"
  shows "parse_span cd path resource (span_object w, loc) = ([], Some (span_of resource (located path loc) w))"
proof -
  note f = span_object_fields [of w]
  have ids: "hex_member (span_object w) ''traceId'' (wire_trace w)" "hex_member (span_object w) ''spanId'' (wire_id w)"
    using assms id_ok_normal by (auto simp: span_ok_def hex_member_def f)
  have parent: "optional_id (span_object w) ''parentSpanId'' path loc = ([], wire_parent w)"
    using assms id_ok_normal [of 16] by (cases "wire_parent w") (auto simp: span_ok_def optional_id_clean absent_def hex_member_def f)
  have times: "time_field cd (span_object w) ''startTimeUnixNano'' path loc = ([], Some (nanos_value (wire_start w)))"
    "time_field cd (span_object w) ''endTimeUnixNano'' path loc = ([], Some (nanos_value (wire_end w)))"
    using assms nanos_parsed(1) by (simp_all add: time_field_def f span_ok_def)
  have events: "array_field (span_object w) ''events'' path loc = ([], map event_json (wire_events w))"
    by (simp add: array_field_def f)
  have body: "span_body cd path loc (span_object w) resource (wire_trace w) (wire_id w) p (wire_name w) =
      ([], span_of resource (located path loc) w \<lparr>parent_span_id := p\<rparr>)" for p
    using assms
    by (simp add: span_body_def times f(10) events parse_attributes_written parse_events_written parse_status_written span_ok_def span_of_def)
  have zero: "validate_zero cd (span_object w) key path loc = []"
    if "key \<in> {''droppedAttributesCount'', ''droppedEventsCount'', ''droppedLinksCount''}" for key
    using that f(1-3) by (auto simp: validate_zero_def)
  show ?thesis
    by (simp add: parse_span_def zero id_field_written [OF ids(1)] id_field_written [OF ids(2)] parent string_field_def f(7) body)
      (simp add: span_of_def split: option.splits)
qed

section \<open>Loading an encoded document\<close>

text \<open>Where the loader finds the span with index \<open>i\<close>.\<close>

definition written_loc :: "nat \<Rightarrow> nat \<Rightarrow> string" where
  "written_loc batch i =
     (((''$['' @ nat_dec batch @ '']'') @ ''.resourceSpans['' @ nat_dec 0 @ '']'') @ ''.scopeSpans['' @ nat_dec 0 @ '']'') @ ''.spans['' @ nat_dec i @ '']''"

definition written_spans :: "string \<Rightarrow> wire_document \<Rightarrow> trace_span list" where
  "written_spans path d =
     map (\<lambda>(i, w). span_of (attributes_of (wire_resource d)) (located path (written_loc 0 i)) w) (enumerate 0 (wire_spans d))"

definition document_ok :: "wire_document \<Rightarrow> bool" where
  "document_ok d \<longleftrightarrow>
     (\<forall>w\<in>set (wire_spans d). span_ok w) \<and> attributes_ok (wire_resource d) \<and>
     (\<forall>path loc. check_resource path loc (attributes_of (wire_resource d)) = [])"

definition scope_object :: "wire_document \<Rightarrow> json_object" where
  "scope_object d =
     [(''schemaUrl'', JString schema_url),
      (''scope'', JObject [(''name'', JString ''specgate.ctsc''), (''version'', JString (wire_scope_version d))]),
      (''spans'', JArray (map (JObject \<circ> span_object) (wire_spans d)))]"

definition resource_object :: "wire_document \<Rightarrow> json_object" where
  "resource_object d =
     [(''resource'', JObject [(''attributes'', JArray (map key_value_json (wire_resource d)))]),
      (''schemaUrl'', JString schema_url), (''scopeSpans'', JArray [JObject (scope_object d)])]"

lemma document_json_object: "document_json d = JObject [(''resourceSpans'', JArray [JObject (resource_object d)])]"
  by (simp add: document_json_def resource_object_def scope_object_def)

lemma append_from_single: "append_from f [x] = f 0 x"
  by (simp add: append_from_def split_beta)

abbreviation span_places :: "string \<Rightarrow> wire_span list \<Rightarrow> (json_object \<times> string) list" where
  "span_places loc ws \<equiv> map (\<lambda>(i, w). (span_object w, loc @ ''.spans['' @ nat_dec i @ '']'')) (enumerate 0 ws)"

lemma scope_spans_written:
  assumes "\<forall>w\<in>set (wire_spans d). wire_name w \<in> set ctsc_spans"
  shows "scope_span_list path loc (scope_object d) = ([], span_places loc (wire_spans d))"
proof -
  have a: "array_field (scope_object d) ''spans'' path loc = ([], map (JObject \<circ> span_object) (wire_spans d))"
    by (simp add: array_field_def json_field_def scope_object_def)
  have "is_ctsc_span (span_object w)" if "w \<in> set (wire_spans d)" for w
    using that assms by (simp add: is_ctsc_span_def span_object_fields)
  then have "append_from (\<lambda>i w. let l = loc @ ''.spans['' @ nat_dec i @ '']'' in
       case as_object ((JObject \<circ> span_object) w) of None \<Rightarrow> (issue (located path l) ''span must be an object'', [])
       | Some span \<Rightarrow> ([], if is_ctsc_span span then [(span, l)] else [])) (wire_spans d) = ([], span_places loc (wire_spans d))"
    by (intro append_from_written) (simp add: Let_def)
  then show ?thesis by (simp add: scope_span_list_def a append_from_map)
qed

lemma load_scope_written:
  assumes "\<forall>w\<in>set (wire_spans d). wire_name w \<in> set ctsc_spans"
  shows "load_scope cd path loc (JObject (scope_object d)) = ([], span_places loc (wire_spans d))"
proof -
  have "check_scope cd path l (scope_object d) = []" for l
    by (simp add: check_scope_def json_field_def alternates_def validate_zero_def parse_attributes_def reject_attrs_def scope_object_def)
  with scope_spans_written [OF assms] show ?thesis
    by (simp add: load_scope_def del: append_assoc)
qed

lemma parse_resource_written:
  assumes "attributes_ok (wire_resource d)" "check_resource path loc (attributes_of (wire_resource d)) = []"
  shows "parse_resource cd path loc (resource_object d) = ([], attributes_of (wire_resource d))"
proof -
  have f: "json_field (resource_object d) ''resource'' = Some (JObject [(''attributes'', JArray (map key_value_json (wire_resource d)))])"
    "json_field [(''attributes'', x)] ''attributes'' = Some x" "json_field [(''attributes'', x)] ''droppedAttributesCount'' = None" for x
    by (simp_all add: json_field_def resource_object_def alternates_def)
  show ?thesis
    by (simp add: parse_resource_def f validate_zero_def parse_attributes_written [OF assms(1)] assms(2))
qed

lemma parse_spans_written:
  assumes "\<forall>w\<in>set ws. span_ok w"
  shows "parse_spans cd path resource (map (\<lambda>(i, w). (span_object w, loc i)) (enumerate n ws)) =
    ([], map (\<lambda>(i, w). span_of resource (located path (loc i)) w) (enumerate n ws))"
proof -
  have "snd x \<in> set ws" if "x \<in> set (enumerate n ws)" for x
    using that set_map [of snd "enumerate n ws"] by (metis imageI map_snd_enumerate)
  then have "pushed (parse_span cd path resource (span_object (snd x), loc (fst x))) =
      ([], [span_of resource (located path (loc (fst x))) (snd x)])" if "x \<in> set (enumerate n ws)" for x
    using that assms by (simp add: parse_span_written pushed_def)
  then have "pushed (parse_span cd path resource (case x of (i, w) \<Rightarrow> (span_object w, loc i))) =
      ([], [case x of (i, w) \<Rightarrow> span_of resource (located path (loc i)) w])" if "x \<in> set (enumerate n ws)" for x
    using that by (cases x) fastforce
  then show ?thesis
    unfolding parse_spans_def append_from_map by (intro append_from_plain)
qed

lemma load_written:
  assumes "document_ok d" "wire_spans d \<noteq> []"
  shows "load_documents cd path [document_json d] = ([], written_spans path d)"
proof -
  have ok: "\<forall>w\<in>set (wire_spans d). wire_name w \<in> set ctsc_spans" "\<forall>w\<in>set (wire_spans d). span_ok w"
    "attributes_ok (wire_resource d)" "\<And>path loc. check_resource path loc (attributes_of (wire_resource d)) = []"
    using assms(1) by (auto simp: document_ok_def span_ok_def)
  have r: "array_field (resource_object d) ''scopeSpans'' path loc = ([], [JObject (scope_object d)])" for loc
    by (simp add: array_field_def json_field_def resource_object_def)
  have raw: "resource_span_list cd path loc (resource_object d) =
      ([], span_places (loc @ ''.scopeSpans['' @ nat_dec 0 @ '']'') (wire_spans d))" for loc
    unfolding resource_span_list_def r by (simp add: append_from_single load_scope_written [OF ok(1)])
  have resource: "load_resource cd path loc (JObject (resource_object d)) =
      ([], map (\<lambda>(i, w). span_of (attributes_of (wire_resource d))
         (located path ((loc @ ''.scopeSpans['' @ nat_dec 0 @ '']'') @ ''.spans['' @ nat_dec i @ '']'')) w) (enumerate 0 (wire_spans d)))" for loc
    using assms(2) parse_spans_written [OF ok(2), of cd path _ "\<lambda>i. (loc @ ''.scopeSpans['' @ nat_dec 0 @ '']'') @ ''.spans['' @ nat_dec i @ '']''" 0]
    unfolding load_resource_def by (simp add: raw parse_resource_written [OF ok(3,4)] del: append_assoc)
  have b: "array_field [(''resourceSpans'', JArray vs)] ''resourceSpans'' path loc = ([], vs)" for vs loc
    by (simp add: array_field_def json_field_def)
  show ?thesis
    unfolding load_documents_def append_from_single load_batch_def document_json_object written_spans_def written_loc_def
    by (simp add: b append_from_single resource del: append_assoc)
qed

section \<open>Encoded documents are well formed\<close>

lemma map_result_Inr: "map_result f xs = Inr ys \<longleftrightarrow> list_all2 (\<lambda>x y. f x = Inr y) xs ys"
  by (induction xs arbitrary: ys) (auto simp: list_all2_Cons1)

lemma map_result_each: "map_result f xs = Inr ys \<Longrightarrow> y \<in> set ys \<Longrightarrow> \<exists>x\<in>set xs. f x = Inr y"
  by (induction xs arbitrary: ys) auto

lemma hex_char_lower: "0 \<le> k \<Longrightarrow> k < 16 \<Longrightarrow> is_lower_hex (hex_char k)"
  by (auto simp: hex_char_def is_lower_hex_def is_digit_def)

lemma hex_char_inject:
  assumes "0 \<le> j" "j < 16" "0 \<le> k" "k < 16" "hex_char j = hex_char k"
  shows "j = k"
proof -
  have "(of_char (hex_char j) :: nat) = of_char (hex_char k)" using assms(5) by simp
  then have "(if j < 10 then 48 + nat j else 87 + nat j) = (if k < 10 then 48 + nat k else 87 + nat k)"
    using assms(1-4) by (simp add: hex_char_def split: if_splits)
  then show ?thesis using assms(1-4) by (auto split: if_splits)
qed

lemma hex_pad_length [simp]: "length (hex_pad w n) = w"
  by (induction w arbitrary: n) simp_all

lemma hex_pad_lower: "list_all is_lower_hex (hex_pad w n)"
  by (induction w arbitrary: n) (simp_all add: hex_char_lower)

lemma hex_pad_inject: "hex_pad w m = hex_pad w n \<Longrightarrow> m mod 16 ^ w = n mod 16 ^ w"
proof (induction w arbitrary: m n)
  case (Suc w)
  from Suc.prems have h: "hex_char (m mod 16) = hex_char (n mod 16)" and p: "hex_pad w (m div 16) = hex_pad w (n div 16)"
    by simp_all
  from p have d: "(m div 16) mod 16 ^ w = (n div 16) mod 16 ^ w" by (rule Suc.IH)
  have low: "m mod 16 = n mod 16"
    by (rule hex_char_inject [OF _ _ _ _ h]) simp_all
  have "m mod (16 * 16 ^ w) = 16 * (m div 16 mod 16 ^ w) + m mod 16" for m :: int
    by (rule zmod_zmult2_eq) simp
  with low d show ?case by simp
qed simp

lemma hex_pad_zeros: "list_all (\<lambda>c. c = CHR ''0'') (hex_pad w n) \<Longrightarrow> n mod 16 ^ w = 0"
proof -
  assume z: "list_all (\<lambda>c. c = CHR ''0'') (hex_pad w n)"
  have "list_all (\<lambda>c. c = CHR ''0'') (hex_pad w 0)"
    by (induction w) (simp_all add: hex_char_def, code_simp)
  with z have "hex_pad w n = hex_pad w 0"
    by (intro nth_equalityI) (auto simp: list_all_length)
  then show ?thesis using hex_pad_inject by fastforce
qed

lemma hex_pad_id: "0 < n \<Longrightarrow> n < 16 ^ w \<Longrightarrow> id_ok w (hex_pad w n)"
  using hex_pad_zeros [of w n] hex_pad_lower [of w n] by (auto simp: id_ok_def list_all_iff list_ex_iff)

lemma u64_hex:
  assumes "n \<noteq> (0 :: u64)"
  shows "id_ok 16 (hex_pad 16 (uint n))" "hex_wire 16 (hex_pad 16 (uint n)) = Inr (hex_pad 16 (uint n))"
proof -
  have "0 < uint n" using assms by (simp add: word_neq_0_conv word_less_def)
  moreover have "uint n < 16 ^ 16" using uint_lt2p [of n] by simp
  ultimately show i: "id_ok 16 (hex_pad 16 (uint n))" by (rule hex_pad_id)
  then show "hex_wire 16 (hex_pad 16 (uint n)) = Inr (hex_pad 16 (uint n))"
    using lower_hex_normal by (auto simp: id_ok_def hex_wire_def list_all_iff)
qed

lemma checked_id_Inr: "checked_id n = Inr s \<longleftrightarrow> n \<noteq> 0 \<and> s = hex_pad 16 (uint n)"
  using u64_hex(2) by (auto simp: checked_id_def)

lemma unix_nanos_Inr: "unix_nanos t = Inr s \<longleftrightarrow> 0 \<le> sint t \<and> s = int_dec (sint t)"
proof (cases "0 \<le> sint t")
  case True
  then have "nat (sint t) < 2 ^ 64" using sint_bounds [of t] by (simp add: nat_less_iff)
  from parse_unsigned_nat_dec [OF this] True show ?thesis by (auto simp: unix_nanos_def int_dec_def)
next
  case False
  then have "parse_unsigned 64 (int_dec (sint t)) = None"
    by (simp add: int_dec_def parse_unsigned_def Let_def is_digit_def)
  with False show ?thesis by (simp add: unix_nanos_def)
qed

lemma unix_nanos_ok: "unix_nanos t = Inr s \<Longrightarrow> nanos_ok s"
  by (auto simp: unix_nanos_Inr nanos_ok_def)

text \<open>Captured maps are \<open>BTreeMap\<close>s.\<close>

fun completion_ok :: "completion \<Rightarrow> bool" where
  "completion_ok (CompletedResult _ _ v) \<longleftrightarrow> value_ok v"
| "completion_ok (CompletedError _ _ _ (Some v)) \<longleftrightarrow> value_ok v"
| "completion_ok _ \<longleftrightarrow> True"

definition operation_ok :: "operation \<Rightarrow> bool" where
  "operation_ok op \<longleftrightarrow>
     value_ok (VMap (inputs op)) \<and> (\<forall>obs\<in>set (observations op). value_ok (obs_value obs)) \<and>
     (\<forall>c. completed op = Some c \<longrightarrow> completion_ok c)"

definition capture_ok :: "capture \<Rightarrow> bool" where
  "capture_ok c \<longleftrightarrow> (\<forall>op\<in>set (operations c). operation_ok op)"

lemma offset_nanos_ok: "offset_nanos t offset = Inr s \<Longrightarrow> nanos_ok s"
  by (auto simp: offset_nanos_def unix_nanos_ok)

lemma hex_wire_Inr: "hex_wire n s = Inr s' \<Longrightarrow> s' = s"
  by (auto simp: hex_wire_def split: if_splits)

lemma observation_event_ok:
  "value_ok (obs_value obs) \<Longrightarrow> observation_event offset obs = Inr e \<Longrightarrow> event_ok e"
  using captured_wire by (auto simp: observation_event_def event_ok_def attributes_ok_def string_attribute_def)

lemma completion_event_ok: "completion_ok c \<Longrightarrow> completion_event offset c = Inr e \<Longrightarrow> event_ok e"
  using captured_wire
  by (cases c) (auto simp: completion_event_def completion_parts_def event_ok_def attributes_ok_def string_attribute_def
      split: option.splits)

lemma operation_events_ok:
  assumes "operation_ok op" "operation_events offset op = Inr es"
  shows "\<forall>e\<in>set es. event_ok e"
proof -
  from assms(2) obtain a b where a: "map_result (observation_event offset) (observations op) = Inr a"
    and b: "map_result (completion_event offset) (case completed op of None \<Rightarrow> [] | Some c \<Rightarrow> [c]) = Inr b"
    and es: "es = sort_key wire_order (a @ b)"
    by (auto simp: operation_events_def)
  have "\<forall>e\<in>set a. event_ok e"
    using map_result_each [OF a] assms(1) observation_event_ok by (fastforce simp: operation_ok_def)
  moreover have "\<forall>e\<in>set b. event_ok e"
    using map_result_each [OF b] assms(1) completion_event_ok
    by (cases "completed op") (auto simp: operation_ok_def)
  ultimately show ?thesis by (auto simp: es)
qed

lemma operation_span_ok:
  assumes "operation_ok op" "operation_span trace op place = Inr w"
    and "id_ok 32 trace" "id_ok 16 (place_id place)" "id_ok 16 (place_parent place)"
  shows "span_ok w"
proof -
  have "attributes_ok (operation_attributes op)"
    using assms(1) captured_wire [of "VMap (inputs op)"]
    by (auto simp: operation_ok_def operation_attributes_def attributes_ok_def string_attribute_def)
  then show ?thesis
    using assms operation_events_ok [OF assms(1)]
    by (auto simp: operation_span_def span_ok_def ctsc_spans_def dest!: hex_wire_Inr dest: offset_nanos_ok)
qed

lemma wire_ok_int: "wire_ok (WInt (int_dec (sint (i :: i64))))"
  by auto

lemma allocate_ids_ok:
  "allocate_ids name n ids ops = Inr (n', ids') \<Longrightarrow> \<forall>s\<in>ran (map_of ids). id_ok 16 s \<Longrightarrow> \<forall>s\<in>ran (map_of ids'). id_ok 16 s"
proof (induction ops arbitrary: n ids)
  case (Cons op ops)
  from Cons.prems(1) obtain s m where s: "checked_id n = Inr s"
    and r: "allocate_ids name m (bt_insert (operation_id op) s ids) ops = Inr (n', ids')"
    by (auto split: if_splits)
  have "\<forall>x\<in>ran (map_of (bt_insert (operation_id op) s ids)). id_ok 16 x"
    using Cons.prems(2) s u64_hex(1) by (auto simp: map_of_bt_insert ran_def checked_id_Inr)
  with Cons.IH [OF r] show ?case by blast
qed simp

lemma encode_scenario_ok:
  assumes "encode_scenario trace run_id n starts index c = Inr (spans, n', t)" "capture_ok c" "id_ok 32 trace" "id_ok 16 run_id"
  shows "\<forall>w\<in>set spans. span_ok w"
proof -
  from assms(1) obtain sid n1 ids offset ends span rest where parts: "checked_id n = Inr sid"
    "allocate_ids (scenario_name c) n1 [] (operations c) = Inr (n', ids)"
    "scenario_span trace run_id sid index c starts ends = Inr span"
    "map_result (place_operation c sid ids trace offset) (operations c) = Inr rest" "spans = span # rest"
    by (auto simp: encode_scenario_def split: prod.splits)
  have sid: "id_ok 16 sid" using parts(1) u64_hex(1) by (simp add: checked_id_Inr)
  have ids: "\<forall>s\<in>ran (map_of ids). id_ok 16 s" using allocate_ids_ok [OF parts(2)] by simp
  have "span_ok span"
    using parts(3) assms(3,4) sid
    by (auto simp: scenario_span_def span_ok_def ctsc_spans_def attributes_ok_def string_attribute_def integer_attribute_def
        wire_ok_int simp del: wire_ok.simps(1) dest!: hex_wire_Inr dest: unix_nanos_ok)
  moreover have "span_ok w" if "w \<in> set rest" for w
  proof -
    from map_result_each [OF parts(4) that] obtain op where op: "op \<in> set (operations c)"
      "place_operation c sid ids trace offset op = Inr w" by blast
    then obtain own parent where p: "map_of ids (operation_id op) = Some own" "id_ok 16 parent"
      "operation_span trace op \<lparr>place_id = own, place_parent = parent, place_offset = offset\<rparr> = Inr w"
      using sid ids by (auto simp: place_operation_def or_error_def ran_def split: option.splits if_splits)
    then show ?thesis
      using operation_span_ok [OF _ p(3) assms(3)] assms(2) op(1) ids by (auto simp: capture_ok_def ran_def)
  qed
  ultimately show ?thesis by (simp add: parts(5))
qed

lemma encode_scenarios_ok:
  "encode_scenarios trace run_id n starts index cs = Inr (spans, t) \<Longrightarrow> \<forall>c\<in>set cs. capture_ok c \<Longrightarrow>
   id_ok 32 trace \<Longrightarrow> id_ok 16 run_id \<Longrightarrow> \<forall>w\<in>set spans. span_ok w"
proof (induction cs arbitrary: n starts index spans t)
  case (Cons c cs)
  then show ?case using encode_scenario_ok by (fastforce split: prod.splits)
qed simp

lemma attributes_of_get:
  "distinct (map fst kvs) \<Longrightarrow> map_of (attributes_of kvs) k = map_option wire_meaning (map_of kvs k)"
proof -
  assume d: "distinct (map fst kvs)"
  let ?kvs = "map (\<lambda>(k, w). (k, wire_meaning w)) kvs"
  have m: "map fst ?kvs = map fst kvs" by (simp add: comp_def split_beta)
  have "map_of (rev ?kvs) = map_of ?kvs"
    using d m map_of_inject_set [of "rev ?kvs" ?kvs] by (simp only: rev_map [symmetric] distinct_rev set_rev)
  then show ?thesis by (simp add: attributes_of_def map_of_bt_collect map_of_map)
qed

lemma attributes_of_keys: "fst ` set (attributes_of kvs) = fst ` set kvs"
proof -
  have "fst ` set (attributes_of kvs) = dom (map_of (attributes_of kvs))" by (simp add: dom_map_of_conv_image_fst)
  also have "\<dots> = fst ` set kvs"
    by (simp add: attributes_of_def map_of_bt_collect dom_map_of_conv_image_fst image_image split_beta)
  finally show ?thesis .
qed

lemma resource_checked:
  "attributes_ok (resource_attributes_of m) \<and> check_resource path loc (attributes_of (resource_attributes_of m)) = []"
proof
  show ok: "attributes_ok (resource_attributes_of m)"
    by (simp add: resource_attributes_of_def attributes_ok_def string_attribute_def)
  then have get: "map_of (attributes_of (resource_attributes_of m)) k = map_option wire_meaning (map_of (resource_attributes_of m) k)" for k
    by (intro attributes_of_get) (simp add: attributes_ok_def)
  have "\<forall>k\<in>fst ` set (attributes_of (resource_attributes_of m)). k \<in> set (required_attrs @ registry_attrs)"
    unfolding attributes_of_keys
    by (simp add: resource_attributes_of_def string_attribute_def required_attrs_def registry_attrs_def)
  then have a: "reject_attrs (attributes_of (resource_attributes_of m)) (required_attrs @ registry_attrs) l = []" for l
    by (auto simp: reject_attrs_def for_each_Nil_iff)
  have str: "\<exists>v. map_of (resource_attributes_of m) k = Some (WString v)" if "k \<in> set required_attrs" for k
    using that unfolding required_attrs_def by (auto simp: resource_attributes_of_def string_attribute_def)
  have uri: "map_of (resource_attributes_of m) k = None \<or> (\<exists>v. map_of (resource_attributes_of m) k = Some (WString v))" for k
    by (auto simp: resource_attributes_of_def string_attribute_def)
  have v: "map_of (resource_attributes_of m) ''conformance.version'' = Some (WString ctsc_version)"
    by (simp add: resource_attributes_of_def string_attribute_def)
  have b: "fst (require_str (attributes_of (resource_attributes_of m)) k l) = []" if "k \<in> set required_attrs" for k l
    using str [OF that] by (auto simp: require_str_def get)
  have c: "check_attr (attributes_of (resource_attributes_of m)) k StringType l = []" for k l
    using uri [of k] by (auto simp: check_attr_def get)
  have d: "snd (require_str (attributes_of (resource_attributes_of m)) ''conformance.version'' l) = Some ctsc_version" for l
    by (simp add: require_str_def get v)
  show "check_resource path loc (attributes_of (resource_attributes_of m)) = []"
    using b d by (auto simp: check_resource_def a c for_each_Nil_iff split_beta)
qed

lemma encode_document_ok:
  assumes "encode_document captures m idn = Inr d" "\<forall>c\<in>set captures. capture_ok c"
    and "id_ok 32 (identity_trace idn)" "first_id idn \<noteq> 0"
  shows "document_ok d" "wire_spans d \<noteq> []"
proof -
  from assms(1) obtain run_id n spans run_end tid s e w where parts: "hex_wire 16 (hex_pad 16 (uint (first_id idn))) = Inr run_id"
    "encode_scenarios (identity_trace idn) run_id n 2 0 captures = Inr (spans, run_end)" "hex_wire 32 (identity_trace idn) = Inr tid"
    "unix_nanos 1 = Inr s" "unix_nanos run_end = Inr e"
    "wire_resource d = resource_attributes_of m" "wire_spans d = w # spans" "wire_trace w = tid" "wire_id w = run_id" "wire_parent w = None"
    "wire_name w = ''conformance.run''" "wire_start w = s" "wire_end w = e" "wire_events w = []"
    "wire_attributes w = [string_attribute ''conformance.run.id'' (identity_run idn)]"
    by (auto simp: encode_document_def split: if_splits prod.splits)
  have run: "id_ok 16 run_id" using parts(1) u64_hex [OF assms(4)] by simp
  have "span_ok w"
    using parts run assms(3) unix_nanos_ok
    by (auto simp: span_ok_def ctsc_spans_def attributes_ok_def string_attribute_def dest!: hex_wire_Inr)
  with encode_scenarios_ok [OF parts(2) assms(2,3) run] show "document_ok d"
    using resource_checked by (simp add: document_ok_def parts)
  show "wire_spans d \<noteq> []" by (simp add: parts)
qed

lemma identities_ok:
  "id_ok 32 (identity_trace reference_identity)" "id_ok 32 (identity_trace candidate_identity)"
  "first_id reference_identity \<noteq> 0" "first_id candidate_identity \<noteq> 0"
  by (code_simp, code_simp, simp_all add: reference_identity_def candidate_identity_def)

end
