(* ===== verification/Ctsc_Ancestry.thy ===== *)
theory Ctsc_Ancestry
  imports Ctsc_Trace
begin

text \<open>
  The memoised parent walk of \<open>ancestry.rs\<close> computes the resolution of every span: the inductive
  relation \<open>resolves\<close> follows parent links without memory, and a walk that meets no end is exactly
  one that reaches a cycle. Validated traces are forests whose roots are run spans.
\<close>

section \<open>The span table\<close>

lemma spans_by_id_from:
  "(case map_of (foldl (\<lambda>m span. bt_push (own_key span) span m) m spans) key of None \<Rightarrow> [] | Some l \<Rightarrow> l) =
   (case map_of m key of None \<Rightarrow> [] | Some l \<Rightarrow> l) @ filter (\<lambda>s. own_key s = key) spans"
  by (induction spans arbitrary: m) (auto simp: map_of_bt_push)

lemma spans_by_id_nonempty:
  "\<forall>l\<in>ran (map_of m). l \<noteq> [] \<Longrightarrow>
   map_of (foldl (\<lambda>m span. bt_push (own_key span) span m) m spans) key = Some l \<Longrightarrow> l \<noteq> []"
proof (induction spans arbitrary: m)
  case Nil
  then show ?case by (metis foldl_Nil ranI)
next
  case (Cons s spans)
  have "\<forall>l\<in>ran (map_of (bt_push (own_key s) s m)). l \<noteq> []"
    using Cons.prems(1) by (auto simp: map_of_bt_push ran_def split: if_splits)
  with Cons show ?case by simp
qed

lemma spans_by_id_get:
  "map_of (spans_by_id spans) key =
     (let l = filter (\<lambda>s. own_key s = key) spans in if l = [] then None else Some l)"
  using spans_by_id_from [of "[]" spans key] spans_by_id_nonempty [of "[]" spans key]
  by (auto simp: spans_by_id_def Let_def split: option.splits)

lemma unique_key_filter:
  assumes "distinct (map own_key spans)" "p \<in> set spans"
  shows "filter (\<lambda>s. own_key s = own_key p) spans = [p]"
  using assms
proof (induction spans)
  case (Cons s spans)
  then show ?case
    by (cases "s = p") (auto simp: filter_empty_conv rev_image_eqI)
qed simp

section \<open>Resolution without memory\<close>

inductive resolves :: "span_ids \<Rightarrow> trace_span \<Rightarrow> resolution \<Rightarrow> bool" for by_id where
  final: "ancestor_step by_id x = Inl r \<Longrightarrow> resolves by_id x r"
| parent: "ancestor_step by_id x = Inr p \<Longrightarrow> resolves by_id p r \<Longrightarrow> resolves by_id x r"

inductive_cases resolves_cases: "resolves by_id x r"

definition walk :: "span_ids \<Rightarrow> (trace_span \<times> trace_span) set" where
  "walk by_id = {(x, p). ancestor_step by_id x = Inr p}"

lemma step_not_Cycle: "ancestor_step by_id x \<noteq> Inl Cycle"
  by (auto simp: ancestor_step_def split: option.splits list.splits if_splits)

lemma resolves_not_Cycle: "resolves by_id x r \<Longrightarrow> r \<noteq> Cycle"
  by (induction rule: resolves.induct) (auto simp: step_not_Cycle)

lemma resolves_acyclic: "resolves by_id x r \<Longrightarrow> (x, x) \<notin> (walk by_id)\<^sup>+"
proof (induction rule: resolves.induct)
  case (final x r)
  then show ?case by (auto simp: walk_def dest: tranclD)
next
  case (parent x p r)
  show ?case
  proof
    assume "(x, x) \<in> (walk by_id)\<^sup>+"
    then obtain y where "(x, y) \<in> walk by_id" "(y, x) \<in> (walk by_id)\<^sup>*" by (meson tranclD)
    then have "(p, x) \<in> (walk by_id)\<^sup>*" using parent.hyps(1) by (simp add: walk_def)
    moreover have "(x, p) \<in> walk by_id" using parent.hyps(1) by (simp add: walk_def)
    ultimately show False using parent.IH by (meson rtrancl_into_trancl1)
  qed
qed

lemma resolves_final: "resolves by_id x r \<Longrightarrow> ancestor_step by_id x = Inl r' \<Longrightarrow> r' = r"
  by (auto elim: resolves_cases)

definition resolution_ok :: "span_ids \<Rightarrow> trace_span \<Rightarrow> resolution \<Rightarrow> bool" where
  "resolution_ok by_id x r \<longleftrightarrow> resolves by_id x r \<or> r = Cycle \<and> (\<forall>r'. \<not> resolves by_id x r')"

lemma resolution_ok_step: "ancestor_step by_id x = Inr p \<Longrightarrow> resolution_ok by_id x r = resolution_ok by_id p r"
  by (auto simp: resolution_ok_def intro: resolves.parent elim: resolves_cases)

lemma resolution_ok_walk: "(x, y) \<in> (walk by_id)\<^sup>+ \<Longrightarrow> resolution_ok by_id y r \<Longrightarrow> resolution_ok by_id x r"
  by (induction rule: trancl_induct) (auto simp: walk_def resolution_ok_step)

lemma resolution_ok_cycle: "(x, x) \<in> (walk by_id)\<^sup>+ \<Longrightarrow> resolution_ok by_id x Cycle"
  using resolves_acyclic by (auto simp: resolution_ok_def)

lemma step_parent:
  "ancestor_step (spans_by_id spans) x = Inr p \<Longrightarrow> p \<in> set spans \<and> own_key p = (trace_id x, parent_span_id x)"
proof -
  assume "ancestor_step (spans_by_id spans) x = Inr p"
  then have "filter (\<lambda>s. own_key s = (trace_id x, parent_span_id x)) spans = [p]"
    by (auto simp: ancestor_step_def spans_by_id_get Let_def split: option.splits list.splits if_splits)
  then have "p \<in> set (filter (\<lambda>s. own_key s = (trace_id x, parent_span_id x)) spans)" by simp
  then show ?thesis by simp
qed

section \<open>The memoised walk\<close>

definition cache_ok :: "trace_span list \<Rightarrow> ancestry_cache \<Rightarrow> bool" where
  "cache_ok spans cache \<longleftrightarrow>
     (\<forall>x\<in>set spans. \<forall>r. map_of cache (own_key x) = Some r \<longrightarrow> resolution_ok (spans_by_id spans) x r)"

lemma same_key: "distinct (map own_key spans) \<Longrightarrow> x \<in> set spans \<Longrightarrow> y \<in> set spans \<Longrightarrow> own_key x = own_key y \<Longrightarrow> x = y"
  by (simp add: distinct_map inj_on_def)

lemma ancestor_loop_ok:
  assumes "distinct (map own_key spans)" "cache_ok spans cache"
  shows "ancestor_loop (spans_by_id spans) cache n path cur = Some (r, path') \<Longrightarrow> cur \<in> set spans \<Longrightarrow>
    \<forall>x\<in>set spans. own_key x \<in> set path \<longrightarrow> (x, cur) \<in> (walk (spans_by_id spans))\<^sup>+ \<Longrightarrow>
    resolution_ok (spans_by_id spans) cur r \<and>
    (\<forall>x\<in>set spans. own_key x \<in> set path' \<longrightarrow> resolution_ok (spans_by_id spans) x r)"
proof (induction n arbitrary: path cur)
  case (Suc n)
  let ?ids = "spans_by_id spans"
  show ?case
  proof (cases "map_of cache (own_key cur)")
    case (Some c)
    with Suc.prems assms(2) have "resolution_ok ?ids cur r" "path' = path"
      by (auto simp: cache_ok_def)
    with Suc.prems(3) show ?thesis using resolution_ok_walk by blast
  next
    case None
    show ?thesis
    proof (cases "own_key cur \<in> set path")
      case True
      with Suc.prems None have "resolution_ok ?ids cur r" "path' = path"
        using resolution_ok_cycle by auto
      with Suc.prems(3) show ?thesis using resolution_ok_walk by blast
    next
      case False
      show ?thesis
      proof (cases "ancestor_step ?ids cur")
        case (Inl r')
        with Suc.prems None False have "resolution_ok ?ids cur r" "path' = path @ [own_key cur]"
          by (auto simp: resolution_ok_def intro: resolves.final)
        moreover have "x = cur \<or> own_key x \<in> set path" if "x \<in> set spans" "own_key x \<in> set path'" for x
          using that calculation(2) same_key [OF assms(1) _ Suc.prems(2)] by auto
        ultimately show ?thesis
          using resolution_ok_walk Suc.prems(3) by blast
      next
        case (Inr p)
        then have w: "(cur, p) \<in> walk ?ids" by (simp add: walk_def)
        have "\<forall>x\<in>set spans. own_key x \<in> set (path @ [own_key cur]) \<longrightarrow> (x, p) \<in> (walk ?ids)\<^sup>+"
          using Suc.prems(2,3) w same_key [OF assms(1) _ Suc.prems(2)] by (auto intro: trancl_into_trancl)
        with Suc.IH [of "path @ [own_key cur]" p] Suc.prems(1) None False Inr step_parent [OF Inr]
        show ?thesis using resolution_ok_step [OF Inr] by auto
      qed
    qed
  qed
qed simp

lemma ancestor_loop_returns:
  assumes "length spans < n + length path" "distinct path" "set path \<subseteq> own_key ` set spans" "cur \<in> set spans"
  shows "ancestor_loop (spans_by_id spans) cache n path cur \<noteq> None"
  using assms
proof (induction n arbitrary: path cur)
  case 0
  have "length path = card (set path)" using 0(2) by (simp add: distinct_card)
  also have "\<dots> \<le> card (own_key ` set spans)" using 0(3) by (intro card_mono) simp_all
  also have "\<dots> \<le> length spans" by (meson card_image_le card_length finite_set le_trans)
  finally show ?case using 0(1) by simp
next
  case (Suc n)
  show ?case
  proof (cases "map_of cache (own_key cur) = None \<and> own_key cur \<notin> set path")
    case True
    then show ?thesis
    proof (cases "ancestor_step (spans_by_id spans) cur")
      case (Inr p)
      have "ancestor_loop (spans_by_id spans) cache n (path @ [own_key cur]) p \<noteq> None"
        using Suc.prems True step_parent [OF Inr] by (intro Suc.IH) auto
      with True Inr show ?thesis by simp
    qed simp
  next
    case False
    then show ?thesis by (auto split: option.splits)
  qed
qed

lemma cache_insert_all:
  "map_of (foldl (\<lambda>c key. bt_insert key r c) cache path) k = (if k \<in> set path then Some r else map_of cache k)"
  by (induction path arbitrary: cache) (auto simp: map_of_bt_insert)

lemma run_ancestor_ok:
  assumes "distinct (map own_key spans)" "cache_ok spans cache" "x \<in> set spans" "length spans < n"
  shows "\<exists>r cache'. run_ancestor (spans_by_id spans) n cache x = Some (r, cache') \<and>
    resolution_ok (spans_by_id spans) x r \<and> cache_ok spans cache'"
proof -
  obtain r path where l: "ancestor_loop (spans_by_id spans) cache n [] x = Some (r, path)"
    using ancestor_loop_returns [of spans n "[]" x cache] assms(3,4) by auto
  from ancestor_loop_ok [OF assms(1,2) l assms(3)]
  have "resolution_ok (spans_by_id spans) x r"
    "cache_ok spans (foldl (\<lambda>c key. bt_insert key r c) cache path)"
    using assms(2) by (auto simp: cache_ok_def cache_insert_all)
  with l show ?thesis by (simp add: run_ancestor_def)
qed

lemma resolve_all_ok:
  assumes "distinct (map own_key spans)" "length spans < n"
  shows "cache_ok spans cache \<Longrightarrow> set xs \<subseteq> set spans \<Longrightarrow>
    \<exists>rs. resolve_all (spans_by_id spans) n cache xs = Some rs \<and> map fst rs = xs \<and>
      (\<forall>(x, r)\<in>set rs. resolution_ok (spans_by_id spans) x r)"
proof (induction xs arbitrary: cache)
  case (Cons x xs)
  obtain r cache' where x: "run_ancestor (spans_by_id spans) n cache x = Some (r, cache')"
    "resolution_ok (spans_by_id spans) x r" "cache_ok spans cache'"
    using run_ancestor_ok [OF assms(1) Cons.prems(1) _ assms(2), of x] Cons.prems(2) by auto
  moreover obtain rs where "resolve_all (spans_by_id spans) n cache' xs = Some rs" "map fst rs = xs"
      "\<forall>(x, r)\<in>set rs. resolution_ok (spans_by_id spans) x r"
    using Cons.IH [OF x(3)] Cons.prems(2) by auto
  ultimately show ?case by simp
qed simp

lemma duplicate_ids_loop:
  "fst (foldl (\<lambda>(out, seen) span.
       (out @
          require_that (is_hex_id (trace_id span) 32) (span_location span)
            ''traceId must be 32 lowercase hexadecimal characters and nonzero'' @
          require_that (is_hex_id (span_id span) 16) (span_location span)
            ''spanId must be 16 lowercase hexadecimal characters and nonzero'' @
          (if own_key span \<in> set seen then issue (span_location span) ''duplicate span ID within trace'' else []),
        own_key span # seen)) (out, seen) spans) = [] \<longleftrightarrow>
   out = [] \<and> distinct (map own_key spans) \<and> own_key ` set spans \<inter> set seen = {} \<and>
   (\<forall>x\<in>set spans. is_hex_id (trace_id x) 32 \<and> is_hex_id (span_id x) 16)"
proof (induction spans arbitrary: out seen)
  case (Cons x xs)
  then show ?case by (cases "own_key x \<in> set seen") auto
qed simp

lemma duplicate_ids_Nil_iff:
  "duplicate_ids spans = [] \<longleftrightarrow> distinct (map own_key spans) \<and>
     (\<forall>x\<in>set spans. is_hex_id (trace_id x) 32 \<and> is_hex_id (span_id x) 16)"
  unfolding duplicate_ids_def by (simp add: duplicate_ids_loop)

section \<open>Validated traces are forests rooted at runs\<close>

definition parent_of :: "trace_span list \<Rightarrow> (trace_span \<times> trace_span) set" where
  "parent_of spans = {(c, p). c \<in> set spans \<and> p \<in> set spans \<and> trace_id c = trace_id p \<and> parent_span_id c = span_id p}"

lemma validate_semantics_parts:
  assumes "validate_semantics n spans = Some []"
  shows "distinct (map own_key spans)"
    and "x \<in> set spans \<Longrightarrow> span_id x \<noteq> []"
    and "x \<in> set spans \<Longrightarrow> validate_span (spans_by_id spans) x = []"
    and "validate_ancestry n spans = Some []"
proof -
  from assms obtain a where "validate_ancestry n spans = Some a" "duplicate_ids spans = []" "a = []"
    "for_each (validate_span (spans_by_id spans)) spans = []"
    by (auto simp: validate_semantics_def)
  then show "distinct (map own_key spans)" "x \<in> set spans \<Longrightarrow> span_id x \<noteq> []"
    "x \<in> set spans \<Longrightarrow> validate_span (spans_by_id spans) x = []" "validate_ancestry n spans = Some []"
    by (auto simp: duplicate_ids_Nil_iff is_hex_id_def for_each_Nil_iff)
qed

lemma ancestry_issue_Nil: "ancestry_issue (x, r) = [] \<longleftrightarrow> (\<exists>run. r = Root run)"
  by (cases r) simp_all

lemma resolves_Root:
  "resolves (spans_by_id spans) x r \<Longrightarrow> r = Root run \<Longrightarrow>
   (x, run) \<in> (walk (spans_by_id spans))\<^sup>* \<and> span_name run = ''conformance.run'' \<and> parent_span_id run = []"
proof (induction rule: resolves.induct)
  case (final x r)
  then show ?case
    by (auto simp: ancestor_step_def split: option.splits list.splits if_splits)
next
  case (parent x p r)
  then have "(x, p) \<in> walk (spans_by_id spans)" by (simp add: walk_def)
  with parent show ?case by (auto intro: converse_rtrancl_into_rtrancl)
qed

lemma validated_resolves:
  assumes "validate_semantics n spans = Some []" "length spans < n" "x \<in> set spans"
  shows "\<exists>run. resolves (spans_by_id spans) x (Root run)"
proof (cases "span_name x = ''conformance.run''")
  case True
  have "validate_span (spans_by_id spans) x = []"
    using validate_semantics_parts(3) [OF assms(1)] assms(3) by blast
  then have "parent_span_id x = []"
    using True by (auto simp: validate_span_def Let_def validate_role_def parse_span_role_def)
  then show ?thesis using True by (intro exI [of _ x] resolves.final) (simp add: ancestor_step_def)
next
  case False
  let ?xs = "filter (\<lambda>span. span_name span \<noteq> ''conformance.run'') spans"
  obtain rs where rs: "resolve_all (spans_by_id spans) n [] ?xs = Some rs" "map fst rs = ?xs"
      "\<forall>(x, r)\<in>set rs. resolution_ok (spans_by_id spans) x r"
    using resolve_all_ok [OF validate_semantics_parts(1) [OF assms(1)] assms(2), of "[]" ?xs]
    by (auto simp: cache_ok_def)
  have "x \<in> set (map fst rs)" using False assms(3) rs(2) by simp
  then obtain r where r: "(x, r) \<in> set rs" by auto
  moreover have "for_each ancestry_issue rs = []"
    using validate_semantics_parts(4) [OF assms(1)] rs(1) by (simp add: validate_ancestry_def Let_def)
  ultimately obtain run where "r = Root run" by (metis ancestry_issue_Nil for_each_Nil_iff)
  with r rs(3) show ?thesis by (auto simp: resolution_ok_def)
qed

lemma validated_parent_step:
  assumes "validate_semantics n spans = Some []" "length spans < n" "(c, p) \<in> parent_of spans"
  shows "ancestor_step (spans_by_id spans) c = Inr p"
proof -
  from assms(3) have cp: "c \<in> set spans" "p \<in> set spans" "own_key p = (trace_id c, parent_span_id c)"
    by (auto simp: parent_of_def own_key_def)
  have "parent_span_id c \<noteq> []"
    using validate_semantics_parts(2) [OF assms(1) cp(2)] cp(3) by (auto simp: own_key_def)
  moreover have l: "map_of (spans_by_id spans) (trace_id c, parent_span_id c) = Some [p]"
    using unique_key_filter [OF validate_semantics_parts(1) [OF assms(1)] cp(2)] cp(3)
    by (simp add: spans_by_id_get)
  moreover obtain run where run: "resolves (spans_by_id spans) c (Root run)"
    using validated_resolves [OF assms(1,2) cp(1)] by blast
  ultimately show ?thesis
    using resolves_final [OF run]
    by (cases "span_name c = ''conformance.run''"; cases "parent_span_id c = span_id c")
      (simp_all add: ancestor_step_def)
qed

lemma walk_parent_of:
  "c \<in> set spans \<Longrightarrow> (c, p) \<in> walk (spans_by_id spans) \<Longrightarrow> (c, p) \<in> parent_of spans"
  using step_parent by (fastforce simp: walk_def parent_of_def own_key_def)

lemma walk_star_parent_of:
  "(c, p) \<in> (walk (spans_by_id spans))\<^sup>* \<Longrightarrow> c \<in> set spans \<Longrightarrow> (c, p) \<in> (parent_of spans)\<^sup>* \<and> p \<in> set spans"
proof (induction rule: rtrancl_induct)
  case (step y z)
  then have "(y, z) \<in> parent_of spans" using walk_parent_of by blast
  with step show ?case by (auto simp: parent_of_def intro: rtrancl_into_rtrancl)
qed simp

lemma validated_acyclic:
  assumes "validate_semantics n spans = Some []" "length spans < n"
  shows "acyclic (parent_of spans)"
proof -
  have "parent_of spans \<subseteq> walk (spans_by_id spans)"
    using validated_parent_step [OF assms] by (auto simp: walk_def)
  moreover have "(x, x) \<notin> (parent_of spans)\<^sup>+" if "x \<notin> set spans" for x
    using that by (auto simp: parent_of_def dest: tranclD)
  ultimately show ?thesis
    using validated_resolves [OF assms] resolves_acyclic trancl_mono unfolding acyclic_def by metis
qed

end
