(* ===== verification/Ctsc_Semantics.thy ===== *)
theory Ctsc_Semantics
  imports Ctsc_Comparison
begin

text \<open>
  What CTSC Strict compares: the meaning of a trace document, from which producer ids, timestamps
  and the order of span records are absent. The engine of \<open>Ctsc_Comparison\<close> is shown to decide
  equality of meanings: it reports neither a diagnostic nor a mismatch exactly when both documents
  have a meaning and the two are equal.
\<close>

section \<open>Meanings\<close>

datatype sem_value = SAbsent | SRaw any_value | STyped "Ctsc_Values.canonical_value option"

datatype sem_event =
    SObservation string sem_value
  | SResult sem_value
  | SError string sem_value
  | SFault sem_value sem_value
  | SMarker string

datatype sem_node =
    SOperation string string "string \<Rightarrow> sem_value" "sem_event list" "sem_node list"
  | SParallel "sem_event list" "(span_identity \<times> sem_node) list"

type_synonym sem_scenario = "sem_event list \<times> sem_node list"
type_synonym sem_document = "sem_event list \<times> (string \<times> sem_scenario) list"

definition value_meaning ::
    "registry_set option \<Rightarrow> type_ref option \<Rightarrow> resolved_component option \<Rightarrow> any_value option \<Rightarrow> sem_value" where
  "value_meaning reg vt rc v =
     (case v of
        None \<Rightarrow> SAbsent
      | Some x \<Rightarrow> (case (vt, rc, reg) of
                    (Some t, Some c, Some r) \<Rightarrow> STyped (canonical_value r c x t)
                  | _ \<Rightarrow> SRaw x))"

definition event_meaning :: "registry_set option \<Rightarrow> op_declaration \<Rightarrow> trace_event \<Rightarrow> sem_event" where
  "event_meaning reg decl e =
     (let rc = map_option fst decl; val = (\<lambda>vt key. value_meaning reg vt rc (map_of (event_attributes e) key)) in
      if event_name e = ''conformance.observation'' then
        (let n = event_string e ''conformance.observation.name''
         in SObservation n (val (observation_type decl n) ''conformance.observation.value''))
      else if event_name e = ''conformance.result'' then
        SResult (val (result_type decl) ''conformance.result.value'')
      else if event_name e = ''conformance.error'' then
        (let n = event_string e ''conformance.error.name''
         in SError n (val (error_type decl n) ''conformance.error.value''))
      else if event_name e = ''conformance.fault'' then
        SFault (value_meaning None None None (map_of (event_attributes e) ''conformance.fault.type''))
          (value_meaning None None None (map_of (event_attributes e) ''conformance.fault.message''))
      else SMarker (event_name e))"

definition inputs_meaning :: "registry_set option \<Rightarrow> op_declaration \<Rightarrow> attributes \<Rightarrow> string \<Rightarrow> sem_value" where
  "inputs_meaning reg decl inputs name =
     value_meaning reg (input_type decl name) (map_option fst decl) (map_of inputs name)"

definition span_declaration :: "registry_set option \<Rightarrow> trace_span \<Rightarrow> op_declaration" where
  "span_declaration reg span =
     Option.bind reg (\<lambda>r. find_operation r (attribute_string span ''conformance.component.id'')
       (attribute_string span ''conformance.operation.name''))"

text \<open>The children of a sequential span in time order, when that order is unambiguous.\<close>

definition ordered_children :: "trace_span list \<Rightarrow> trace_span list option" where
  "ordered_children children =
     (case sequential_children [] [] children of Inl _ \<Rightarrow> None | Inr spans \<Rightarrow> Some spans)"

text \<open>The branches of a parallel span by identity, when the identities are distinct.\<close>

definition keyed :: "('a \<Rightarrow> 'k::linorder) \<Rightarrow> 'a list \<Rightarrow> ('k \<times> 'a) list option" where
  "keyed f xs = (if distinct (map f xs) then Some (bt_collect (map (\<lambda>x. (f x, x)) xs)) else None)"

definition those_keyed :: "('a \<Rightarrow> 'b option) \<Rightarrow> ('k \<times> 'a) list \<Rightarrow> ('k \<times> 'b) list option" where
  "those_keyed f m = those (map (\<lambda>(k, x). map_option (Pair k) (f x)) m)"

primrec span_meaning :: "registry_set option \<Rightarrow> trace_index \<Rightarrow> nat \<Rightarrow> trace_span \<Rightarrow> sem_node option" where
  "span_meaning reg index 0 = (\<lambda>span. None)"
| "span_meaning reg index (Suc n) = (\<lambda>span.
     if span_name span = ''conformance.operation'' then
       (let decl = span_declaration reg span in
        case (operation_inputs span, ordered_children (children_of index span)) of
          (Some inputs, Some children) \<Rightarrow>
            map_option (SOperation (attribute_string span ''conformance.component.id'')
                (attribute_string span ''conformance.operation.name'')
                (inputs_meaning reg decl inputs)
                (map (event_meaning reg decl) (span_events span)))
              (those (map (span_meaning reg index n) children))
        | _ \<Rightarrow> None)
     else if span_name span = ''conformance.parallel'' then
       (case keyed span_identity (children_of index span) of
          None \<Rightarrow> None
        | Some m \<Rightarrow> map_option (SParallel (map (event_meaning reg None) (span_events span)))
                      (those_keyed (span_meaning reg index n) m))
     else None)"

definition scenario_meaning :: "registry_set option \<Rightarrow> trace_index \<Rightarrow> nat \<Rightarrow> trace_span \<Rightarrow> sem_scenario option" where
  "scenario_meaning reg index n span =
     (case ordered_children (children_of index span) of
        None \<Rightarrow> None
      | Some children \<Rightarrow>
          map_option (Pair (map (event_meaning reg None) (span_events span)))
            (those (map (span_meaning reg index n) children)))"

definition is_scenario :: "trace_span \<Rightarrow> bool" where
  "is_scenario span \<longleftrightarrow> span_name span = ''conformance.scenario''"

definition document_meaning :: "registry_set option \<Rightarrow> nat \<Rightarrow> trace_document \<Rightarrow> sem_document option" where
  "document_meaning reg n doc =
     (case runs_of doc of
        [run] \<Rightarrow>
          (case keyed scenario_name (filter is_scenario (children_of (trace_index doc) run)) of
             None \<Rightarrow> None
           | Some m \<Rightarrow>
               map_option (Pair (map (event_meaning reg None) (span_events run)))
                 (those_keyed (scenario_meaning reg (trace_index doc) n) m))
      | _ \<Rightarrow> None)"

section \<open>Agreement of keyed and positional collections\<close>

definition agree :: "('a \<Rightarrow> 'c option) \<Rightarrow> ('b \<Rightarrow> 'c option) \<Rightarrow> 'a \<Rightarrow> 'b \<Rightarrow> bool" where
  "agree f g x y \<longleftrightarrow> (\<exists>z. f x = Some z \<and> g y = Some z)"

lemma those_agree:
  "list_all2 (agree f g) xs ys \<longleftrightarrow> (\<exists>zs. those (map f xs) = Some zs \<and> those (map g ys) = Some zs)"
proof
  assume "list_all2 (agree f g) xs ys"
  then show "\<exists>zs. those (map f xs) = Some zs \<and> those (map g ys) = Some zs"
    by (induction rule: list_all2_induct) (auto simp: agree_def)
next
  assume "\<exists>zs. those (map f xs) = Some zs \<and> those (map g ys) = Some zs"
  then obtain zs where "those (map f xs) = Some zs" "those (map g ys) = Some zs" by blast
  then show "list_all2 (agree f g) xs ys"
  proof (induction zs arbitrary: xs ys)
    case Nil
    then show ?case by (cases xs; cases ys) (auto split: option.splits)
  next
    case (Cons z zs)
    then obtain x xs' y ys' where xy: "xs = x # xs'" "ys = y # ys'"
      by (cases xs; cases ys) auto
    with Cons.prems have "f x = Some z" "g y = Some z" "those (map f xs') = Some zs" "those (map g ys') = Some zs"
      by (auto split: option.splits)
    with Cons.IH xy show ?case by (auto simp: agree_def)
  qed
qed

lemma positional_iff:
  "(\<forall>i<max (length xs) (length ys). case (get_at xs i, get_at ys i) of
      (Some a, Some b) \<Rightarrow> P a b | (None, None) \<Rightarrow> True | _ \<Rightarrow> False) \<longleftrightarrow> list_all2 P xs ys"
proof
  assume l: "\<forall>i<max (length xs) (length ys). case (get_at xs i, get_at ys i) of
      (Some a, Some b) \<Rightarrow> P a b | (None, None) \<Rightarrow> True | _ \<Rightarrow> False"
  have "length xs = length ys"
  proof (rule ccontr)
    assume "length xs \<noteq> length ys"
    then consider "length xs < length ys" | "length ys < length xs" by linarith
    then show False
      using l [rule_format, of "length xs"] l [rule_format, of "length ys"]
      by cases (auto simp: get_at_def)
  qed
  with l show "list_all2 P xs ys"
    by (auto simp: list_all2_conv_all_nth get_at_def)
next
  assume "list_all2 P xs ys"
  then show "\<forall>i<max (length xs) (length ys). case (get_at xs i, get_at ys i) of
      (Some a, Some b) \<Rightarrow> P a b | (None, None) \<Rightarrow> True | _ \<Rightarrow> False"
    by (auto simp: list_all2_conv_all_nth get_at_def)
qed

lemma set_all_keys: "set (all_keys m m') = fst ` set m \<union> fst ` set m'"
  by (simp add: all_keys_def)

lemma map_of_nth: "distinct (map fst m) \<Longrightarrow> i < length m \<Longrightarrow> map_of m (fst (m ! i)) = Some (snd (m ! i))"
  by simp

lemma keyed_iff:
  assumes "bt_wf m" "bt_wf m'"
  shows "(\<forall>k\<in>set (all_keys m m'). case (map_of m k, map_of m' k) of
      (Some a, Some b) \<Rightarrow> P a b | (None, None) \<Rightarrow> True | _ \<Rightarrow> False) \<longleftrightarrow>
    list_all2 (\<lambda>(k, a) (k', b). k = k' \<and> P a b) m m'" (is "?L \<longleftrightarrow> ?R")
proof
  note d = bt_wf_distinct [OF assms(1)] bt_wf_distinct [OF assms(2)]
  assume l: ?L
  have "map_of m k = None \<longleftrightarrow> map_of m' k = None" for k
  proof (cases "k \<in> set (all_keys m m')")
    case True
    then show ?thesis using l [rule_format, OF True] by (auto split: option.splits)
  next
    case False
    then show ?thesis by (simp add: set_all_keys map_of_eq_None_iff)
  qed
  then have "fst ` set m = fst ` set m'"
    unfolding map_of_eq_None_iff by blast
  then have keys: "map fst m = map fst m'"
    using assms by (intro sorted_distinct_set_unique) (simp_all add: bt_wf_def strict_sorted_iff)
  then have len: "length m = length m'" by (metis length_map)
  show ?R
  proof (simp add: list_all2_conv_all_nth len split_beta, intro allI impI conjI)
    fix i assume i: "i < length m'"
    then show k: "fst (m ! i) = fst (m' ! i)" using keys len by (metis nth_map)
    have "map_of m (fst (m ! i)) = Some (snd (m ! i))" "map_of m' (fst (m' ! i)) = Some (snd (m' ! i))"
      using i len d by (simp_all)
    then show "P (snd (m ! i)) (snd (m' ! i))"
      using l [rule_format, of "fst (m ! i)"] i len k by (simp add: set_all_keys)
  qed
next
  note d = bt_wf_distinct [OF assms(1)] bt_wf_distinct [OF assms(2)]
  assume r: ?R
  then have len: "length m = length m'" by (rule list_all2_lengthD)
  show ?L
  proof
    fix k assume "k \<in> set (all_keys m m')"
    then obtain i where i: "i < length m" "k = fst (m ! i) \<or> k = fst (m' ! i)"
      using len by (auto simp: set_all_keys in_set_conv_nth)
    with r have "k = fst (m ! i)" "k = fst (m' ! i)" "P (snd (m ! i)) (snd (m' ! i))"
      by (auto simp: list_all2_conv_all_nth split_beta)
    moreover from this have "map_of m k = Some (snd (m ! i))" "map_of m' k = Some (snd (m' ! i))"
      using i len map_of_nth [OF d(1), of i] map_of_nth [OF d(2), of i] by metis+
    ultimately show "case (map_of m k, map_of m' k) of
      (Some a, Some b) \<Rightarrow> P a b | (None, None) \<Rightarrow> True | _ \<Rightarrow> False" by simp
  qed
qed

lemma those_keyed_agree:
  assumes "bt_wf m" "bt_wf m'"
  shows "(\<forall>k\<in>set (all_keys m m'). case (map_of m k, map_of m' k) of
      (Some a, Some b) \<Rightarrow> agree f g a b | (None, None) \<Rightarrow> True | _ \<Rightarrow> False) \<longleftrightarrow>
    agree (those_keyed f) (those_keyed g) m m'"
proof -
  have e: "(\<lambda>(k, a) (k', b). k = k' \<and> agree f g a b) =
      agree (\<lambda>(k, x). map_option (Pair k) (f x)) (\<lambda>(k, x). map_option (Pair k) (g x))"
    by (intro ext) (auto simp: agree_def)
  have "agree (those_keyed f) (those_keyed g) m m' \<longleftrightarrow>
      list_all2 (agree (\<lambda>(k, x). map_option (Pair k) (f x)) (\<lambda>(k, x). map_option (Pair k) (g x))) m m'"
    unfolding those_agree by (simp add: agree_def those_keyed_def)
  from trans [OF keyed_iff [OF assms, of "agree f g", unfolded e] this [symmetric]]
  show ?thesis .
qed

section \<open>Values and events\<close>

lemma compare_value_Nil_iff:
  "compare_value R vt rc reg path a b = [] \<longleftrightarrow> value_meaning reg vt rc a = value_meaning reg vt rc b"
  by (auto simp: compare_value_def value_meaning_def Let_def split: option.splits)

lemma compare_event_Nil_iff:
  "compare_event R reg decl path a b = [] \<longleftrightarrow> event_meaning reg decl a = event_meaning reg decl b"
proof (cases "event_name a = event_name b")
  case True
  then show ?thesis
    by (auto simp: compare_event_def event_meaning_def Let_def compare_value_Nil_iff)
next
  case False
  then show ?thesis
    by (auto simp: compare_event_def event_meaning_def Let_def)
qed

lemma compare_events_Nil_iff:
  "compare_events R reg decl path xs ys = [] \<longleftrightarrow> map (event_meaning reg decl) xs = map (event_meaning reg decl) ys"
proof -
  have step: "(let event_path = path @ ''.events['' @ nat_dec i @ '']'' in
       case (get_at xs i, get_at ys i) of
         (Some a, Some b) \<Rightarrow> compare_event R reg decl event_path a b
       | (Some a, None) \<Rightarrow> mismatch event_path (event_name a) ''<missing>''
       | (None, Some b) \<Rightarrow> mismatch event_path ''<missing>'' (event_name b)
       | (None, None) \<Rightarrow> []) = [] \<longleftrightarrow>
     (case (get_at xs i, get_at ys i) of
         (Some a, Some b) \<Rightarrow> event_meaning reg decl a = event_meaning reg decl b
       | (None, None) \<Rightarrow> True | _ \<Rightarrow> False)" for i
    by (simp add: Let_def compare_event_Nil_iff split: option.splits)
  have "compare_events R reg decl path xs ys = [] \<longleftrightarrow>
      (\<forall>i<max (length xs) (length ys). case (get_at xs i, get_at ys i) of
         (Some a, Some b) \<Rightarrow> event_meaning reg decl a = event_meaning reg decl b
       | (None, None) \<Rightarrow> True | _ \<Rightarrow> False)"
    unfolding compare_events_def for_each_Nil_iff step by (simp add: Ball_def del: max_less_iff_conj)
  also have "\<dots> \<longleftrightarrow> list_all2 (\<lambda>a b. event_meaning reg decl a = event_meaning reg decl b) xs ys"
    by (rule positional_iff)
  also have "\<dots> \<longleftrightarrow> map (event_meaning reg decl) xs = map (event_meaning reg decl) ys"
    by (auto simp: list_eq_iff_nth_eq list_all2_conv_all_nth)
  finally show ?thesis .
qed

lemma compare_inputs_clean_iff:
  "clean (compare_inputs R reg decl path a b) \<longleftrightarrow>
     (\<exists>xs ys. operation_inputs a = Some xs \<and> operation_inputs b = Some ys \<and>
        inputs_meaning reg decl xs = inputs_meaning reg decl ys)"
proof -
  have "(\<forall>name\<in>set (all_keys xs ys). inputs_meaning reg decl xs name = inputs_meaning reg decl ys name) \<longleftrightarrow>
      inputs_meaning reg decl xs = inputs_meaning reg decl ys" for xs ys
  proof
    assume l: "\<forall>name\<in>set (all_keys xs ys). inputs_meaning reg decl xs name = inputs_meaning reg decl ys name"
    show "inputs_meaning reg decl xs = inputs_meaning reg decl ys"
    proof
      fix name
      show "inputs_meaning reg decl xs name = inputs_meaning reg decl ys name"
      proof (cases "name \<in> set (all_keys xs ys)")
        case False
        then have "map_of xs name = None" "map_of ys name = None"
          by (simp_all add: set_all_keys map_of_eq_None_iff)
        then show ?thesis by (simp add: inputs_meaning_def)
      qed (use l in blast)
    qed
  qed simp
  then show ?thesis
    by (auto simp: compare_inputs_def for_each_Nil_iff compare_value_Nil_iff inputs_meaning_def [symmetric]
        split: option.splits)
qed

section \<open>Children\<close>

lemma sequential_children_cases:
  "(\<exists>xs. ordered_children cs = Some xs \<and> sequential_children side path cs = Inr xs) \<or>
   (\<exists>errs. ordered_children cs = None \<and> sequential_children side path cs = Inl errs \<and> errs \<noteq> [])"
  by (auto simp: ordered_children_def sequential_children_def Let_def split: option.splits)

lemma identity_loop_result:
  "identity_loop R side path cs m = (errs, m') \<Longrightarrow>
   (errs = [] \<longleftrightarrow> distinct (map span_identity cs) \<and> set (map span_identity cs) \<inter> dom (map_of m) = {}) \<and>
   m' = foldl (\<lambda>m (k, v). bt_insert k v m) m (map (\<lambda>c. (span_identity c, c)) cs)"
proof (induction cs arbitrary: m errs m')
  case (Cons c cs)
  obtain errs' m'' where step: "identity_loop R side path cs (bt_insert (span_identity c) c m) = (errs', m'')"
    by fastforce
  have dom: "dom (map_of (bt_insert (span_identity c) c m)) = insert (span_identity c) (dom (map_of m))"
    by (simp add: map_of_bt_insert)
  have errs: "errs = [] \<longleftrightarrow> span_identity c \<notin> dom (map_of m) \<and> errs' = []" and "m' = m''"
    using Cons.prems step by (auto simp: Let_def split: if_splits)
  with Cons.IH [OF step, unfolded dom] show ?case by auto
qed simp

lemma identity_map_result:
  "identity_map R side path cs = (errs, ms) \<Longrightarrow> ms = keyed span_identity cs \<and> (errs = [] \<longleftrightarrow> ms \<noteq> None)"
  using identity_loop_result [of R side path cs "[]"]
  by (auto simp: identity_map_def keyed_def bt_collect_def split: prod.splits if_splits)

lemma keyed_wf: "keyed f xs = Some m \<Longrightarrow> bt_wf m"
  by (auto simp: keyed_def bt_wf_collect split: if_splits)

lemma compare_parallel_clean_iff:
  assumes rec: "\<And>path a b. clean (rec path a b) \<longleftrightarrow> agree f g a b"
  shows "clean (compare_parallel cx rec path a b) \<longleftrightarrow>
    (\<exists>m m'. keyed span_identity (children_of (reference_index cx) a) = Some m \<and>
       keyed span_identity (children_of (candidate_index cx) b) = Some m' \<and>
       agree (those_keyed f) (those_keyed g) m m')"
proof -
  obtain errs ms errs' ms' where
    i: "identity_map (cmp_renderer cx) ''reference'' path (children_of (reference_index cx) a) = (errs, ms)"
       "identity_map (cmp_renderer cx) ''candidate'' path (children_of (candidate_index cx) b) = (errs', ms')"
    by fastforce
  note r = identity_map_result [OF i(1)] identity_map_result [OF i(2)]
  show ?thesis
  proof (cases "ms = None \<or> ms' = None")
    case True
    then show ?thesis
      using r i by (auto simp: compare_parallel_def Let_def)
  next
    case False
    then obtain m m' where m: "ms = Some m" "ms' = Some m'" by auto
    have k: "keyed span_identity (children_of (reference_index cx) a) = Some m"
        "keyed span_identity (children_of (candidate_index cx) b) = Some m'"
      using r m by simp_all
    have wf: "bt_wf m" "bt_wf m'" using k keyed_wf by blast+
    have i': "identity_map (cmp_renderer cx) ''reference'' path (children_of (reference_index cx) a) = ([], Some m)"
       "identity_map (cmp_renderer cx) ''candidate'' path (children_of (candidate_index cx) b) = ([], Some m')"
      using i r m by simp_all
    have "clean (compare_parallel cx rec path a b) \<longleftrightarrow>
      (\<forall>k\<in>set (all_keys m m'). case (map_of m k, map_of m' k) of
          (Some a, Some b) \<Rightarrow> agree f g a b | (None, None) \<Rightarrow> True | _ \<Rightarrow> False)"
      unfolding compare_parallel_def i' Let_def
      by (simp, intro ball_cong refl) (simp add: rec split: option.splits)
    also have "\<dots> \<longleftrightarrow> agree (those_keyed f) (those_keyed g) m m'"
      by (rule those_keyed_agree [OF wf])
    finally show ?thesis by (simp add: k)
  qed
qed

lemma compare_children_clean_iff:
  assumes rec: "\<And>path a b. clean (rec path a b) \<longleftrightarrow> agree f g a b"
    and "span_name a \<noteq> ''conformance.parallel''" "span_name b \<noteq> ''conformance.parallel''"
  shows "clean (compare_children cx rec path a b) \<longleftrightarrow>
    (\<exists>xs ys. ordered_children (children_of (reference_index cx) a) = Some xs \<and>
       ordered_children (children_of (candidate_index cx) b) = Some ys \<and> list_all2 (agree f g) xs ys)"
proof -
  note r = sequential_children_cases [of "children_of (reference_index cx) a" "''reference''" path]
    and c = sequential_children_cases [of "children_of (candidate_index cx) b" "''candidate''" path]
  show ?thesis
  proof (cases "ordered_children (children_of (reference_index cx) a) = None \<or>
      ordered_children (children_of (candidate_index cx) b) = None")
    case True
    then show ?thesis using r c assms(2,3) by (auto simp: compare_children_def)
  next
    case False
    then obtain xs ys where o: "ordered_children (children_of (reference_index cx) a) = Some xs"
      "ordered_children (children_of (candidate_index cx) b) = Some ys" by auto
    have s: "sequential_children ''reference'' path (children_of (reference_index cx) a) = Inr xs"
      "sequential_children ''candidate'' path (children_of (candidate_index cx) b) = Inr ys"
      using r c o by auto
    have n: "\<not> (span_name a = ''conformance.parallel'' \<or> span_name b = ''conformance.parallel'')"
      using assms(2,3) by blast
    have "clean (compare_children cx rec path a b) \<longleftrightarrow>
      (\<forall>i\<in>{0..<max (length xs) (length ys)}. case (get_at xs i, get_at ys i) of
          (Some a, Some b) \<Rightarrow> agree f g a b | (None, None) \<Rightarrow> True | _ \<Rightarrow> False)"
      unfolding compare_children_def s Let_def sum.case if_not_P [OF n] clean_do_all set_map ball_simps set_upt
      by (intro ball_cong refl) (simp add: rec split: option.splits)
    also have "\<dots> \<longleftrightarrow> (\<forall>i<max (length xs) (length ys). case (get_at xs i, get_at ys i) of
          (Some a, Some b) \<Rightarrow> agree f g a b | (None, None) \<Rightarrow> True | _ \<Rightarrow> False)"
      by (simp only: Ball_def atLeastLessThan_iff le0 simp_thms)
    also have "\<dots> \<longleftrightarrow> list_all2 (agree f g) xs ys"
      by (rule positional_iff)
    finally show ?thesis using o by simp
  qed
qed

section \<open>Spans and documents\<close>

lemma compare_operation_clean_iff:
  assumes rec: "\<And>path a b. clean (rec path a b) \<longleftrightarrow>
      agree (span_meaning (cmp_registry cx) (reference_index cx) n) (span_meaning (cmp_registry cx) (candidate_index cx) n) a b"
    and names: "span_name a = ''conformance.operation''" "span_name b = ''conformance.operation''"
  shows "clean (compare_operation cx rec path a b) \<longleftrightarrow>
    agree (span_meaning (cmp_registry cx) (reference_index cx) (Suc n))
      (span_meaning (cmp_registry cx) (candidate_index cx) (Suc n)) a b"
proof -
  let ?c = "\<lambda>span. attribute_string span ''conformance.component.id''"
    and ?o = "\<lambda>span. attribute_string span ''conformance.operation.name''"
  have np: "span_name a \<noteq> ''conformance.parallel''" "span_name b \<noteq> ''conformance.parallel''"
    using names by simp_all
  note children = compare_children_clean_iff [OF rec np, unfolded those_agree]
  show ?thesis
  proof (cases "?c a = ?c b \<and> ?o a = ?o b")
    case True
    then have d: "span_declaration (cmp_registry cx) b = span_declaration (cmp_registry cx) a"
      by (simp add: span_declaration_def)
    have decl: "Option.bind (cmp_registry cx) (\<lambda>reg. find_operation reg (?c a) (?o a)) = span_declaration (cmp_registry cx) a"
      by (simp add: span_declaration_def)
    show ?thesis
      using True decl names
      by (auto simp: compare_operation_def Let_def children compare_inputs_clean_iff compare_events_Nil_iff
          agree_def d split: option.splits)
  next
    case False
    then show ?thesis
      using names by (auto simp: compare_operation_def Let_def agree_def split: option.splits)
  qed
qed

lemma compare_child_clean_iff:
  "clean (compare_child cx n path a b) \<longleftrightarrow>
   agree (span_meaning (cmp_registry cx) (reference_index cx) n) (span_meaning (cmp_registry cx) (candidate_index cx) n) a b"
proof (induction n arbitrary: path a b)
  case 0
  then show ?case by (simp add: agree_def)
next
  case (Suc n)
  note op_iff = compare_operation_clean_iff [where rec = "compare_child cx n", OF Suc.IH]
    and par_iff = compare_parallel_clean_iff [where rec = "compare_child cx n", OF Suc.IH]
  consider (op) "span_name a = ''conformance.operation''" "span_name b = ''conformance.operation''"
    | (par) "span_name a = ''conformance.parallel''" "span_name b = ''conformance.parallel''"
    | (diff) "span_name a \<noteq> span_name b"
    | (other) "span_name a = span_name b" "span_name a \<noteq> ''conformance.operation''" "span_name a \<noteq> ''conformance.parallel''"
    by metis
  then show ?case
  proof cases
    case op
    then show ?thesis using op_iff [OF op] by (simp del: span_meaning.simps)
  next
    case par
    then show ?thesis
      by (auto simp: compare_events_Nil_iff agree_def par_iff split: option.splits)
  next
    case diff
    then show ?thesis by (auto simp: agree_def Let_def split: option.splits if_splits)
  next
    case other
    then show ?thesis by (auto simp: agree_def split: option.splits)
  qed
qed

lemma compare_container_clean_iff:
  assumes "span_name a = ''conformance.scenario''" "span_name b = ''conformance.scenario''"
  shows "clean (compare_container cx n path a b) \<longleftrightarrow>
    agree (scenario_meaning (cmp_registry cx) (reference_index cx) n)
      (scenario_meaning (cmp_registry cx) (candidate_index cx) n) a b"
proof -
  have np: "span_name a \<noteq> ''conformance.parallel''" "span_name b \<noteq> ''conformance.parallel''"
    using assms by simp_all
  show ?thesis
    using compare_children_clean_iff [where rec = "compare_child cx n", OF compare_child_clean_iff np, unfolded those_agree]
    by (auto simp: compare_container_def compare_events_Nil_iff scenario_meaning_def agree_def split: option.splits)
qed

lemma scenario_loop_result:
  "scenario_loop R side cs m = (errs, m') \<Longrightarrow>
   (errs = [] \<longleftrightarrow> distinct (map scenario_name (filter is_scenario cs)) \<and>
      set (map scenario_name (filter is_scenario cs)) \<inter> dom (map_of m) = {}) \<and>
   m' = foldl (\<lambda>m (k, v). bt_insert k v m) m (map (\<lambda>c. (scenario_name c, c)) (filter is_scenario cs))"
proof (induction cs arbitrary: m errs m')
  case (Cons c cs)
  show ?case
  proof (cases "is_scenario c")
    case True
    obtain errs' m'' where step: "scenario_loop R side cs (bt_insert (scenario_name c) c m) = (errs', m'')"
      by fastforce
    have dom: "dom (map_of (bt_insert (scenario_name c) c m)) = insert (scenario_name c) (dom (map_of m))"
      by (simp add: map_of_bt_insert)
    have errs: "errs = [] \<longleftrightarrow> scenario_name c \<notin> dom (map_of m) \<and> errs' = []" and "m' = m''"
      using Cons.prems step True by (auto simp: Let_def is_scenario_def split: if_splits)
    with Cons.IH [OF step, unfolded dom] True show ?thesis by auto
  next
    case False
    with Cons show ?thesis by (simp add: is_scenario_def)
  qed
qed simp

lemma scenarios_result:
  assumes "scenarios R side index run = (errs, m)"
  shows "errs = [] \<longleftrightarrow> keyed scenario_name (filter is_scenario (children_of index run)) \<noteq> None"
    and "errs = [] \<Longrightarrow> keyed scenario_name (filter is_scenario (children_of index run)) = Some m"
  using scenario_loop_result [OF assms [unfolded scenarios_def]]
  by (auto simp: keyed_def bt_collect_def)

lemma keyed_values: "keyed f xs = Some m \<Longrightarrow> map_of m k = Some x \<Longrightarrow> x \<in> set xs"
  using map_of_SomeD [of m k x] bt_collect_set(1) [of "map (\<lambda>x. (f x, x)) xs"]
  by (auto simp: keyed_def comp_def split: if_splits)

lemma compare_scenarios_clean_iff:
  assumes "bt_wf rs" "bt_wf cs"
    and "\<And>k x. map_of rs k = Some x \<Longrightarrow> is_scenario x" "\<And>k x. map_of cs k = Some x \<Longrightarrow> is_scenario x"
  shows "clean (compare_scenarios cx n rs cs) \<longleftrightarrow>
    agree (those_keyed (scenario_meaning (cmp_registry cx) (reference_index cx) n))
      (those_keyed (scenario_meaning (cmp_registry cx) (candidate_index cx) n)) rs cs"
proof -
  let ?f = "scenario_meaning (cmp_registry cx) (reference_index cx) n"
    and ?g = "scenario_meaning (cmp_registry cx) (candidate_index cx) n"
  have "clean (compare_scenarios cx n rs cs) \<longleftrightarrow>
      (\<forall>k\<in>set (all_keys rs cs). case (map_of rs k, map_of cs k) of
          (Some a, Some b) \<Rightarrow> agree ?f ?g a b | (None, None) \<Rightarrow> True | _ \<Rightarrow> False)"
    unfolding compare_scenarios_def Let_def clean_do_all set_map ball_simps
    using assms(3,4)
    by (intro ball_cong refl)
      (auto simp: compare_container_clean_iff is_scenario_def split: option.splits)
  also have "\<dots> \<longleftrightarrow> agree (those_keyed ?f) (those_keyed ?g) rs cs"
    by (rule those_keyed_agree [OF assms(1,2)])
  finally show ?thesis .
qed

lemma run_selection_Nil: "run_selection side runs = [] \<longleftrightarrow> length runs = 1"
  by (simp add: run_selection_def)

lemma compare_documents_clean_iff:
  "clean (compare_documents R reg n reference candidate) \<longleftrightarrow>
   agree (document_meaning reg n) (document_meaning reg n) reference candidate"
proof (cases "\<exists>rrun crun. runs_of reference = [rrun] \<and> runs_of candidate = [crun]")
  case False
  then have "document_meaning reg n reference = None \<or> document_meaning reg n candidate = None"
    by (auto simp: document_meaning_def split: list.splits)
  moreover have "\<not> (length (runs_of reference) = 1 \<and> length (runs_of candidate) = 1)"
    using False by (auto simp: length_Suc_conv)
  then have "run_selection ''reference'' (runs_of reference) @ run_selection ''candidate'' (runs_of candidate) \<noteq> []"
    by (simp add: run_selection_Nil)
  ultimately show ?thesis
    by (auto simp: compare_documents_def Let_def agree_def split: list.splits)
next
  case True
  then obtain rrun crun where runs: "runs_of reference = [rrun]" "runs_of candidate = [crun]" by blast
  define cx where "cx = \<lparr>cmp_renderer = R, reference_index = trace_index reference,
     candidate_index = trace_index candidate, cmp_registry = reg\<rparr>"
  obtain errs rs errs' cs where
    s: "scenarios R ''reference'' (trace_index reference) rrun = (errs, rs)"
       "scenarios R ''candidate'' (trace_index candidate) crun = (errs', cs)"
    by fastforce
  have "clean (compare_documents R reg n reference candidate) \<longleftrightarrow>
      map (event_meaning reg None) (span_events rrun) = map (event_meaning reg None) (span_events crun) \<and>
      errs = [] \<and> errs' = [] \<and> clean (compare_scenarios cx n rs cs)"
    using s runs by (simp add: compare_documents_def run_selection_def compare_events_Nil_iff cx_def)
  also have "\<dots> \<longleftrightarrow> agree (document_meaning reg n) (document_meaning reg n) reference candidate"
  proof (cases "errs = [] \<and> errs' = []")
    case True
    then have k: "keyed scenario_name (filter is_scenario (children_of (trace_index reference) rrun)) = Some rs"
      "keyed scenario_name (filter is_scenario (children_of (trace_index candidate) crun)) = Some cs"
      using scenarios_result(2) [OF s(1)] scenarios_result(2) [OF s(2)] by simp_all
    have "clean (compare_scenarios cx n rs cs) \<longleftrightarrow>
        agree (those_keyed (scenario_meaning reg (trace_index reference) n))
          (those_keyed (scenario_meaning reg (trace_index candidate) n)) rs cs"
      using compare_scenarios_clean_iff [OF keyed_wf [OF k(1)] keyed_wf [OF k(2)], of cx n]
        keyed_values [OF k(1)] keyed_values [OF k(2)]
      by (simp add: cx_def)
    then show ?thesis
      using True k runs by (auto simp: document_meaning_def agree_def)
  next
    case False
    then show ?thesis
      using scenarios_result(1) [OF s(1)] scenarios_result(1) [OF s(2)] runs
      by (auto simp: document_meaning_def agree_def)
  qed
  finally show ?thesis .
qed

end
