(* ===== verification/Ctsc_Strict.thy ===== *)
theory Ctsc_Strict
  imports Ctsc_Semantics
begin

text \<open>
  Consequences for CTSC Strict: the order of sequential children is the unique chain of
  non-overlapping intervals, meanings do not depend on ids, clocks or record order, and strict
  equivalence is a partial equivalence relation on documents that decides equality of meanings.
\<close>

section \<open>The order of sequential children\<close>

definition span_precedes :: "trace_span \<Rightarrow> trace_span \<Rightarrow> bool" where
  "span_precedes a b \<longleftrightarrow>
     (case (interval_of a, interval_of b) of
        (Some (s, e), Some (s', e')) \<Rightarrow> e \<le> s' \<and> \<not> e' \<le> s
      | _ \<Rightarrow> False)"

abbreviation span_key :: "trace_span \<Rightarrow> nat option \<times> nat option" where
  "span_key span \<equiv> (start_time span, end_time span)"

lemma good_interval: "\<not> bad_interval a \<longleftrightarrow> (\<exists>s e. start_time a = Some s \<and> end_time a = Some e \<and> s \<le> e)"
  by (auto simp: bad_interval_def interval_of_def split: option.splits)

lemma span_precedes_good:
  assumes "start_time a = Some s" "end_time a = Some e" "start_time b = Some s'" "end_time b = Some e'"
  shows "span_precedes a b \<longleftrightarrow> e \<le> s' \<and> \<not> e' \<le> s"
  using assms by (simp add: span_precedes_def interval_of_def)

lemma span_precedes_key:
  "\<not> bad_interval a \<Longrightarrow> \<not> bad_interval b \<Longrightarrow> span_precedes a b \<Longrightarrow> span_key a < span_key b"
  unfolding good_interval by (auto simp: span_precedes_good less_prod_def')

lemma span_precedes_trans:
  "\<not> bad_interval a \<Longrightarrow> \<not> bad_interval b \<Longrightarrow> \<not> bad_interval c \<Longrightarrow>
   span_precedes a b \<Longrightarrow> span_precedes b c \<Longrightarrow> span_precedes a c"
  unfolding good_interval by (auto simp: span_precedes_good)

lemma check_adjacent_None_iff:
  "\<forall>c\<in>set xs. \<not> bad_interval c \<Longrightarrow> check_adjacent xs = None \<longleftrightarrow> sorted_wrt span_precedes xs"
proof (induction xs)
  case (Cons l xs)
  show ?case
  proof (cases xs)
    case xs: (Cons r spans)
    obtain ls le rs re where i: "start_time l = Some ls" "end_time l = Some le" "start_time r = Some rs" "end_time r = Some re"
      using Cons.prems unfolding good_interval xs by (metis list.set_intros)
    have "check_adjacent (l # xs) = None \<longleftrightarrow> span_precedes l r \<and> check_adjacent xs = None"
      using i by (auto simp: xs interval_of_def span_precedes_good split: if_splits)
    also have "check_adjacent xs = None \<longleftrightarrow> sorted_wrt span_precedes xs"
      using Cons by simp
    finally show ?thesis
      using Cons.prems span_precedes_trans [of l r] by (auto simp: xs)
  qed simp
qed simp

lemma sequential_children_spec:
  "sequential_children side path cs = Inr xs \<longleftrightarrow>
     mset xs = mset cs \<and> (\<forall>c\<in>set cs. \<not> bad_interval c) \<and> sorted_wrt span_precedes xs"
proof (cases "\<exists>c\<in>set cs. bad_interval c")
  case True
  then show ?thesis by (auto simp: sequential_children_def)
next
  case False
  let ?s = "sort_key span_key cs"
  have good: "\<forall>c\<in>set ?s. \<not> bad_interval c" using False by simp
  have sorted: "xs = ?s" if "mset xs = mset cs" "sorted_wrt span_precedes xs"
  proof -
    have "sorted_wrt (\<lambda>a b. span_key a < span_key b) xs"
    proof (rule sorted_wrt_mono_rel [OF _ that(2)])
      fix a b assume "a \<in> set xs" "b \<in> set xs" "span_precedes a b"
      moreover have "set xs = set cs" using that(1) by (rule mset_eq_setD)
      ultimately show "span_key a < span_key b" using False span_precedes_key by blast
    qed
    then have "sorted_wrt (<) (map span_key xs)"
      unfolding sorted_wrt_map .
    then have k: "sorted (map span_key xs)" "distinct (map span_key xs)"
      unfolding strict_sorted_iff by blast+
    then have "inj_on span_key (set xs)" by (simp add: distinct_map)
    then show ?thesis
      using sort_key_inj_key_eq [OF that(1) [symmetric] _ k(1)] mset_eq_setD [OF that(1)] by simp
  qed
  have "sequential_children side path cs = Inr xs \<longleftrightarrow> xs = ?s \<and> check_adjacent ?s = None"
    using False by (auto simp: sequential_children_def Let_def split: option.splits)
  also have "\<dots> \<longleftrightarrow> mset xs = mset cs \<and> sorted_wrt span_precedes xs"
    using sorted check_adjacent_None_iff [OF good] by (metis mset_sort)
  finally show ?thesis using False by blast
qed

lemma ordered_children_spec:
  "ordered_children cs = Some xs \<longleftrightarrow>
     mset xs = mset cs \<and> (\<forall>c\<in>set cs. \<not> bad_interval c) \<and> sorted_wrt span_precedes xs"
  using sequential_children_spec [of "[]" "[]" cs xs]
  by (auto simp: ordered_children_def split: sum.splits)

section \<open>Relabelled documents\<close>

text \<open>New trace and span ids, a new clock and new record locations.\<close>

definition relabel :: "(string \<Rightarrow> string) \<Rightarrow> (string \<Rightarrow> string) \<Rightarrow> (nat \<Rightarrow> nat) \<Rightarrow> (string \<Rightarrow> string) \<Rightarrow> trace_span \<Rightarrow> trace_span" where
  "relabel t s g l span = span
     \<lparr>trace_id := t (trace_id span), span_id := s (span_id span), parent_span_id := s (parent_span_id span),
      start_time := map_option g (start_time span), end_time := map_option g (end_time span),
      span_location := l (span_location span)\<rparr>"

lemma relabel_simps [simp]:
  "span_name (relabel t s g l span) = span_name span"
  "span_attributes (relabel t s g l span) = span_attributes span"
  "span_events (relabel t s g l span) = span_events span"
  "attribute_string (relabel t s g l span) key = attribute_string span key"
  "operation_inputs (relabel t s g l span) = operation_inputs span"
  "span_declaration reg (relabel t s g l span) = span_declaration reg span"
  "span_identity (relabel t s g l span) = span_identity span"
  "scenario_name (relabel t s g l span) = scenario_name span"
  "is_scenario (relabel t s g l span) = is_scenario span"
  by (simp_all add: relabel_def attribute_string_def operation_inputs_def span_declaration_def span_identity_def
      scenario_name_def is_scenario_def)

lemma relabel_times:
  assumes "strict_mono g"
  shows "bad_interval (relabel t s g l a) = bad_interval a"
    and "span_precedes (relabel t s g l a) (relabel t s g l b) = span_precedes a b"
  using assms
  by (auto simp: relabel_def bad_interval_def span_precedes_def interval_of_def strict_mono_less strict_mono_less_eq
      split: option.splits)

lemma mset_map_inverse: "mset ys = mset (map f cs) \<Longrightarrow> \<exists>xs. map f xs = ys \<and> mset xs = mset cs"
proof (induction ys arbitrary: cs)
  case (Cons y ys)
  then have "y \<in> f ` set cs" by (metis list.set_intros(1) list.set_map mset_eq_setD)
  then obtain c a b where c: "y = f c" "cs = a @ c # b" by (metis imageE split_list)
  with Cons.prems have "mset ys = mset (map f (a @ b))" by simp
  with Cons.IH obtain xs where "map f xs = ys" "mset xs = mset (a @ b)" by blast
  with c show ?case by (intro exI [of _ "c # xs"]) simp
qed simp

lemma ordered_children_relabel:
  assumes "strict_mono g" "mset ds = mset (map (relabel t s g l) cs)"
  shows "ordered_children ds = map_option (map (relabel t s g l)) (ordered_children cs)"
proof -
  have good: "(\<forall>d\<in>set ds. \<not> bad_interval d) \<longleftrightarrow> (\<forall>c\<in>set cs. \<not> bad_interval c)"
    using mset_eq_setD [OF assms(2)] by (simp add: relabel_times [OF assms(1)])
  have sorted: "sorted_wrt span_precedes (map (relabel t s g l) xs) = sorted_wrt span_precedes xs" for xs
    by (simp add: sorted_wrt_map relabel_times [OF assms(1)])
  have down: "ordered_children ds = Some (map (relabel t s g l) xs)" if "ordered_children cs = Some xs" for xs
    using that good sorted assms(2) unfolding ordered_children_spec by simp
  have up: "\<exists>xs. ordered_children cs = Some xs" if ys: "ordered_children ds = Some ys" for ys
  proof -
    from ys have "mset ys = image_mset (relabel t s g l) (mset cs)"
      unfolding ordered_children_spec using assms(2) by simp
    then obtain xs where "map (relabel t s g l) xs = ys" "mset xs = mset cs"
      using mset_map_inverse [of ys "relabel t s g l" cs] by auto
    then show ?thesis
      using ys good sorted unfolding ordered_children_spec by metis
  qed
  show ?thesis
  proof (cases "ordered_children cs")
    case None
    then have "ordered_children ds = None" using up by (metis option.exhaust option.distinct(1))
    with None show ?thesis by simp
  next
    case (Some xs)
    then show ?thesis using down by simp
  qed
qed

lemma bt_insert_map_snd:
  "bt_insert k (h v) (map (\<lambda>(k, x). (k, h x)) m) = map (\<lambda>(k, x). (k, h x)) (bt_insert k v m)"
  by (induction k v m rule: bt_insert.induct) auto

lemma bt_collect_map_snd:
  "bt_collect (map (\<lambda>(k, x). (k, h x)) xs) = map (\<lambda>(k, x). (k, h x)) (bt_collect xs)"
proof -
  have "foldl (\<lambda>m (k, v). bt_insert k v m) (map (\<lambda>(k, x). (k, h x)) m) (map (\<lambda>(k, x). (k, h x)) xs) =
      map (\<lambda>(k, x). (k, h x)) (foldl (\<lambda>m (k, v). bt_insert k v m) m xs)" for m
    by (induction xs arbitrary: m) (auto simp: bt_insert_map_snd)
  from this [of "[]"] show ?thesis by (simp add: bt_collect_def)
qed

lemma keyed_relabel:
  assumes "\<And>x. f (h x) = f x" "mset ds = mset (map h cs)"
  shows "keyed f ds = map_option (map (\<lambda>(k, x). (k, h x))) (keyed f cs)"
proof -
  have m: "mset (map f ds) = mset (map f cs)"
    using arg_cong [OF assms(2), of "image_mset f"] by (simp add: assms(1) multiset.map_comp comp_def)
  then have d: "distinct (map f ds) \<longleftrightarrow> distinct (map f cs)"
    by (rule mset_eq_imp_distinct_iff)
  have "mset (map (\<lambda>x. (f x, x)) ds) = mset (map (\<lambda>x. (f x, x)) (map h cs))"
    using arg_cong [OF assms(2), of "image_mset (\<lambda>x. (f x, x))"] by (simp only: mset_map)
  moreover have "map (\<lambda>x. (f x, x)) (map h cs) = map (\<lambda>(k, x). (k, h x)) (map (\<lambda>x. (f x, x)) cs)"
    by (simp add: assms(1))
  ultimately have e: "mset (map (\<lambda>x. (f x, x)) ds) = mset (map (\<lambda>(k, x). (k, h x)) (map (\<lambda>x. (f x, x)) cs))"
    by (simp only:)
  have "bt_collect (map (\<lambda>x. (f x, x)) ds) = map (\<lambda>(k, x). (k, h x)) (bt_collect (map (\<lambda>x. (f x, x)) cs))"
    if "distinct (map f cs)"
  proof -
    have "distinct (map fst (map (\<lambda>x. (f x, x)) ds))"
      using that d by (simp add: comp_def)
    from bt_collect_perm [OF e this] show ?thesis by (simp only: bt_collect_map_snd)
  qed
  with d show ?thesis by (simp add: keyed_def)
qed

lemma those_keyed_relabel: "those_keyed f (map (\<lambda>(k, x). (k, h x)) m) = those_keyed (\<lambda>x. f (h x)) m"
  unfolding those_keyed_def map_map by (rule arg_cong [of _ _ those]) auto

section \<open>Meanings of relabelled documents\<close>

definition relabelled ::
    "(string \<Rightarrow> string) \<Rightarrow> (string \<Rightarrow> string) \<Rightarrow> (nat \<Rightarrow> nat) \<Rightarrow> (string \<Rightarrow> string) \<Rightarrow>
     trace_document \<Rightarrow> trace_document \<Rightarrow> bool" where
  "relabelled t s g l doc doc' \<longleftrightarrow>
     inj t \<and> inj s \<and> strict_mono g \<and>
     mset (doc_spans doc') = mset (map (relabel t s g l) (doc_spans doc))"

lemma relabelledD:
  assumes "relabelled t s g l doc doc'"
  shows "inj t" "inj s" "strict_mono g" "mset (doc_spans doc') = mset (map (relabel t s g l) (doc_spans doc))"
  using assms by (simp_all add: relabelled_def)

lemma children_relabel:
  assumes "relabelled t s g l doc doc'"
  shows "mset (children_of (trace_index doc') (relabel t s g l span)) =
   mset (map (relabel t s g l) (children_of (trace_index doc) span))"
proof -
  have "mset (children_of (trace_index doc') (relabel t s g l span)) =
      filter_mset (\<lambda>c. trace_id c = t (trace_id span) \<and> parent_span_id c = s (span_id span))
        (image_mset (relabel t s g l) (mset (doc_spans doc)))"
    using relabelledD(4) [OF assms] by (simp add: children_of_index relabel_def)
  also have "\<dots> = image_mset (relabel t s g l)
      (filter_mset (\<lambda>c. trace_id c = trace_id span \<and> parent_span_id c = span_id span) (mset (doc_spans doc)))"
    using relabelledD(1,2) [OF assms] by (simp add: filter_mset_image_mset relabel_def inj_eq)
  finally show ?thesis by (simp add: children_of_index)
qed

lemma span_meaning_relabel:
  assumes "relabelled t s g l doc doc'"
  shows "span_meaning reg (trace_index doc') n (relabel t s g l span) = span_meaning reg (trace_index doc) n span"
proof (induction n arbitrary: span)
  case (Suc n)
  note o = ordered_children_relabel [OF relabelledD(3) [OF assms] children_relabel [OF assms], of span]
    and k = keyed_relabel [where f = span_identity, OF relabel_simps(7) children_relabel [OF assms], of span]
  have "map (span_meaning reg (trace_index doc') n) (map (relabel t s g l) xs) =
      map (span_meaning reg (trace_index doc) n) xs" for xs
    by (simp add: Suc)
  moreover have "those_keyed (\<lambda>x. span_meaning reg (trace_index doc') n (relabel t s g l x)) m =
      those_keyed (span_meaning reg (trace_index doc) n) m" for m :: "(span_identity \<times> trace_span) list"
    by (simp add: Suc)
  ultimately show ?case
    by (auto simp: o k those_keyed_relabel Let_def simp del: map_map split: option.splits)
qed simp

lemma scenario_meaning_relabel:
  assumes "relabelled t s g l doc doc'"
  shows "scenario_meaning reg (trace_index doc') n (relabel t s g l span) = scenario_meaning reg (trace_index doc) n span"
  using ordered_children_relabel [OF relabelledD(3) [OF assms] children_relabel [OF assms], of span]
  by (auto simp: scenario_meaning_def span_meaning_relabel [OF assms] comp_def split: option.splits)

lemma document_meaning_relabel:
  assumes "relabelled t s g l doc doc'"
  shows "document_meaning reg n doc' = document_meaning reg n doc"
proof -
  have runs: "mset (runs_of doc') = mset (map (relabel t s g l) (runs_of doc))"
    using relabelledD(4) [OF assms] by (simp add: runs_of_def filter_mset_image_mset)
  show ?thesis
  proof (cases "\<exists>run. runs_of doc = [run]")
    case True
    then obtain run where r: "runs_of doc = [run]" by blast
    with runs have r': "runs_of doc' = [relabel t s g l run]" by simp
    have "mset (filter is_scenario (children_of (trace_index doc') (relabel t s g l run))) =
        mset (map (relabel t s g l) (filter is_scenario (children_of (trace_index doc) run)))"
      using children_relabel [OF assms, of run] by (simp add: filter_mset_image_mset)
    note k = keyed_relabel [where f = scenario_name, OF relabel_simps(8) this]
    show ?thesis
      by (auto simp: document_meaning_def r r' k those_keyed_relabel scenario_meaning_relabel [OF assms] split: option.splits)
  next
    case False
    then have "length (runs_of doc) \<noteq> 1" by (auto simp: length_Suc_conv)
    moreover have "length (runs_of doc') = length (runs_of doc)"
      using arg_cong [OF runs, of size] by simp
    ultimately show ?thesis
      by (auto simp: document_meaning_def length_Suc_conv split: list.splits)
  qed
qed

section \<open>A sample trace\<close>

definition sample_trace :: trace_document where
  "sample_trace = \<lparr>doc_spans =
     [sample_span \<lparr>span_id := ''r'', parent_span_id := [], span_name := ''conformance.run'', span_attributes := [],
        span_events := []\<rparr>,
      sample_span \<lparr>span_id := ''p'', parent_span_id := ''r'', span_name := ''conformance.scenario'',
        span_attributes := [(''conformance.scenario.name'', AString ''doubling'')], span_events := []\<rparr>,
      sample_span]\<rparr>"

definition sample_relabelled :: trace_document where
  "sample_relabelled =
     \<lparr>doc_spans = rev (map (relabel (\<lambda>i. i) (\<lambda>i. CHR ''x'' # i) Suc (\<lambda>i. i)) (doc_spans sample_trace))\<rparr>"

lemma sample_trace_self: "compare_documents plain_renderer None 1 sample_trace sample_trace = Inr ([], [])"
  by code_simp

lemma sample_trace_relabelled: "relabelled (\<lambda>i. i) (\<lambda>i. CHR ''x'' # i) Suc (\<lambda>i. i) sample_trace sample_relabelled"
  by (auto simp: relabelled_def sample_relabelled_def strict_mono_def intro: injI)

section \<open>CTSC Strict\<close>

text \<open>
  C1: CTSC Strict decides equality of meanings: a comparison reports neither a diagnostic nor a
  mismatch exactly when both documents have a meaning (one run, unique scenario names, unambiguous
  child order, distinct parallel branches) and these meanings are equal, where typed values are
  compared by their canonical values.
\<close>

theorem compare_documents_decides_meaning:
  "compare_documents R reg n reference candidate = Inr ([], []) \<longleftrightarrow>
   (\<exists>m. document_meaning reg n reference = Some m \<and> document_meaning reg n candidate = Some m)"
  using compare_documents_clean_iff by (simp add: agree_def)

text \<open>
  C25: strict equivalence does not depend on which document is the reference.
\<close>

theorem compare_documents_symmetric:
  "compare_documents R reg n reference candidate = Inr ([], []) \<longleftrightarrow>
   compare_documents R reg n candidate reference = Inr ([], [])"
  unfolding compare_documents_clean_iff agree_def by blast

text \<open>
  Strict equivalence is transitive, so a chain of pairwise equivalent traces has equivalent ends.
\<close>

lemma compare_documents_transitive:
  assumes "compare_documents R reg n a b = Inr ([], [])" "compare_documents R reg n b c = Inr ([], [])"
  shows "compare_documents R reg n a c = Inr ([], [])"
  using assms unfolding compare_documents_clean_iff agree_def by force

text \<open>
  C2: strict comparison ignores producer ids, clocks and record order: renaming trace and span ids
  injectively, replacing the clock by any strictly monotone one, and permuting the span records
  changes no verdict against any other document.
\<close>

theorem compare_documents_relabelled:
  assumes "relabelled t s g l doc doc'"
  shows "compare_documents R reg n doc other = Inr ([], []) \<longleftrightarrow> compare_documents R reg n doc' other = Inr ([], [])"
  unfolding compare_documents_clean_iff agree_def document_meaning_relabel [OF assms] ..

theorem compare_documents_relabelled_witness:
  "sample_relabelled \<noteq> sample_trace \<and> compare_documents plain_renderer None 1 sample_relabelled sample_trace = Inr ([], [])"
proof
  show "sample_relabelled \<noteq> sample_trace"
    by (simp add: sample_relabelled_def sample_trace_def relabel_def sample_span_def)
  show "compare_documents plain_renderer None 1 sample_relabelled sample_trace = Inr ([], [])"
    using compare_documents_relabelled [OF sample_trace_relabelled] sample_trace_self by blast
qed

text \<open>
  C26: the child order used for strict comparison is the only enumeration of the children in which
  every child has a valid interval and ends before its successor starts, and children that admit
  no such enumeration are rejected with a diagnostic.
\<close>

theorem sequential_order_exact:
  "(sequential_children side path cs = Inr xs \<longleftrightarrow>
      mset xs = mset cs \<and> (\<forall>c\<in>set cs. \<not> bad_interval c) \<and> sorted_wrt span_precedes xs) \<and>
   (sequential_children side path cs = Inl errs \<longrightarrow> errs \<noteq> [])"
  by (intro conjI sequential_children_spec) (use sequential_children_cases [of cs side path] in auto)

theorem sequential_order_exact_witness:
  "sequential_children ''reference'' ''run'' [sample_span] = Inr [sample_span]"
  using sequential_order_exact [of "''reference''" "''run''" "[sample_span]" "[sample_span]"]
  by (simp add: bad_interval_def interval_of_def sample_span_def)

text \<open>
  C27: the report of loaded artifacts is equivalent exactly when loading and linked validation
  found nothing and the two documents have the same meaning.
\<close>

theorem compare_loaded_equivalent:
  assumes "loaded_value rt = Some a" "loaded_value ct = Some b"
    and "compare_loaded R n reference candidate rt ct reg = Inr report"
  shows "equivalent report \<longleftrightarrow>
    loaded_issues rt = [] \<and> loaded_issues ct = [] \<and> (\<forall>r. reg = Some r \<longrightarrow> loaded_issues r = []) \<and>
    (\<forall>r. Option.bind reg loaded_value = Some r \<longrightarrow> check_linked R r a = [] \<and> check_linked R r b = []) \<and>
    (\<exists>m. document_meaning (Option.bind reg loaded_value) n a = Some m \<and>
         document_meaning (Option.bind reg loaded_value) n b = Some m)"
proof -
  let ?reg = "Option.bind reg loaded_value"
  have load: "load_failures rt ct reg = [] \<longleftrightarrow> loaded_issues rt = [] \<and> loaded_issues ct = [] \<and>
      (\<forall>r. reg = Some r \<longrightarrow> loaded_issues r = [])"
    by (auto simp: load_failures_def prefix_issues_def split: option.splits)
  have linked: "linked_failures R rt ct reg = [] \<longleftrightarrow>
      (\<forall>r. ?reg = Some r \<longrightarrow> check_linked R r a = [] \<and> check_linked R r b = [])"
    using assms(1,2) by (auto simp: linked_failures_def prefix_issues_def split: option.splits)
  have "equivalent report \<longleftrightarrow> load_failures rt ct reg = [] \<and> linked_failures R rt ct reg = [] \<and>
      compare_documents R ?reg n a b = Inr ([], [])"
    using assms by (auto simp: compare_loaded_def build_report_def Let_def split: sum.splits if_splits)
  then show ?thesis
    unfolding load linked compare_documents_clean_iff agree_def by blast
qed

theorem compare_loaded_equivalent_witness:
  "\<exists>report. compare_loaded plain_renderer 1 ''a'' ''b'' \<lparr>loaded_value = Some sample_trace, loaded_issues = []\<rparr>
      \<lparr>loaded_value = Some sample_trace, loaded_issues = []\<rparr> None = Inr report \<and> equivalent report"
proof -
  let ?l = "\<lparr>loaded_value = Some sample_trace, loaded_issues = []\<rparr>"
  have "compare_loaded plain_renderer 1 ''a'' ''b'' ?l ?l None = Inr (build_report ''a'' ''b'' [] [] [])"
    using sample_trace_self by (simp add: compare_loaded_def load_failures_def linked_failures_def prefix_issues_def)
  moreover have "\<exists>m. document_meaning None 1 sample_trace = Some m"
    using sample_trace_self unfolding compare_documents_clean_iff agree_def by blast
  ultimately show ?thesis
    using compare_loaded_equivalent [of ?l sample_trace ?l sample_trace plain_renderer 1 "''a''" "''b''" None] by simp
qed

end
