(* ===== verification/Ctsc_Validated.thy ===== *)
theory Ctsc_Validated
  imports Ctsc_Ancestry Ctsc_Strict
begin

text \<open>
  What Trace Core validation buys: the shape of a validated operation span, the forest structure of
  a validated trace, and that comparing two validated traces always returns a report (it neither
  panics nor follows parent links forever).
\<close>

section \<open>Events of a validated operation\<close>

definition is_terminal_event :: "trace_event \<Rightarrow> bool" where
  "is_terminal_event event \<longleftrightarrow>
     parse_event_role (event_name event) \<in> {ResultRole, EmptyRole, ErrorRole, FaultRole, AbandonedRole}"

lemma ctsc_event_role: "name \<in> set ctsc_events \<Longrightarrow> parse_event_role name \<noteq> OtherEvent"
  by (auto simp: ctsc_events_def parse_event_role_def)

lemma validate_event_operation:
  assumes "validate_event OperationRole loc st event = ([], st')"
  shows "\<not> terminated st"
    and "parse_event_role (event_name event) = ObservationRole \<and> st' = st \<or> is_terminal_event event \<and> terminated st'"
proof -
  from assms have known: "event_name event \<in> set ctsc_events" and "\<not> terminated st"
    by (auto simp: validate_event_def Let_def split: if_splits event_role.splits)
  then show "\<not> terminated st" by blast
  show "parse_event_role (event_name event) = ObservationRole \<and> st' = st \<or> is_terminal_event event \<and> terminated st'"
    using assms known ctsc_event_role [OF known]
    by (cases "parse_event_role (event_name event)")
      (auto simp: validate_event_def Let_def is_terminal_event_def failure_seen_def)
qed

lemma event_loop_operation:
  assumes "event_loop OperationRole loc i st events = ([], st')"
  shows "\<exists>before after. events = before @ after \<and> length after \<le> 1 \<and>
     (\<forall>e\<in>set before. parse_event_role (event_name e) = ObservationRole) \<and>
     (\<forall>e\<in>set after. is_terminal_event e) \<and> (terminated st' \<longleftrightarrow> terminated st \<or> after \<noteq> [])"
  using assms
proof (induction events arbitrary: i st)
  case (Cons e es)
  obtain found st1 rest where step: "validate_event OperationRole (loc @ ''.events['' @ nat_dec i @ '']'') st e = (found, st1)"
    and loop: "event_loop OperationRole loc (Suc i) st1 es = (rest, st')"
    using Cons.prems by (auto simp: Let_def split: prod.splits)
  with Cons.prems have "found = []" "rest = []" by simp_all
  note v = validate_event_operation [OF step [unfolded this]]
  from v(2) show ?case
  proof
    assume obs: "parse_event_role (event_name e) = ObservationRole \<and> st1 = st"
    obtain before after where "es = before @ after" "length after \<le> 1"
      "\<forall>e\<in>set before. parse_event_role (event_name e) = ObservationRole"
      "\<forall>e\<in>set after. is_terminal_event e" "terminated st' \<longleftrightarrow> terminated st \<or> after \<noteq> []"
      using Cons.IH loop \<open>rest = []\<close> obs by metis
    with obs show ?thesis by (intro exI [of _ "e # before"] exI [of _ after]) simp
  next
    assume fin: "is_terminal_event e \<and> terminated st1"
    have "es = []"
    proof (cases es)
      case (Cons e' es')
      then obtain st2 where "validate_event OperationRole (loc @ ''.events['' @ nat_dec (Suc i) @ '']'') st1 e' = ([], st2)"
        using loop \<open>rest = []\<close> by (auto simp: Let_def split: prod.splits)
      then show ?thesis using validate_event_operation(1) fin by blast
    qed simp
    with fin loop show ?thesis by (intro exI [of _ "[]"] exI [of _ "[e]"]) simp
  qed
qed simp

lemma validated_operation_events:
  assumes "validate_events span = []" "span_name span = ''conformance.operation''"
  shows "\<exists>before after. span_events span = before @ after \<and> length after \<le> 1 \<and>
     (\<forall>e\<in>set before. event_name e = ''conformance.observation'') \<and>
     (\<forall>e\<in>set after. is_terminal_event e) \<and>
     (after = [] \<longrightarrow> span_stat span = Ok) \<and>
     (\<forall>e\<in>set after. event_name e \<in> {''conformance.error'', ''conformance.fault''} \<longrightarrow> span_stat span = Error) \<and>
     (\<forall>e\<in>set after. event_name e = ''conformance.abandoned'' \<longrightarrow> span_stat span = Unset)"
proof -
  have role: "parse_span_role (span_name span) = OperationRole"
    using assms(2) by (simp add: parse_span_role_def)
  obtain found st where loop: "event_loop OperationRole (span_location span) 0 no_counts (span_events span) = (found, st)"
    by fastforce
  with assms(1) role have found: "found = []" and ok: "terminated st \<or> span_stat span = Ok"
    and err: "\<forall>e\<in>set (span_events span). parse_event_role (event_name e) \<in> {ErrorRole, FaultRole} \<longrightarrow> span_stat span = Error"
    and aban: "\<forall>e\<in>set (span_events span). parse_event_role (event_name e) = AbandonedRole \<longrightarrow> span_stat span = Unset"
    by (auto simp: validate_events_def Let_def split: if_splits)
  obtain before after where e: "span_events span = before @ after" "length after \<le> 1"
     "\<forall>e\<in>set before. parse_event_role (event_name e) = ObservationRole"
     "\<forall>e\<in>set after. is_terminal_event e" "terminated st \<longleftrightarrow> after \<noteq> []"
    using event_loop_operation [OF loop [unfolded found]] by (auto simp: no_counts_def)
  have names: "parse_event_role n = ObservationRole \<longleftrightarrow> n = ''conformance.observation''"
    "parse_event_role n \<in> {ErrorRole, FaultRole} \<longleftrightarrow> n \<in> {''conformance.error'', ''conformance.fault''}"
    "parse_event_role n = AbandonedRole \<longleftrightarrow> n = ''conformance.abandoned''" for n
    by (auto simp: parse_event_role_def)
  show ?thesis
    using e ok err aban unfolding names by (intro exI [of _ before] exI [of _ after]) auto
qed

section \<open>One run per trace\<close>

lemma walk_trace_id: "(x, y) \<in> (walk (spans_by_id spans))\<^sup>* \<Longrightarrow> trace_id y = trace_id x"
proof (induction rule: rtrancl_induct)
  case (step y z)
  then have "own_key z = (trace_id y, parent_span_id y)" using step_parent by (auto simp: walk_def)
  with step show ?case by (simp add: own_key_def)
qed simp

lemma resolves_functional: "resolves by_id x r \<Longrightarrow> resolves by_id x r' \<Longrightarrow> r = r'"
proof (induction rule: resolves.induct)
  case (final x r)
  then show ?case using resolves_final by blast
next
  case (parent x p r)
  then show ?case by (auto elim: resolves_cases)
qed

lemma validated_root_ids:
  assumes "validate_ancestry n spans = Some []"
    and "resolve_all (spans_by_id spans) n [] (filter (\<lambda>s. span_name s \<noteq> ''conformance.run'') spans) = Some rs"
    and "(x, Root a) \<in> set rs" "(y, Root b) \<in> set rs" "trace_id x = trace_id y"
  shows "span_id a = span_id b"
proof -
  let ?res = "resolved_roots rs"
  have mem: "(x, span_id a) \<in> set ?res" "(y, span_id b) \<in> set ?res"
    using assms(3,4) by (force simp: resolved_roots_def map_filter_def)+
  then have "span_id a \<in> set (trace_roots ?res (trace_id x))" "span_id b \<in> set (trace_roots ?res (trace_id x))"
    using assms(5) by (force simp: trace_roots_def)+
  moreover have "length (trace_roots ?res (trace_id x)) \<le> 1"
    using assms(1,2) mem(1) by (fastforce simp: validate_ancestry_def Let_def for_each_Nil_iff not_less split: if_splits)
  ultimately show ?thesis
    by (cases "trace_roots ?res (trace_id x)") auto
qed

lemma validated_one_run:
  assumes "validate_semantics n spans = Some []" "length spans < n"
    and "x \<in> set spans" "y \<in> set spans" "trace_id x = trace_id y"
    and "span_name x \<noteq> ''conformance.run''" "span_name y \<noteq> ''conformance.run''"
    and "resolves (spans_by_id spans) x (Root a)" "resolves (spans_by_id spans) y (Root b)"
  shows "a = b"
proof -
  let ?xs = "filter (\<lambda>s. span_name s \<noteq> ''conformance.run'') spans"
  note parts = validate_semantics_parts [OF assms(1)]
  obtain rs where rs: "resolve_all (spans_by_id spans) n [] ?xs = Some rs" "map fst rs = ?xs"
      "\<forall>(x, r)\<in>set rs. resolution_ok (spans_by_id spans) x r"
    using resolve_all_ok [OF parts(1) assms(2), of "[]" ?xs] by (auto simp: cache_ok_def)
  have found: "(z, Root c) \<in> set rs" if z: "z \<in> set ?xs" "resolves (spans_by_id spans) z (Root c)" for z c
  proof -
    from z(1) obtain r where r: "(z, r) \<in> set rs" unfolding rs(2) [symmetric] by auto
    with rs(3) have "resolution_ok (spans_by_id spans) z r" by auto
    then have "r = Root c" using z(2) resolves_functional by (auto simp: resolution_ok_def)
    with r show ?thesis by simp
  qed
  have "span_id a = span_id b"
    by (rule validated_root_ids [OF parts(4) rs(1) found [OF _ assms(8)] found [OF _ assms(9)] assms(5)])
      (use assms(3,4,6,7) in simp_all)
  moreover have "a \<in> set spans" "b \<in> set spans" "trace_id a = trace_id x" "trace_id b = trace_id y"
    using resolves_Root [OF assms(8) refl] resolves_Root [OF assms(9) refl] walk_trace_id walk_star_parent_of assms(3,4)
    by metis+
  ultimately show ?thesis
    using same_key [OF parts(1)] assms(5) by (simp add: own_key_def)
qed

section \<open>Comparison of validated traces returns\<close>

definition returns :: "outcome \<Rightarrow> bool" where
  "returns p \<longleftrightarrow> (\<exists>out. p = Inr out)"

lemma returns_simps [simp]:
  "returns (Inr out)" "returns (report_mismatch ms)" "returns (report_error es)"
  "returns (then_do p q) \<longleftrightarrow> returns p \<and> returns q"
  by (auto simp: returns_def report_mismatch_def report_error_def then_do_def split: sum.splits prod.splits)

lemma returns_do_all [simp]: "returns (do_all ps) \<longleftrightarrow> (\<forall>p\<in>set ps. returns p)"
proof (induction ps)
  case (Cons p ps)
  have "do_all (p # ps) = then_do p (do_all ps)" by (simp add: do_all_def)
  with Cons show ?case by simp
qed (simp add: do_all_def)

lemma compare_parallel_returns:
  assumes "\<And>path x y. x \<in> set (children_of (reference_index cx) a) \<Longrightarrow>
      y \<in> set (children_of (candidate_index cx) b) \<Longrightarrow> returns (rec path x y)"
  shows "returns (compare_parallel cx rec path a b)"
proof -
  obtain errs ms errs' ms' where
    i: "identity_map (cmp_renderer cx) ''reference'' path (children_of (reference_index cx) a) = (errs, ms)"
       "identity_map (cmp_renderer cx) ''candidate'' path (children_of (candidate_index cx) b) = (errs', ms')"
    by fastforce
  have k: "ms = keyed span_identity (children_of (reference_index cx) a)"
    "ms' = keyed span_identity (children_of (candidate_index cx) b)"
    using identity_map_result [OF i(1)] identity_map_result [OF i(2)] by blast+
  show ?thesis
  proof (cases ms)
    case (Some m)
    show ?thesis
    proof (cases ms')
      case (Some m')
      have "returns (rec p x y)" if "map_of m key = Some x" "map_of m' key = Some y" for p key x y
        using that k \<open>ms = Some m\<close> Some keyed_values assms by metis
      then show ?thesis
        by (auto simp: compare_parallel_def Let_def i Some \<open>ms = Some m\<close> split: option.splits)
    qed (simp add: compare_parallel_def i Some)
  qed (simp add: compare_parallel_def i)
qed

lemma compare_children_returns:
  assumes "\<And>path x y. x \<in> set (children_of (reference_index cx) a) \<Longrightarrow>
      y \<in> set (children_of (candidate_index cx) b) \<Longrightarrow> returns (rec path x y)"
  shows "returns (compare_children cx rec path a b)"
proof -
  have mem: "set xs = set cs" if "sequential_children side path cs = Inr xs" for side cs xs
    using that mset_eq_setD unfolding sequential_children_spec by blast
  have "returns (rec p x y)"
    if "sequential_children ''reference'' path (children_of (reference_index cx) a) = Inr xs"
      "sequential_children ''candidate'' path (children_of (candidate_index cx) b) = Inr ys"
      "get_at xs i = Some x" "get_at ys i = Some y" for p xs ys i x y
    using that mem assms by (metis get_at_def nth_mem option.distinct(1) option.inject)
  then show ?thesis
    using compare_parallel_returns [OF assms]
    by (auto simp: compare_children_def Let_def split: sum.splits option.splits)
qed

lemma operation_inputs_validated:
  assumes "validate_span by_id x = []" "span_name x = ''conformance.operation''"
  shows "operation_inputs x \<noteq> None"
  using assms by (auto simp: validate_span_def Let_def validate_role_def parse_span_role_def operation_inputs_def)

definition descendants :: "trace_span list \<Rightarrow> trace_span \<Rightarrow> nat" where
  "descendants spans p = card {c. (c, p) \<in> (parent_of spans)\<^sup>+}"

lemma descendants_finite: "finite {c. (c, p) \<in> (parent_of spans)\<^sup>+}" "{c. (c, p) \<in> (parent_of spans)\<^sup>+} \<subseteq> set spans"
proof -
  show s: "{c. (c, p) \<in> (parent_of spans)\<^sup>+} \<subseteq> set spans"
    by (auto simp: parent_of_def dest: tranclD)
  then show "finite {c. (c, p) \<in> (parent_of spans)\<^sup>+}" using finite_subset by blast
qed

lemma descendants_decrease:
  assumes "acyclic (parent_of spans)" "(c, p) \<in> parent_of spans"
  shows "descendants spans c < descendants spans p"
  unfolding descendants_def
proof (rule psubset_card_mono)
  have "{x. (x, c) \<in> (parent_of spans)\<^sup>+} \<subseteq> {x. (x, p) \<in> (parent_of spans)\<^sup>+}"
    using assms(2) by (auto intro: trancl_into_trancl)
  moreover have "c \<in> {x. (x, p) \<in> (parent_of spans)\<^sup>+}" "c \<notin> {x. (x, c) \<in> (parent_of spans)\<^sup>+}"
    using assms by (auto simp: acyclic_def)
  ultimately show "{x. (x, c) \<in> (parent_of spans)\<^sup>+} \<subset> {x. (x, p) \<in> (parent_of spans)\<^sup>+}" by blast
qed (rule descendants_finite)

lemma descendants_bound:
  assumes "acyclic (parent_of spans)" "p \<in> set spans"
  shows "descendants spans p < length spans"
proof -
  have "{c. (c, p) \<in> (parent_of spans)\<^sup>+} \<subset> set spans"
    using descendants_finite(2) assms by (auto simp: acyclic_def)
  then have "descendants spans p < card (set spans)"
    unfolding descendants_def by (intro psubset_card_mono) simp_all
  also have "\<dots> \<le> length spans" by (rule card_length)
  finally show ?thesis .
qed

lemma child_in_document:
  assumes "c \<in> set (children_of (trace_index doc) p)"
  shows "c \<in> set (doc_spans doc)" "p \<in> set (doc_spans doc) \<Longrightarrow> (c, p) \<in> parent_of (doc_spans doc)"
  using assms by (auto simp: children_of_index parent_of_def)

lemma compare_child_returns:
  assumes "reference_index cx = trace_index ref" "candidate_index cx = trace_index cand"
    and "acyclic (parent_of (doc_spans ref))"
    and "\<And>x. x \<in> set (doc_spans ref) \<Longrightarrow> validate_span ids x = []"
    and "\<And>x. x \<in> set (doc_spans cand) \<Longrightarrow> validate_span ids' x = []"
  shows "a \<in> set (doc_spans ref) \<Longrightarrow> b \<in> set (doc_spans cand) \<Longrightarrow> descendants (doc_spans ref) a < n \<Longrightarrow>
    returns (compare_child cx n path a b)"
proof (induction n arbitrary: path a b)
  case (Suc n)
  have children: "returns (compare_child cx n p x y)"
    if "x \<in> set (children_of (reference_index cx) a)" "y \<in> set (children_of (candidate_index cx) b)" for p x y
    using that child_in_document [of x ref a] child_in_document(1) [of y cand b] assms(1,2) Suc
      descendants_decrease [OF assms(3), of x a]
    by (intro Suc.IH) auto
  have inputs: "returns (compare_inputs R reg decl p a b)"
    if "span_name a = ''conformance.operation''" "span_name b = ''conformance.operation''" for R reg decl p
    using that operation_inputs_validated [of ids a] operation_inputs_validated [of ids' b] assms(4,5) Suc.prems(1,2)
    by (auto simp: compare_inputs_def)
  show ?case
    using inputs compare_children_returns [of cx a b "compare_child cx n", OF children]
      compare_parallel_returns [of cx a b "compare_child cx n", OF children]
    by (simp add: compare_operation_def Let_def)
qed simp

lemma compare_documents_returns:
  assumes "validate_semantics n (doc_spans ref) = Some []" "length (doc_spans ref) < n"
    and "validate_semantics n' (doc_spans cand) = Some []"
  shows "returns (compare_documents R reg (length (doc_spans ref)) ref cand)"
proof -
  define cx where "cx = \<lparr>cmp_renderer = R, reference_index = trace_index ref,
     candidate_index = trace_index cand, cmp_registry = reg\<rparr>"
  have idx: "reference_index cx = trace_index ref" "candidate_index cx = trace_index cand" by (simp_all add: cx_def)
  note acyc = validated_acyclic [OF assms(1,2)]
  have child: "returns (compare_child cx (length (doc_spans ref)) p x y)"
    if "x \<in> set (doc_spans ref)" "y \<in> set (doc_spans cand)" for p x y
    using that compare_child_returns [OF idx acyc validate_semantics_parts(3) [OF assms(1)] validate_semantics_parts(3) [OF assms(3)]]
      descendants_bound [OF acyc] by blast
  have container: "returns (compare_container cx (length (doc_spans ref)) p x y)" for p x y
    using compare_children_returns [of cx x y "compare_child cx (length (doc_spans ref))"] child child_in_document(1) idx
    by (simp add: compare_container_def)
  have "returns (compare_scenarios cx (length (doc_spans ref)) rs cs)" for rs cs
    using container by (auto simp: compare_scenarios_def Let_def split: option.splits)
  then show ?thesis
    by (auto simp: compare_documents_def Let_def cx_def split: list.splits prod.splits)
qed

section \<open>Properties\<close>

definition valid_trace :: trace_document where
  "valid_trace = \<lparr>doc_spans =
     map (\<lambda>s. s\<lparr>trace_id := ''0123456789abcdef0123456789abcdef''\<rparr>)
     [sample_span \<lparr>span_id := ''aaaaaaaaaaaaaaaa'', parent_span_id := [], span_name := ''conformance.run'',
        span_attributes := [(''conformance.run.id'', AString ''r'')], span_events := []\<rparr>,
      sample_span \<lparr>span_id := ''bbbbbbbbbbbbbbbb'', parent_span_id := ''aaaaaaaaaaaaaaaa'', span_name := ''conformance.scenario'',
        span_attributes := [(''conformance.scenario.name'', AString ''doubling'')], span_events := []\<rparr>,
      sample_span \<lparr>span_id := ''cccccccccccccccc'', parent_span_id := ''bbbbbbbbbbbbbbbb''\<rparr>]\<rparr>"

lemma valid_trace_semantics: "validate_semantics 4 (doc_spans valid_trace) = Some []"
  by code_simp

lemma valid_trace_length: "length (doc_spans valid_trace) = 3"
  by (simp add: valid_trace_def)

text \<open>
  C28: an operation span whose events are accepted is a sequence of observations followed by at most
  one terminal event; its status is OK without a terminal event, ERROR for a declared error or a
  fault, and UNSET when abandoned.
\<close>

theorem validated_operation_shape:
  assumes "validate_events span = []" "span_name span = ''conformance.operation''"
  shows "\<exists>before after. span_events span = before @ after \<and> length after \<le> 1 \<and>
     (\<forall>e\<in>set before. event_name e = ''conformance.observation'') \<and>
     (\<forall>e\<in>set after. is_terminal_event e) \<and>
     (after = [] \<longrightarrow> span_stat span = Ok) \<and>
     (\<forall>e\<in>set after. event_name e \<in> {''conformance.error'', ''conformance.fault''} \<longrightarrow> span_stat span = Error) \<and>
     (\<forall>e\<in>set after. event_name e = ''conformance.abandoned'' \<longrightarrow> span_stat span = Unset)"
  by (rule validated_operation_events [OF assms])

theorem validated_operation_shape_witness:
  "\<exists>before after. span_events sample_span = before @ after \<and> length after \<le> 1"
proof -
  have "validate_events sample_span = []" by code_simp
  moreover have "span_name sample_span = ''conformance.operation''" by (simp add: sample_span_def)
  ultimately show ?thesis using validated_operation_shape by blast
qed





text \<open>
  C4: comparing two validated traces returns a report: the comparison neither panics on missing
  operation inputs nor recurses deeper than the reference has spans.
\<close>

theorem compare_documents_total:
  assumes "validate_semantics n (doc_spans reference) = Some []" "length (doc_spans reference) < n"
    and "validate_semantics n' (doc_spans candidate) = Some []"
  shows "\<exists>errs mms. compare_documents R reg (length (doc_spans reference)) reference candidate = Inr (errs, mms)"
  using compare_documents_returns [OF assms] by (auto simp: returns_def)

theorem compare_documents_total_witness:
  "\<exists>errs mms. compare_documents plain_renderer None 3 valid_trace valid_trace = Inr (errs, mms)"
  using compare_documents_total [OF valid_trace_semantics _ valid_trace_semantics] by (simp add: valid_trace_length)

end
