(* ===== verification/Ctsc_Loaded.thy ===== *)
theory Ctsc_Loaded
  imports Ctsc_Loading Ctsc_Validated
begin

text \<open>
  Properties of loading: it always returns, a load without issues reads exactly the CTSC spans of the
  documents, and two such loads can always be compared.
\<close>

lemma resolve_all_returns:
  assumes "set xs \<subseteq> set spans" "length spans < n"
  shows "resolve_all (spans_by_id spans) n cache xs \<noteq> None"
  using assms(1)
proof (induction xs arbitrary: cache)
  case (Cons x xs)
  obtain p where "ancestor_loop (spans_by_id spans) cache n [] x = Some p"
    using ancestor_loop_returns [of spans n "[]" x cache] Cons.prems assms(2) by auto
  then obtain r cache' where "run_ancestor (spans_by_id spans) n cache x = Some (r, cache')"
    by (cases p) (simp add: run_ancestor_def)
  with Cons show ?case by simp
qed simp

lemma validate_semantics_returns: "length spans < n \<Longrightarrow> validate_semantics n spans \<noteq> None"
  by (simp add: validate_semantics_def validate_ancestry_def resolve_all_returns)

lemma load_bytes_returns: "load_bytes cd pd path bytes \<noteq> None"
  using validate_semantics_returns [OF lessI]
  by (auto simp: load_bytes_def Let_def split: option.split prod.split)

lemma load_bytes_document: "load_bytes cd pd path bytes = Some ([], doc) \<Longrightarrow> \<exists>d. doc = Some d"
  by (auto simp: load_bytes_def Let_def split: option.splits prod.splits)

lemma text_lines_Nil: "text_lines text = [] \<Longrightarrow> text = []"
proof -
  assume t: "text_lines text = []"
  have ne: "split_on c s \<noteq> []" for c s by (induction s) (auto split: list.splits)
  have one: "split_on c s = [[]] \<Longrightarrow> s = []" for c s
    by (induction s) (auto split: list.splits if_splits simp: ne)
  from t have "butlast (split_on (CHR 0x0A) text) = []" "last (split_on (CHR 0x0A) text) = []"
    by (auto simp: text_lines_def Let_def split: if_splits)
  then have "split_on (CHR 0x0A) text = [[]]"
    using ne by (metis append_butlast_last_id append_Nil)
  then show ?thesis by (rule one)
qed

lemma parse_documents_clean: "parse_documents pd path text = ([], []) \<Longrightarrow> text = []"
proof -
  assume p: "parse_documents pd path text = ([], [])"
  show ?thesis
  proof (cases "extension path = Some ''jsonl''")
    case True
    let ?f = "\<lambda>i line. let loc = located path (''line '' @ nat_dec (i + 1)) in
       if blank line then (issue loc ''blank JSONL line'', [])
       else case pd line of Inr v \<Rightarrow> ([], [v]) | Inl e \<Rightarrow> (issue loc (mapping_error e), [])"
    have r: "append_from ?f (text_lines text) = ([], [])" using p True by (simp add: parse_documents_def)
    have "list_all2 (\<lambda>line (v :: json). True) (concat (map (\<lambda>line. [line]) (text_lines text))) []"
      by (rule append_from_all2 [OF _ r]) (auto simp: Let_def split: if_splits sum.splits)
    then show ?thesis by (simp add: text_lines_Nil)
  next
    case False
    with p show ?thesis by (auto simp: parse_documents_def split: sum.splits)
  qed
qed

lemma load_bytes_clean:
  assumes "load_bytes cd pd path bytes = Some ([], Some doc)"
  shows "\<exists>documents. parse_documents pd path bytes = ([], documents) \<and>
      load_documents cd path documents = ([], doc_spans doc)"
    "doc_spans doc \<noteq> []" "validate_semantics (Suc (length (doc_spans doc))) (doc_spans doc) = Some []"
proof -
  from assms have u: "utf8_error 0 bytes = None" by (auto simp: load_bytes_def split: option.splits)
  obtain i1 documents i2 spans where p: "parse_documents pd path bytes = (i1, documents)"
    and l: "load_documents cd path documents = (i2, spans)" by fastforce
  from assms have e: "i1 = []" "i2 = []" "doc = \<lparr>doc_spans = spans\<rparr>"
    "validate_semantics (Suc (length spans)) spans = Some []" "\<not> (spans = [] \<and> (documents \<noteq> [] \<or> blank bytes))"
    by (auto simp: load_bytes_def u p l split: if_splits)
  with p l show "\<exists>documents. parse_documents pd path bytes = ([], documents) \<and>
      load_documents cd path documents = ([], doc_spans doc)" by simp
  show "validate_semantics (Suc (length (doc_spans doc))) (doc_spans doc) = Some []" using e by simp
  show "doc_spans doc \<noteq> []"
  proof
    assume "doc_spans doc = []"
    with e have "documents = []" "\<not> blank bytes" by auto
    with parse_documents_clean [of pd path bytes] p e(1) show False by auto
  qed
qed

text \<open>A trace document: one run with one scenario, times as numbers and as a decimal string.\<close>

definition plain_codec :: codec where
  "plain_codec = \<lparr>float_text = (\<lambda>_. []), parse_f64 = (\<lambda>_. None), int_as_f64 = word_of_int, base64_decode = (\<lambda>_. None)\<rparr>"

definition sample_attr :: "string \<Rightarrow> string \<Rightarrow> json" where
  "sample_attr key v = JObject [(''key'', JString key), (''value'', JObject [(''stringValue'', JString v)])]"

definition sample_json_span :: "string \<Rightarrow> json \<Rightarrow> string \<Rightarrow> json list \<Rightarrow> json" where
  "sample_json_span own parent name attrs =
     JObject [(''attributes'', JArray attrs), (''endTimeUnixNano'', JString ''2.0e1''), (''name'', JString name),
       (''parentSpanId'', parent), (''spanId'', JString own), (''startTimeUnixNano'', JNumber (PosInt 10)),
       (''traceId'', JString ''0123456789ABCDEF0123456789abcdef'')]"

definition sample_json :: json where
  "sample_json = JObject [(''resourceSpans'', JArray [JObject
     [(''resource'', JObject [(''attributes'', JArray (map (\<lambda>key. sample_attr key (if key = ''conformance.version'' then ctsc_version else ''x'')) required_attrs))]),
      (''scopeSpans'', JArray [JObject [(''spans'', JArray
        [sample_json_span ''aaaaaaaaaaaaaaaa'' JNull ''conformance.run'' [sample_attr ''conformance.run.id'' ''r''],
         sample_json_span ''bbbbbbbbbbbbbbbb'' (JString ''aaaaaaaaaaaaaaaa'') ''conformance.scenario''
           [sample_attr ''conformance.scenario.name'' ''doubling'']])]])]])]"

definition sample_loaded :: trace_document where
  "sample_loaded = the (snd (the (load_bytes plain_codec (\<lambda>_. Inr sample_json) ''trace.otlp.json'' ''{}'')))"

lemma sample_load: "load_bytes plain_codec (\<lambda>_. Inr sample_json) ''trace.otlp.json'' ''{}'' = Some ([], Some sample_loaded)"
  by code_simp

lemma span_denotes_wf:
  "span_denotes cd m s \<Longrightarrow> attributes_wf (span_attributes s) \<and> (\<forall>e\<in>set (span_events s). attributes_wf (event_attributes e))"
proof -
  assume d: "span_denotes cd m s"
  then have "list_all2 (event_denotes cd) (members m ''events'') (span_events s)" by (simp add: span_denotes_def)
  then have "\<forall>e\<in>set (span_events s). \<exists>v. event_denotes cd v e"
    by (auto simp: list_all2_conv_all_nth in_set_conv_nth) metis
  with d show ?thesis
    using attributes_member_wf unfolding span_denotes_def event_denotes_def by blast
qed

lemma time_member_bound: "time_member cd m key (Some t) \<Longrightarrow> t < 2 ^ 64"
proof -
  assume "time_member cd m key (Some t)"
  then obtain v where "parse_u64 cd v = Some t" by (auto simp: time_member_def)
  then obtain i where "0 \<le> i" "i < 2 ^ 64" "t = nat i"
    by (auto simp: parse_u64_def split: Option.bind_splits if_splits)
  then show ?thesis by (simp add: nat_less_iff)
qed

section \<open>Properties\<close>

text \<open>
  C33: loading returns for every input: the walk along parent links ends within one more step than
  there are spans, whatever the links are, and only text that is not UTF-8 gives no document.
\<close>

theorem load_bytes_total:
  "\<exists>found doc. load_bytes cd pd path bytes = Some (found, doc) \<and>
     (doc = None \<longleftrightarrow> utf8_error 0 bytes \<noteq> None) \<and> (doc = None \<longrightarrow> found \<noteq> [])"
proof (cases "utf8_error 0 bytes")
  case None
  obtain i1 documents where p: "parse_documents pd path bytes = (i1, documents)" by fastforce
  obtain i2 spans where l: "load_documents cd path documents = (i2, spans)" by fastforce
  obtain i4 where "validate_semantics (Suc (length spans)) spans = Some i4"
    using validate_semantics_returns [of spans "Suc (length spans)"] by auto
  with None p l show ?thesis by (simp add: load_bytes_def)
qed (simp add: load_bytes_def)

theorem load_bytes_total_witness:
  "load_bytes plain_codec (\<lambda>_. Inl ''eof'') ''trace.otlp.json'' ''{'' \<noteq> None"
  using load_bytes_total [of plain_codec "\<lambda>_. Inl ''eof''" "''trace.otlp.json''" "''{''"] by auto

text \<open>
  C5: a load that reports nothing reads exactly the CTSC spans of the documents: the spans of the
  result stand one for one, in document order, for the span objects with a CTSC name, and each
  carries its object's identifiers, times, attributes, events and status.
\<close>

theorem load_bytes_exact:
  assumes "load_bytes cd pd path bytes = Some ([], Some doc)"
  shows "\<exists>documents. parse_documents pd path bytes = ([], documents) \<and>
    list_all2 (span_denotes cd) (ctsc_objects documents) (doc_spans doc) \<and> doc_spans doc \<noteq> []"
proof -
  obtain documents where d: "parse_documents pd path bytes = ([], documents)"
    "load_documents cd path documents = ([], doc_spans doc)"
    using load_bytes_clean(1) [OF assms] by blast
  have "list_all2 (span_denotes cd) (ctsc_objects documents) (doc_spans doc)"
    using load_documents_clean [OF d(2)] by (rule list_all2_mono) (simp add: loaded_span_def)
  with d load_bytes_clean(2) [OF assms] show ?thesis by blast
qed

theorem load_bytes_exact_witness:
  "list_all2 (span_denotes plain_codec) (ctsc_objects [sample_json]) (doc_spans sample_loaded)"
proof -
  have "parse_documents (\<lambda>_. Inr sample_json) ''trace.otlp.json'' ''{}'' = ([], [sample_json])"
    by code_simp
  with load_bytes_exact [OF sample_load] show ?thesis by auto
qed

text \<open>
  C31: every span of a load without issues is well formed: its name is a CTSC span name, its
  identifiers are nonzero lowercase hexadecimal of the OTLP widths, its attribute maps are sorted
  with distinct keys and finite doubles at every depth, its interval is present and ordered, and
  its resource carries the required attributes and the supported version.
\<close>

theorem loaded_spans_wf:
  assumes "load_bytes cd pd path bytes = Some ([], Some doc)" "s \<in> set (doc_spans doc)"
  shows "is_hex_id (trace_id s) 32 \<and> is_hex_id (span_id s) 16 \<and> resource_conforms (resource_attributes s) \<and>
    attributes_wf (span_attributes s) \<and> (\<forall>e\<in>set (span_events s). attributes_wf (event_attributes e)) \<and>
    (\<exists>t u. start_time s = Some t \<and> end_time s = Some u \<and> t \<le> u \<and> u < 2 ^ 64)"
proof -
  obtain documents where d: "load_documents cd path documents = ([], doc_spans doc)"
    using load_bytes_clean(1) [OF assms(1)] by blast
  from load_documents_clean [OF this] assms(2) obtain m where m: "loaded_span cd m s"
    by (auto simp: list_all2_conv_all_nth in_set_conv_nth)
  note valid = load_bytes_clean(3) [OF assms(1)]
  have "duplicate_ids (doc_spans doc) = []" using valid by (auto simp: validate_semantics_def)
  then have hex: "is_hex_id (trace_id s) 32" "is_hex_id (span_id s) 16"
    using assms(2) by (auto simp: duplicate_ids_Nil_iff)
  have "\<not> bad_interval s"
    using validate_semantics_parts(3) [OF valid assms(2)] by (auto simp: validate_span_def Let_def)
  then obtain t u where t: "start_time s = Some t" "end_time s = Some u" "t \<le> u"
    by (auto simp: bad_interval_def interval_of_def split: option.splits)
  then have "u < 2 ^ 64" using m time_member_bound [of cd m _ u] by (auto simp: loaded_span_def span_denotes_def)
  with m hex t span_denotes_wf [of cd m s] show ?thesis by (auto simp: loaded_span_def)
qed

theorem loaded_spans_wf_witness: "resource_conforms (resource_attributes (hd (doc_spans sample_loaded)))"
proof -
  have "doc_spans sample_loaded \<noteq> []" by (rule load_bytes_clean(2) [OF sample_load])
  then show ?thesis using loaded_spans_wf [OF sample_load, of "hd (doc_spans sample_loaded)"] by simp
qed

text \<open>
  C34: two traces that load without issues can be compared: the comparison returns a report.
\<close>

theorem loaded_comparison_total:
  assumes "load_bytes cd pd path bytes = Some ([], Some reference)"
    and "load_bytes cd pd path' bytes' = Some ([], Some candidate)"
  shows "\<exists>errs mms. compare_documents R reg (length (doc_spans reference)) reference candidate = Inr (errs, mms)"
  using compare_documents_returns [OF load_bytes_clean(3) [OF assms(1)] _ load_bytes_clean(3) [OF assms(2)]]
  by (simp add: returns_def)

theorem loaded_comparison_total_witness:
  "\<exists>errs mms. compare_documents plain_renderer None (length (doc_spans sample_loaded)) sample_loaded sample_loaded = Inr (errs, mms)"
  by (rule loaded_comparison_total [OF sample_load sample_load])

end
