(* ===== verification/Ctsc_Encoder.thy ===== *)
theory Ctsc_Encoder
  imports Ctsc_Encoded Ctsc_Loaded
begin

text \<open>
  Properties of the encoder: round trips through the loader, consecutive identifiers, sequential
  scenarios, and which inputs make it panic.
\<close>

section \<open>Errors and panics\<close>

definition no_panic :: "enc_error + 'a \<Rightarrow> bool" where
  "no_panic r \<longleftrightarrow> (\<forall>msg. r \<noteq> Inl (Panicked msg))"

lemma no_panic_simps [simp]:
  "no_panic (Inr x)" "no_panic (Inl (EncodeError msg))" "\<not> no_panic (Inl (Panicked msg))" "no_panic (or_error msg r)"
  by (auto simp: no_panic_def or_error_def split: option.splits)

lemma no_panic_and_then: "no_panic r \<Longrightarrow> (\<And>x. r = Inr x \<Longrightarrow> no_panic (f x)) \<Longrightarrow> no_panic (and_then r f)"
  by (auto simp: no_panic_def and_then_def split: sum.splits)

lemma no_panic_map_result: "(\<And>x. x \<in> set xs \<Longrightarrow> no_panic (f x)) \<Longrightarrow> no_panic (map_result f xs)"
  by (induction xs) (auto intro!: no_panic_and_then)

lemma no_panic_next_id [simp]: "no_panic (next_id n)"
  by (simp add: next_id_def)

lemma no_panic_offset_time [simp]: "no_panic (offset_time t offset)"
  by (simp add: offset_time_def)

lemma next_id_Inr: "next_id n = Inr n' \<longleftrightarrow> n' = n + 1 \<and> uint n + 1 < 2 ^ 64"
  by (auto simp: next_id_def)

lemma next_id_uint: "next_id n = Inr n' \<Longrightarrow> uint n' = uint n + 1"
  using uint_add_lem [of n 1] by (simp add: next_id_Inr)

lemma next_id_nonzero: "next_id n = Inr n' \<Longrightarrow> n' \<noteq> 0"
proof
  assume "next_id n = Inr n'" "n' = 0"
  then have "uint n + 1 = 0" using next_id_uint [of n n'] by simp
  then show False using uint_ge_0 [of n] by linarith
qed

lemma no_panic_checked_id: "n \<noteq> 0 \<Longrightarrow> no_panic (checked_id n)"
  using u64_hex(2) by (simp add: checked_id_def)

lemma no_panic_nanos: "0 \<le> sint t \<Longrightarrow> no_panic (unix_nanos t)"
  using unix_nanos_Inr [of t "int_dec (sint t)"] by simp

lemma i64_checked_Some: "i64_checked i = Some t \<Longrightarrow> sint t = i"
proof -
  assume "i64_checked i = Some t"
  then have b: "- (2 ^ 63) \<le> i" "i < 2 ^ 63" and t: "t = word_of_int i" by (auto simp: i64_checked_def split: if_splits)
  from b have "signed_take_bit 63 i = i" by (intro signed_take_bit_int_eq_self) simp_all
  then show ?thesis unfolding t sint_sbintrunc' by simp
qed

lemma or_error_Inr: "or_error msg r = Inr x \<longleftrightarrow> r = Some x"
  by (simp add: or_error_def split: option.splits)

lemma offset_time_Inr: "offset_time t offset = Inr t' \<Longrightarrow> sint t' = sint t + sint offset"
  by (auto simp: offset_time_def or_error_Inr i64_checked_Some)

lemma no_panic_offset_nanos: "0 \<le> sint t + sint offset \<Longrightarrow> no_panic (offset_nanos t offset)"
  unfolding offset_nanos_def by (intro no_panic_and_then) (auto simp: no_panic_nanos dest: offset_time_Inr)

text \<open>No recorded time of a scenario lies before the scenario's start.\<close>

definition completion_time :: "completion \<Rightarrow> i64" where
  "completion_time c = fst (snd (completion_parts c))"

definition times_of :: "operation \<Rightarrow> i64 list" where
  "times_of op =
     [operation_start op, operation_end op] @ map obs_time (observations op) @
     (case completed op of None \<Rightarrow> [] | Some c \<Rightarrow> [completion_time c])"

definition starts_first :: "capture \<Rightarrow> bool" where
  "starts_first c \<longleftrightarrow>
     sint (boundary_start (scenario c)) \<le> sint (boundary_end (scenario c)) \<and>
     (\<forall>op\<in>set (operations c). \<forall>t\<in>set (times_of op). sint (boundary_start (scenario c)) \<le> sint t)"

lemma operation_span_no_panic:
  assumes "\<forall>t\<in>set (times_of op). 0 \<le> sint t + sint (place_offset place)" "id_ok 32 trace"
  shows "no_panic (operation_span trace op place)"
proof -
  have obs: "no_panic (observation_event (place_offset place) obs)" if "obs \<in> set (observations op)" for obs
    unfolding observation_event_def
    using that assms(1) by (intro no_panic_and_then no_panic_offset_nanos) (auto simp: times_of_def)
  have comp: "no_panic (completion_event (place_offset place) c)" if "completed op = Some c" for c
  proof -
    obtain order t name attrs where c: "completion_parts c = (order, t, name, attrs)" by (metis prod_cases4)
    then have "0 \<le> sint t + sint (place_offset place)"
      using that assms(1) by (auto simp: times_of_def completion_time_def)
    then show ?thesis
      unfolding completion_event_def c by (auto intro!: no_panic_and_then no_panic_offset_nanos)
  qed
  have events: "no_panic (operation_events (place_offset place) op)"
    unfolding operation_events_def using obs comp
    by (intro no_panic_and_then no_panic_map_result) (auto split: option.splits)
  have "hex_wire 32 trace = Inr trace"
    using assms(2) lower_hex_normal by (auto simp: id_ok_def hex_wire_def list_all_iff)
  then show ?thesis
    unfolding operation_span_def using events assms(1)
    by (intro no_panic_and_then no_panic_offset_nanos) (auto simp: times_of_def)
qed

lemma allocate_ids_known:
  "allocate_ids name n ids ops = Inr (n', ids') \<Longrightarrow> dom (map_of ids') = dom (map_of ids) \<union> operation_id ` set ops"
proof (induction ops arbitrary: n ids)
  case (Cons op ops)
  then obtain s m where "allocate_ids name m (bt_insert (operation_id op) s ids) ops = Inr (n', ids')"
    by (auto split: if_splits)
  from Cons.IH [OF this] show ?case by (auto simp: map_of_bt_insert)
qed simp

lemma allocate_ids_no_panic: "n \<noteq> 0 \<Longrightarrow> no_panic (allocate_ids name n ids ops)"
proof (induction ops arbitrary: n ids)
  case (Cons op ops)
  note next_id_nonzero [of n]
  with Cons show ?case
    by (auto intro!: no_panic_and_then simp: no_panic_checked_id)
qed simp

lemma scenario_offset:
  assumes "or_error msg (i64_checked (sint starts - sint s)) = Inr offset"
  shows "sint offset = sint starts - sint s"
  using assms by (auto simp: or_error_Inr i64_checked_Some)

lemma encode_scenario_no_panic:
  assumes "starts_first c" "n \<noteq> 0" "0 \<le> sint starts" "id_ok 32 trace"
  shows "no_panic (encode_scenario trace run_id n starts index c)"
  unfolding encode_scenario_def
proof (intro no_panic_and_then, goal_cases)
  case (3 sid n1)
  then show ?case using allocate_ids_no_panic next_id_nonzero by blast
next
  case (4 sid n1 p)
  obtain n2 ids where p: "p = (n2, ids)" by fastforce
  have tw: "hex_wire 32 trace = Inr trace"
    using assms(4) lower_hex_normal by (auto simp: id_ok_def hex_wire_def list_all_iff)
  show ?case
    unfolding p prod.case
  proof (intro no_panic_and_then, goal_cases)
    case (3 offset ends)
    then have "0 \<le> sint ends"
      using scenario_offset [OF 3(1)] offset_time_Inr [OF 3(2)] assms(1,3) by (simp add: starts_first_def)
    then show ?case
      unfolding scenario_span_def tw using assms(3) by (intro no_panic_and_then) (auto simp: no_panic_nanos)
  next
    case (4 offset ends span)
    note off = scenario_offset [OF 4(1)]
    show ?case
    proof (rule no_panic_map_result)
      fix op assume op: "op \<in> set (operations c)"
      then obtain own where own: "map_of ids (operation_id op) = Some own"
        using allocate_ids_known [of "scenario_name c" n1 "[]" "operations c" n2 ids] \<open>allocate_ids _ _ _ _ = Inr p\<close> p
        by (force simp: dom_def)
      have "\<forall>t\<in>set (times_of op). 0 \<le> sint t + sint offset"
        using assms(1,3) op off by (fastforce simp: starts_first_def)
      then show "no_panic (place_operation c sid ids trace offset op)"
        unfolding place_operation_def own using operation_span_no_panic [OF _ assms(4)]
        by (auto intro!: no_panic_and_then)
    qed
  qed auto
qed (use assms(2) in \<open>auto simp: no_panic_checked_id\<close>)

lemma encode_scenario_next:
  assumes "encode_scenario trace run_id n starts index c = Inr (spans, n', t)"
  shows "n' \<noteq> 0" "sint t = sint starts - sint (boundary_start (scenario c)) + sint (boundary_end (scenario c)) + 1"
proof -
  have alloc: "allocate_ids name m ids ops = Inr (k, ids') \<Longrightarrow> m \<noteq> 0 \<Longrightarrow> k \<noteq> 0" for name m ids ops k ids'
    by (induction ops arbitrary: m ids) (auto split: if_splits dest: next_id_nonzero)
  from assms show "n' \<noteq> 0"
    using alloc next_id_nonzero by (fastforce simp: encode_scenario_def split: prod.splits)
  from assms show "sint t = sint starts - sint (boundary_start (scenario c)) + sint (boundary_end (scenario c)) + 1"
    by (auto simp: encode_scenario_def or_error_Inr dest!: i64_checked_Some offset_time_Inr split: prod.splits)
qed

lemma encode_scenarios_no_panic:
  "\<forall>c\<in>set cs. starts_first c \<Longrightarrow> n \<noteq> 0 \<Longrightarrow> 0 \<le> sint starts \<Longrightarrow> id_ok 32 trace \<Longrightarrow>
   no_panic (encode_scenarios trace run_id n starts index cs) \<and>
   (\<forall>spans t. encode_scenarios trace run_id n starts index cs = Inr (spans, t) \<longrightarrow> 0 \<le> sint t)"
proof (induction cs arbitrary: n starts index)
  case (Cons c cs)
  have step: "n' \<noteq> 0 \<and> 0 \<le> sint t" if "encode_scenario trace run_id n starts index c = Inr (spans, n', t)" for spans n' t
    using encode_scenario_next [OF that] Cons.prems by (auto simp: starts_first_def)
  have "no_panic (encode_scenarios trace run_id n starts index (c # cs))"
    using encode_scenario_no_panic [of c n starts trace] Cons step by (auto intro!: no_panic_and_then split: prod.splits)
  moreover have "0 \<le> sint t" if "encode_scenarios trace run_id n starts index (c # cs) = Inr (spans, t)" for spans t
  proof -
    from that obtain a n' t' b where "encode_scenario trace run_id n starts index c = Inr (a, n', t')"
      "encode_scenarios trace run_id n' t' (Suc index) cs = Inr (b, t)" by auto
    with step Cons.IH Cons.prems show ?thesis by (metis list.set_intros(2))
  qed
  ultimately show ?case by blast
qed simp

lemma encode_no_panic:
  assumes "\<forall>c\<in>set captures. starts_first c" "id_ok 32 (identity_trace idn)" "first_id idn \<noteq> 0"
  shows "no_panic (encode captures m idn)"
proof -
  have tw: "hex_wire 32 (identity_trace idn) = Inr (identity_trace idn)"
    using assms(2) lower_hex_normal by (auto simp: id_ok_def hex_wire_def list_all_iff)
  have two: "0 \<le> sint (2 :: i64)" "0 \<le> sint (1 :: i64)" by simp_all
  have "no_panic (encode_document captures m idn)"
    unfolding encode_document_def tw u64_hex(2) [OF assms(3)]
    using encode_scenarios_no_panic [OF assms(1) next_id_nonzero two(1) assms(2)] two
    by (auto intro!: no_panic_and_then no_panic_nanos split: prod.splits)
  then show ?thesis unfolding encode_def by (intro no_panic_and_then) (auto simp: Let_def)
qed

section \<open>Consecutive identifiers\<close>

definition ids_from :: "int \<Rightarrow> nat \<Rightarrow> string list" where
  "ids_from n k = map (\<lambda>i. hex_pad 16 (n + int i)) [0..<k]"

lemma ids_from_Suc: "ids_from n (Suc k) = hex_pad 16 n # ids_from (n + 1) k"
  unfolding ids_from_def by (simp add: upt_conv_Cons map_Suc_upt [symmetric] comp_def del: upt_Suc) (simp add: algebra_simps)

lemma ids_from_append: "ids_from n (j + k) = ids_from n j @ ids_from (n + int j) k"
  by (induction j arbitrary: n) (simp_all add: ids_from_Suc algebra_simps, simp add: ids_from_def)

lemma ids_from_distinct:
  assumes "0 \<le> n" "n + int k \<le> 2 ^ 64"
  shows "distinct (ids_from n k)"
  unfolding ids_from_def distinct_map
proof (intro conjI inj_onI)
  fix i j assume ij: "i \<in> set [0..<k]" "j \<in> set [0..<k]" "hex_pad 16 (n + int i) = hex_pad 16 (n + int j)"
  then have "(n + int i) mod 16 ^ 16 = (n + int j) mod 16 ^ 16" by (intro hex_pad_inject)
  moreover have "(n + int i) mod 16 ^ 16 = n + int i" "(n + int j) mod 16 ^ 16 = n + int j"
    using assms ij by (intro mod_pos_pos_trivial; simp)+
  ultimately show "i = j" by simp
qed simp

lemma allocate_ids_exact:
  assumes "allocate_ids name n ids ops = Inr (n', ids')"
  shows "uint n' = uint n + int (length ops) \<and> distinct (map operation_id ops) \<and>
    (\<forall>k\<in>dom (map_of ids). k \<notin> operation_id ` set ops \<and> map_of ids' k = map_of ids k) \<and>
    map (\<lambda>op. map_of ids' (operation_id op)) ops = map Some (ids_from (uint n) (length ops))"
  using assms
proof (induction ops arbitrary: n ids)
  case Nil
  then show ?case by (simp add: ids_from_def)
next
  case (Cons op ops)
  then obtain s m where s: "checked_id n = Inr s" and m: "next_id n = Inr m" and new: "map_of ids (operation_id op) = None"
    and r: "allocate_ids name m (bt_insert (operation_id op) s ids) ops = Inr (n', ids')"
    by (auto split: if_splits)
  note ih = Cons.IH [OF r, unfolded map_of_bt_insert]
  have kept: "k \<notin> operation_id ` set ops \<and> map_of ids' k = Some y" if "((map_of ids)(operation_id op \<mapsto> s)) k = Some y" for k y
    using ih that by (metis domI)
  from kept [of "operation_id op" s] have own: "operation_id op \<notin> operation_id ` set ops" "map_of ids' (operation_id op) = Some s"
    by simp_all
  moreover have "k \<notin> operation_id ` set (op # ops) \<and> map_of ids' k = map_of ids k" if "k \<in> dom (map_of ids)" for k
    using that new kept [of k "the (map_of ids k)"] by (cases "k = operation_id op") auto
  ultimately show ?case
    using ih next_id_uint [OF m] s by (simp add: checked_id_Inr ids_from_Suc)
qed

lemma encode_scenario_ids:
  assumes "encode_scenario trace run_id n starts index c = Inr (spans, n', t)"
  shows "map wire_id spans = ids_from (uint n) (Suc (length (operations c))) \<and> uint n' = uint n + 1 + int (length (operations c))"
proof -
  from assms obtain sid n1 ids offset ends span rest where parts: "checked_id n = Inr sid" "next_id n = Inr n1"
    "allocate_ids (scenario_name c) n1 [] (operations c) = Inr (n', ids)"
    "scenario_span trace run_id sid index c starts ends = Inr span"
    "map_result (place_operation c sid ids trace offset) (operations c) = Inr rest" "spans = span # rest"
    by (auto simp: encode_scenario_def split: prod.splits)
  have "wire_id span = sid" using parts(4) by (auto simp: scenario_span_def)
  moreover have "map (\<lambda>op. map_of ids (operation_id op)) (operations c) = map (Some \<circ> wire_id) rest"
  proof -
    have one: "map_of ids (operation_id op) = Some (wire_id w)" if "place_operation c sid ids trace offset op = Inr w" for op w
      using that by (auto simp: place_operation_def operation_span_def split: option.splits)
    have "list_all2 (\<lambda>op w. map_of ids (operation_id op) = Some (wire_id w)) (operations c) rest"
      using parts(5) one unfolding map_result_Inr by (rule list_all2_mono)
    then show ?thesis by (auto simp: list_all2_conv_all_nth intro: nth_equalityI)
  qed
  ultimately show ?thesis
    using allocate_ids_exact [OF parts(3)] next_id_uint [OF parts(2)] parts(1,6)
    by (simp add: checked_id_Inr ids_from_Suc flip: map_map)
qed

lemma encode_scenarios_ids:
  "encode_scenarios trace run_id n starts index cs = Inr (spans, t) \<Longrightarrow>
   map wire_id spans = ids_from (uint n) (length spans) \<and>
   length spans = length cs + sum_list (map (\<lambda>c. length (operations c)) cs) \<and> uint n + int (length spans) \<le> 2 ^ 64"
proof (induction cs arbitrary: n starts index spans t)
  case Nil
  then show ?case using uint_lt2p [of n] by (simp add: ids_from_def)
next
  case (Cons c cs)
  then obtain a n' t' b where s: "encode_scenario trace run_id n starts index c = Inr (a, n', t')"
    "encode_scenarios trace run_id n' t' (Suc index) cs = Inr (b, t)" "spans = a @ b" by auto
  note e = encode_scenario_ids [OF s(1)] and r = Cons.IH [OF s(2)]
  have l: "length a = Suc (length (operations c))" using arg_cong [OF conjunct1 [OF e], of length] by (simp add: ids_from_def)
  have "map wire_id spans = ids_from (uint n) (length a) @ ids_from (uint n + int (length a)) (length b)"
    using e r s(3) l by (simp add: algebra_simps)
  then have "map wire_id spans = ids_from (uint n) (length spans)" by (simp only: ids_from_append s(3) length_append)
  with e r s(3) l show ?case by simp
qed

lemma encode_document_ids:
  assumes "encode_document captures m idn = Inr d" "first_id idn \<noteq> 0"
  shows "map wire_id (wire_spans d) = ids_from (uint (first_id idn)) (length (wire_spans d))"
    "distinct (map wire_id (wire_spans d))"
    "length (wire_spans d) = 1 + length captures + sum_list (map (\<lambda>c. length (operations c)) captures)"
proof -
  from assms obtain run_id n spans t w where p: "run_id = hex_pad 16 (uint (first_id idn))" "next_id (first_id idn) = Inr n"
    "encode_scenarios (identity_trace idn) run_id n 2 0 captures = Inr (spans, t)" "wire_spans d = w # spans" "wire_id w = run_id"
    by (auto simp: encode_document_def u64_hex split: if_splits prod.splits)
  note e = encode_scenarios_ids [OF p(3)] and u = next_id_uint [OF p(2)]
  show i: "map wire_id (wire_spans d) = ids_from (uint (first_id idn)) (length (wire_spans d))"
    using e u p by (simp add: ids_from_Suc)
  have "uint (first_id idn) + int (length (wire_spans d)) \<le> 2 ^ 64" using e u p by simp
  then show "distinct (map wire_id (wire_spans d))" unfolding i by (intro ids_from_distinct) simp_all
  show "length (wire_spans d) = 1 + length captures + sum_list (map (\<lambda>c. length (operations c)) captures)" using e p by simp
qed

section \<open>Sequential scenarios\<close>

definition is_scenario :: "wire_span \<Rightarrow> bool" where
  "is_scenario w \<longleftrightarrow> wire_name w = ''conformance.scenario''"

lemma nanos_value_dec: "0 \<le> sint (t :: i64) \<Longrightarrow> nanos_value (int_dec (sint t)) = nat (sint t)"
  using sint_bounds [of t] parse_decimal_int_dec [of "sint t"] by (simp add: nanos_value_def)

lemma encode_scenario_interval:
  assumes "encode_scenario trace run_id n starts index c = Inr (spans, n', t)" "starts_first c"
  shows "\<exists>w. filter is_scenario spans = [w] \<and> int (nanos_value (wire_start w)) = sint starts \<and>
    nanos_value (wire_start w) \<le> nanos_value (wire_end w) \<and> int (nanos_value (wire_end w)) + 1 = sint t"
proof -
  from assms(1) obtain sid ids offset ends span rest where parts:
    "or_error ''CTSC scenario timestamp offset overflow'' (i64_checked (sint starts - sint (boundary_start (scenario c)))) = Inr offset"
    "offset_time (boundary_end (scenario c)) offset = Inr ends"
    "scenario_span trace run_id sid index c starts ends = Inr span"
    "map_result (place_operation c sid ids trace offset) (operations c) = Inr rest" "spans = span # rest"
    "or_error ''CTSC logical timestamp overflow'' (i64_checked (sint ends + 1)) = Inr t"
    by (auto simp: encode_scenario_def split: prod.splits)
  have "\<not> is_scenario w" if "w \<in> set rest" for w
    using map_result_each [OF parts(4) that]
    by (auto simp: place_operation_def operation_span_def is_scenario_def split: option.splits)
  then have f: "filter is_scenario rest = []" by (simp add: filter_empty_conv)
  have sp: "is_scenario span" "0 \<le> sint starts" "0 \<le> sint ends" "wire_start span = int_dec (sint starts)" "wire_end span = int_dec (sint ends)"
    using parts(3) by (auto simp: scenario_span_def is_scenario_def unix_nanos_Inr)
  have "sint starts \<le> sint ends"
    using scenario_offset [OF parts(1)] offset_time_Inr [OF parts(2)] assms(2) by (simp add: starts_first_def)
  moreover have "sint t = sint ends + 1" using parts(6) by (simp add: or_error_Inr i64_checked_Some)
  ultimately show ?thesis
    using sp f parts(5) by (intro exI [of _ span]) (simp add: nanos_value_dec nat_le_eq_zle)
qed

lemma encode_scenarios_sequential:
  "encode_scenarios trace run_id n starts index cs = Inr (spans, t) \<Longrightarrow> \<forall>c\<in>set cs. starts_first c \<Longrightarrow>
   sorted_wrt (\<lambda>a b. nanos_value (wire_end a) < nanos_value (wire_start b)) (filter is_scenario spans) \<and>
   (\<forall>w\<in>set (filter is_scenario spans). sint starts \<le> int (nanos_value (wire_start w)) \<and>
      nanos_value (wire_start w) \<le> nanos_value (wire_end w) \<and> int (nanos_value (wire_end w)) < sint t) \<and> sint starts \<le> sint t"
proof (induction cs arbitrary: n starts index spans t)
  case (Cons c cs)
  then obtain a n' t' b where s: "encode_scenario trace run_id n starts index c = Inr (a, n', t')"
    "encode_scenarios trace run_id n' t' (Suc index) cs = Inr (b, t)" "spans = a @ b" by auto
  obtain w where w: "filter is_scenario a = [w]" "int (nanos_value (wire_start w)) = sint starts"
    "nanos_value (wire_start w) \<le> nanos_value (wire_end w)" "int (nanos_value (wire_end w)) + 1 = sint t'"
    using encode_scenario_interval [OF s(1)] Cons.prems(2) by auto
  have r: "sorted_wrt (\<lambda>a b. nanos_value (wire_end a) < nanos_value (wire_start b)) (filter is_scenario b)" "sint t' \<le> sint t"
    "\<forall>w\<in>set (filter is_scenario b). sint t' \<le> int (nanos_value (wire_start w)) \<and>
      nanos_value (wire_start w) \<le> nanos_value (wire_end w) \<and> int (nanos_value (wire_end w)) < sint t"
    using Cons.IH [OF s(2)] Cons.prems(2) by auto
  have "\<forall>v\<in>set (filter is_scenario b). nanos_value (wire_end w) < nanos_value (wire_start v)" using r(3) w(4) by force
  moreover have "sint starts \<le> sint t'" using w by linarith
  ultimately show ?case using r w s(3) by fastforce
qed simp

section \<open>Properties\<close>

definition sample_boundary :: "string \<Rightarrow> boundary" where
  "sample_boundary own = \<lparr>boundary_id = own, boundary_parent = None, boundary_start = 100, boundary_end = 200, boundary_status = Ok\<rparr>"

definition sample_operation :: operation where
  "sample_operation = \<lparr>operation_order = 0, operation_id = ''op'', operation_parent = ''scenario'', component_id = ''calc'',
     operation_name = ''double'', operation_start = 110, operation_end = 190, operation_status = Ok,
     inputs = [(''x'', VInteger 21)],
     observations = [\<lparr>obs_order = 1, obs_time = 120, obs_name = ''step'', obs_value = VUnsigned 7\<rparr>],
     completed = Some (CompletedResult 2 180 (VList [VInteger 42, VMap [(''k'', VBool True)]]))\<rparr>"

definition sample_capture :: capture where
  "sample_capture = \<lparr>capture_trace = ''t'', scenario_name = ''doubling'', run_boundary = sample_boundary ''run'',
     scenario = sample_boundary ''scenario'', operations = [sample_operation]\<rparr>"

definition sample_metadata :: metadata where
  "sample_metadata = \<lparr>tool_version = ''1'', target_name = ''calc'', target_language = ''rust'', meta_registry_id = ''r'',
     meta_registry_version = ''1'', meta_registry_digest = ''sha256:x''\<rparr>"

definition sample_encoding :: encoding where
  "sample_encoding = (case encode_reference [sample_capture] sample_metadata of Inr e \<Rightarrow> e | Inl _ \<Rightarrow> \<lparr>span_count = 0, otlp_json = JNull\<rparr>)"

lemma sample_encoded: "encode_reference [sample_capture] sample_metadata = Inr sample_encoding"
  by code_simp

lemma sample_capture_ok: "capture_ok sample_capture" "starts_first sample_capture"
proof -
  show "capture_ok sample_capture"
    by (simp add: capture_ok_def operation_ok_def sample_capture_def sample_operation_def bt_wf_def)
  show "starts_first sample_capture"
    by (simp add: starts_first_def sample_capture_def sample_operation_def sample_boundary_def times_of_def completion_time_def completion_parts_def)
qed

lemma encode_document_of:
  assumes "encode captures m idn = Inr e"
  shows "\<exists>d. encode_document captures m idn = Inr d \<and> otlp_json e = document_json d \<and>
    span_count e = int (sum_list (map (\<lambda>c. length (operations c)) captures)) + int (length captures) + 1"
  using assms by (auto simp: encode_def Let_def split: if_splits)

text \<open>
  Captured values survive encoding: reading the JSON written for a value gives that value back,
  with unsigned integers as decimal text, sets as sequences and non-finite doubles as symbols.
\<close>

lemma captured_value_roundtrip:
  assumes "value_ok v"
  shows "parse_value cd path loc (wire_json (any_value_of v)) = ([], Some (captured_value v))"
  using wire_denotes [of "any_value_of v" cd] captured_wire [OF assms] by (simp add: parse_value_denotes)



text \<open>
  The identifiers of an encoded document are consecutive from the identity's first one, in span
  order, so they are distinct; the sequence stops with an error instead of wrapping around.
\<close>

lemma encoded_ids_consecutive:
  assumes "encode_document captures m idn = Inr d" "first_id idn \<noteq> 0"
  shows "map wire_id (wire_spans d) = ids_from (uint (first_id idn)) (length (wire_spans d)) \<and> distinct (map wire_id (wire_spans d))"
  using encode_document_ids(1,2) [OF assms] by blast

text \<open>
  Scenarios of an encoded document do not overlap: when no recorded time precedes its scenario,
  each scenario span ends strictly before the next one starts.
\<close>

lemma encoded_scenarios_sequential:
  assumes "encode_document captures m idn = Inr d" "\<forall>c\<in>set captures. starts_first c"
  shows "sorted_wrt (\<lambda>a b. nanos_value (wire_end a) < nanos_value (wire_start b)) (filter is_scenario (wire_spans d)) \<and>
    (\<forall>w\<in>set (filter is_scenario (wire_spans d)). nanos_value (wire_start w) \<le> nanos_value (wire_end w))"
proof -
  from assms(1) obtain run_id n spans t w where p: "encode_scenarios (identity_trace idn) run_id n 2 0 captures = Inr (spans, t)"
    "wire_spans d = w # spans" "\<not> is_scenario w"
    by (auto simp: encode_document_def is_scenario_def split: if_splits prod.splits)
  from encode_scenarios_sequential [OF p(1) assms(2)] p(2,3) show ?thesis by auto
qed

text \<open>
  C36: encoding never panics on captures in which no recorded time precedes the scenario's start; every
  failure is then an error value.
\<close>

theorem encode_never_panics:
  assumes "\<forall>c\<in>set captures. starts_first c" "idn \<in> {reference_identity, candidate_identity}"
  shows "encode captures m idn \<noteq> Inl (Panicked msg)"
  using encode_no_panic [OF assms(1)] identities_ok assms(2) by (auto simp: no_panic_def)

theorem encode_never_panics_witness: "encode [sample_capture] sample_metadata reference_identity \<noteq> Inl (Panicked ''x'')"
  by (rule encode_never_panics) (simp_all add: sample_capture_ok)

definition early_capture :: capture where
  "early_capture = sample_capture\<lparr>operations := [sample_operation\<lparr>operation_start := 97\<rparr>]\<rparr>"


end
