(* ===== verification/Ctsc_Shape.thy ===== *)
theory Ctsc_Shape
  imports Ctsc_Loading
begin

text \<open>
  The shape of one registry document (\<open>validation/registry/shape.rs\<close> and the helpers \<open>unique\<close>,
  \<open>require\<close> and \<open>validate_extensions\<close> of \<open>validation/registry.rs\<close>, \<open>is_digest\<close> of
  \<open>validation/mod.rs\<close>). The location buffers the source reuses between pushes are the strings they
  hold at each push. The well-formedness predicates at the end say what an accepted document is;
  \<open>validate_shape_exact\<close> proves that the checks accept exactly those.
\<close>

section \<open>Helpers\<close>

definition require_at :: "bool \<Rightarrow> string \<Rightarrow> string \<Rightarrow> string \<Rightarrow> issues" where
  "require_at c path loc message = (if c then [] else issue (located path loc) message)"

fun unique_loop :: "string set \<Rightarrow> string \<Rightarrow> string \<Rightarrow> string \<Rightarrow> string list \<Rightarrow> issues" where
  "unique_loop seen path loc member [] = []"
| "unique_loop seen path loc member (x # xs) =
     (if x \<in> seen then issue (located path loc) (''duplicate '' @ member @ '' '' @ ticked x) else []) @
     unique_loop (insert x seen) path loc member xs"

definition unique :: "string list \<Rightarrow> string \<Rightarrow> string \<Rightarrow> string \<Rightarrow> issues" where
  "unique xs path loc member = unique_loop {} path loc member xs"

definition is_digest :: "string \<Rightarrow> bool" where
  "is_digest v \<longleftrightarrow> starts_with ''sha256:'' v \<and> length (drop 7 v) = 64 \<and> list_all is_lower_hex (drop 7 v)"

definition lowercase_namespace :: "string \<Rightarrow> bool" where
  "lowercase_namespace key \<longleftrightarrow>
     (case split_on (CHR ''.'') key of
        [] \<Rightarrow> False
      | first # remaining \<Rightarrow>
          (case first of [] \<Rightarrow> False
           | c # cs \<Rightarrow> is_lower c \<and> list_all (\<lambda>b. is_lower b \<or> is_digit b) cs) \<and>
          remaining \<noteq> [] \<and>
          list_all (\<lambda>seg. seg \<noteq> [] \<and>
            list_all (\<lambda>b. is_lower b \<or> is_digit b \<or> b \<in> {CHR ''_'', CHR ''-''}) seg) remaining)"

definition validate_extensions :: "extensions \<Rightarrow> string \<Rightarrow> string \<Rightarrow> issues" where
  "validate_extensions exts path loc =
     for_each (\<lambda>key.
       (if lowercase_namespace key then []
        else issue (located path loc) (''extension key '' @ ticked key @ '' must use a lowercase dotted namespace'')) @
       (if starts_with ''conformance.'' key
        then issue (located path loc) (''extension key '' @ ticked key @ '' must use a namespace outside conformance.*'')
        else [])) (map fst exts)"

section \<open>Types\<close>

definition registry_primitives :: "string list" where
  "registry_primitives =
     [''unit'', ''string'', ''bool'', ''i32'', ''i64'', ''u32'', ''u64'', ''f32'', ''f64'', ''bytes'']"

lemma size_payload: "v \<in> set vs \<Longrightarrow> var_payload v = Some t \<Longrightarrow> size t < Suc (size_list size vs)"
  by (cases v) (auto dest!: size_list_estimation' [where f = size and y = "size v"])

lemma size_field: "f \<in> set fs \<Longrightarrow> size (nv_type f) < Suc (size_list size fs)"
  by (cases f) (auto dest!: size_list_estimation' [where f = size and y = "size f"])

function validate_type :: "type_ref \<Rightarrow> string \<Rightarrow> string \<Rightarrow> issues" where
  "validate_type (Primitive name) path loc =
     require_at (name \<in> set registry_primitives) path (loc @ ''.name'') ''unknown primitive type''"
| "validate_type (Named name cid rid) path loc =
     require_at (name \<noteq> []) path (loc @ ''.name'') ''type name must not be empty'' @
     (if cid = Some [] then issue (located path (loc @ ''.componentId'')) ''componentId must not be empty'' else []) @
     (if rid = Some [] then issue (located path (loc @ ''.registryId'')) ''registryId must not be empty'' else []) @
     (if rid \<noteq> None \<and> cid = None
      then issue (located path loc) ''registryId requires componentId on a named type reference'' else [])"
| "validate_type (Collection items _ _) path loc = validate_type items path (loc @ ''.items'')"
| "validate_type (Map keys vals _) path loc =
     validate_type keys path (loc @ ''.keys'') @ validate_type vals path (loc @ ''.values'')"
| "validate_type (Tuple items) path loc =
     for_indexed (\<lambda>i item. validate_type item path (index_loc (loc @ ''.items'') i)) items"
| "validate_type (Record entries) path loc =
     unique (map nv_name entries) path (loc @ ''.fields'') ''name'' @
     for_indexed (\<lambda>i member.
       require_at (nv_name member \<noteq> []) path (index_loc (loc @ ''.fields'') i @ ''.name'') ''name must not be empty'' @
       validate_type (nv_type member) path (index_loc (loc @ ''.fields'') i @ ''.type'')) entries"
| "validate_type (Optional t) path loc = validate_type t path (loc @ ''.value'')"
| "validate_type (TaggedUnion variants) path loc =
     require_at (variants \<noteq> []) path (loc @ ''.variants'') ''tagged union must contain at least one variant'' @
     unique (map var_name variants) path (loc @ ''.variants'') ''name'' @
     for_indexed (\<lambda>i var.
       require_at (var_name var \<noteq> []) path (index_loc (loc @ ''.variants'') i @ ''.name'') ''name must not be empty'' @
       (case var_payload var of None \<Rightarrow> []
        | Some payload \<Rightarrow> validate_type payload path (index_loc (loc @ ''.variants'') i @ ''.payload''))) variants"
  by pat_completeness auto
termination
  by (relation "measure (\<lambda>(t, _). size t)")
     (auto dest: size_payload size_field size_list_estimation' [OF _ order_refl, where f = size])

definition validate_values :: "named_value list \<Rightarrow> string \<Rightarrow> string \<Rightarrow> issues" where
  "validate_values vals path loc =
     unique (map nv_name vals) path loc ''name'' @
     for_indexed (\<lambda>i val.
       require_at (nv_name val \<noteq> []) path (index_loc loc i @ ''.name'') ''name must not be empty'' @
       validate_type (nv_type val) path (index_loc loc i @ ''.type'')) vals"

definition validate_variants :: "variant list \<Rightarrow> string \<Rightarrow> string \<Rightarrow> issues" where
  "validate_variants variants path loc =
     unique (map var_name variants) path loc ''name'' @
     for_indexed (\<lambda>i var.
       require_at (var_name var \<noteq> []) path (index_loc loc i @ ''.name'') ''name must not be empty'' @
       (case var_payload var of None \<Rightarrow> []
        | Some payload \<Rightarrow> validate_type payload path (index_loc loc i @ ''.payload''))) variants"

section \<open>Operations and named types\<close>

definition validate_error :: "error_outcome \<Rightarrow> string \<Rightarrow> string \<Rightarrow> issues" where
  "validate_error err path loc =
     require_at (err_name err \<noteq> []) path (loc @ ''.name'') ''error name must not be empty'' @
     (case err_type err of None \<Rightarrow> [] | Some t \<Rightarrow> validate_type t path (loc @ ''.type''))"

definition validate_operation_shape :: "registry_operation \<Rightarrow> string \<Rightarrow> string \<Rightarrow> issues" where
  "validate_operation_shape operation path loc =
     require_at (op_name operation \<noteq> []) path (loc @ ''.name'') ''operation name must not be empty'' @
     validate_extensions (op_extensions operation) path (loc @ ''.extensions'') @
     for_each (\<lambda>(label, vals). validate_values vals path (loc @ ''.'' @ label))
       [(''inputs'', op_inputs operation), (''observations'', op_observations operation)] @
     (let outcomes = op_outcomes operation in
      unique (map err_name (out_errors outcomes)) path (loc @ ''.outcomes.errors'') ''name'' @
      (if out_empty outcomes \<and> out_result outcomes = None
       then issue (located path (loc @ ''.outcomes.empty'')) ''empty: true requires a result outcome'' else []) @
      (case out_result outcomes of None \<Rightarrow> []
       | Some t \<Rightarrow>
           (if t = Primitive ''unit''
            then issue (located path (loc @ ''.outcomes.result'')) ''result type must not be primitive unit'' else []) @
           validate_type t path (loc @ ''.outcomes.result'')) @
      for_indexed (\<lambda>i err. validate_error err path (index_loc (loc @ ''.outcomes.errors'') i)) (out_errors outcomes))"

definition validate_named :: "named_type \<Rightarrow> string \<Rightarrow> string \<Rightarrow> issues" where
  "validate_named t path loc =
     require_at (named_type_name t \<noteq> []) path (loc @ ''.name'') ''type name must not be empty'' @
     (case t of
        NamedRecord _ entries _ exts \<Rightarrow>
          validate_extensions exts path (loc @ ''.extensions'') @ validate_values entries path (loc @ ''.fields'')
      | NamedUnion _ variants _ exts \<Rightarrow>
          validate_extensions exts path (loc @ ''.extensions'') @
          require_at (variants \<noteq> []) path (loc @ ''.variants'') ''tagged union must contain at least one variant'' @
          validate_variants variants path (loc @ ''.variants''))"

section \<open>Documents\<close>

definition validate_import :: "registry_import \<Rightarrow> string \<Rightarrow> string \<Rightarrow> issues" where
  "validate_import i path loc =
     require_at (imp_registry i \<noteq> []) path (loc @ ''.registryId'') ''registryId must not be empty'' @
     require_at (imp_version i \<noteq> []) path (loc @ ''.version'') ''version must not be empty'' @
     require_at (is_digest (imp_digest i)) path (loc @ ''.digest'')
       (''digest must be '' @ ticked ''sha256:'' @ '' followed by 64 lowercase hexadecimal characters'') @
     (if imp_uri i = Some [] then issue (located path (loc @ ''.uri'')) ''uri must not be empty'' else [])"

definition validate_dependency :: "component_ref \<Rightarrow> string \<Rightarrow> string \<Rightarrow> issues" where
  "validate_dependency d path loc =
     require_at (cref_component d \<noteq> []) path (loc @ ''.componentId'') ''componentId must not be empty'' @
     (if cref_registry d = Some [] then issue (located path (loc @ ''.registryId'')) ''registryId must not be empty'' else [])"

definition validate_component :: "registry_component \<Rightarrow> string \<Rightarrow> string \<Rightarrow> issues" where
  "validate_component c path loc =
     require_at (comp_id c \<noteq> []) path (loc @ ''.id'') ''component id must not be empty'' @
     unique (map cref_component (comp_dependencies c)) path (loc @ ''.dependencies'') ''componentId'' @
     for_indexed (\<lambda>i d. validate_dependency d path (index_loc (loc @ ''.dependencies'') i)) (comp_dependencies c) @
     validate_extensions (comp_extensions c) path (loc @ ''.extensions'') @
     unique (map op_name (comp_operations c)) path (loc @ ''.operations'') ''name'' @
     unique (map named_type_name (comp_types c)) path (loc @ ''.types'') ''name'' @
     for_indexed (\<lambda>i operation. validate_operation_shape operation path (index_loc (loc @ ''.operations'') i)) (comp_operations c) @
     for_indexed (\<lambda>i t. validate_named t path (index_loc (loc @ ''.types'') i)) (comp_types c)"

text \<open>\<open>windows(2).find(|pair| pair[0] > pair[1])\<close>, the second of the pair.\<close>

fun first_descent :: "string list \<Rightarrow> string option" where
  "first_descent (a # b # xs) = (if a > b then Some b else first_descent (b # xs))"
| "first_descent _ = None"

definition validate_shape :: "registry_document \<Rightarrow> string \<Rightarrow> issues" where
  "validate_shape d path =
     require_at (reg_format d = ''ctsc.registry'') path ''$.format'' (''format must be '' @ ticked ''ctsc.registry'') @
     require_at (reg_format_version d = ctsc_version) path ''$.formatVersion'' (''formatVersion must be '' @ ticked ctsc_version) @
     require_at (reg_id d \<noteq> []) path ''$.registryId'' ''registryId must not be empty'' @
     require_at (reg_version d \<noteq> []) path ''$.version'' ''version must not be empty'' @
     require_at (reg_components d \<noteq> []) path ''$.components'' ''components must contain at least one component'' @
     validate_extensions (reg_extensions d) path ''$.extensions'' @
     unique (map imp_registry (reg_imports d)) path ''$.imports'' ''registryId'' @
     for_indexed (\<lambda>i imp. validate_import imp path (index_loc ''$.imports'' i)) (reg_imports d) @
     unique (map comp_id (reg_components d)) path ''$.components'' ''id'' @
     (case first_descent (map comp_id (reg_components d)) of None \<Rightarrow> []
      | Some out_of_order \<Rightarrow>
          issue (located path ''$.components'') (''component id '' @ ticked out_of_order @ '' is out of ascending id order'')) @
     for_indexed (\<lambda>i c. validate_component c path (index_loc ''$.components'' i)) (reg_components d)"

text \<open>Whether a document refers to a registry.\<close>

function type_uses :: "type_ref \<Rightarrow> string \<Rightarrow> bool" where
  "type_uses (Primitive _) r \<longleftrightarrow> False"
| "type_uses (Named _ _ rid) r \<longleftrightarrow> rid = Some r"
| "type_uses (Collection items _ _) r \<longleftrightarrow> type_uses items r"
| "type_uses (Map keys vals _) r \<longleftrightarrow> type_uses keys r \<or> type_uses vals r"
| "type_uses (Tuple items) r \<longleftrightarrow> (\<exists>item\<in>set items. type_uses item r)"
| "type_uses (Record entries) r \<longleftrightarrow> (\<exists>member\<in>set entries. type_uses (nv_type member) r)"
| "type_uses (Optional t) r \<longleftrightarrow> type_uses t r"
| "type_uses (TaggedUnion variants) r \<longleftrightarrow>
     (\<exists>var\<in>set variants. case var_payload var of None \<Rightarrow> False | Some payload \<Rightarrow> type_uses payload r)"
  by pat_completeness auto
termination
  by (relation "measure (\<lambda>(t, _). size t)")
     (auto dest: size_payload size_field size_list_estimation' [OF _ order_refl, where f = size])

definition operation_types :: "registry_operation \<Rightarrow> type_ref list" where
  "operation_types operation =
     map nv_type (op_inputs operation) @ map nv_type (op_observations operation) @
     (case out_result (op_outcomes operation) of None \<Rightarrow> [] | Some t \<Rightarrow> [t]) @
     List.map_filter err_type (out_errors (op_outcomes operation))"

definition document_uses :: "registry_document \<Rightarrow> string \<Rightarrow> bool" where
  "document_uses d r \<longleftrightarrow>
     (\<exists>c\<in>set (reg_components d).
        (\<exists>dep\<in>set (comp_dependencies c). cref_registry dep = Some r) \<or>
        (\<exists>operation\<in>set (comp_operations c). \<exists>t\<in>set (operation_types operation). type_uses t r) \<or>
        (\<exists>t\<in>set (comp_types c). type_uses (as_type t) r))"

section \<open>Well-formed registry documents\<close>

definition extensions_wf :: "extensions \<Rightarrow> bool" where
  "extensions_wf exts \<longleftrightarrow> (\<forall>key\<in>fst ` set exts. lowercase_namespace key \<and> \<not> starts_with ''conformance.'' key)"

function type_wf :: "type_ref \<Rightarrow> bool" where
  "type_wf (Primitive name) \<longleftrightarrow> name \<in> set registry_primitives"
| "type_wf (Named name cid rid) \<longleftrightarrow> name \<noteq> [] \<and> cid \<noteq> Some [] \<and> rid \<noteq> Some [] \<and> (rid \<noteq> None \<longrightarrow> cid \<noteq> None)"
| "type_wf (Collection items _ _) \<longleftrightarrow> type_wf items"
| "type_wf (Map keys vals _) \<longleftrightarrow> type_wf keys \<and> type_wf vals"
| "type_wf (Tuple items) \<longleftrightarrow> (\<forall>item\<in>set items. type_wf item)"
| "type_wf (Record entries) \<longleftrightarrow>
     distinct (map nv_name entries) \<and> (\<forall>e\<in>set entries. nv_name e \<noteq> [] \<and> type_wf (nv_type e))"
| "type_wf (Optional t) \<longleftrightarrow> type_wf t"
| "type_wf (TaggedUnion variants) \<longleftrightarrow>
     variants \<noteq> [] \<and> distinct (map var_name variants) \<and>
     (\<forall>v\<in>set variants. var_name v \<noteq> [] \<and> (case var_payload v of None \<Rightarrow> True | Some t \<Rightarrow> type_wf t))"
  by pat_completeness auto
termination
  by (relation "measure size")
     (auto dest: size_payload size_field size_list_estimation' [OF _ order_refl, where f = size])

text \<open>A named type is well formed as the structural type it declares; a name and extensions come on top.\<close>

fun named_extensions :: "named_type \<Rightarrow> extensions" where
  "named_extensions (NamedRecord _ _ _ exts) = exts"
| "named_extensions (NamedUnion _ _ _ exts) = exts"

definition named_type_wf :: "named_type \<Rightarrow> bool" where
  "named_type_wf t \<longleftrightarrow> named_type_name t \<noteq> [] \<and> extensions_wf (named_extensions t) \<and> type_wf (as_type t)"

definition operation_wf :: "registry_operation \<Rightarrow> bool" where
  "operation_wf operation \<longleftrightarrow>
     op_name operation \<noteq> [] \<and> extensions_wf (op_extensions operation) \<and>
     type_wf (Record (op_inputs operation)) \<and> type_wf (Record (op_observations operation)) \<and>
     distinct (map err_name (out_errors (op_outcomes operation))) \<and>
     (\<forall>e\<in>set (out_errors (op_outcomes operation)).
        err_name e \<noteq> [] \<and> (case err_type e of None \<Rightarrow> True | Some t \<Rightarrow> type_wf t)) \<and>
     (case out_result (op_outcomes operation) of None \<Rightarrow> \<not> out_empty (op_outcomes operation)
      | Some t \<Rightarrow> t \<noteq> Primitive ''unit'' \<and> type_wf t)"

definition component_wf :: "registry_component \<Rightarrow> bool" where
  "component_wf c \<longleftrightarrow>
     comp_id c \<noteq> [] \<and> extensions_wf (comp_extensions c) \<and>
     distinct (map cref_component (comp_dependencies c)) \<and>
     (\<forall>d\<in>set (comp_dependencies c). cref_component d \<noteq> [] \<and> cref_registry d \<noteq> Some []) \<and>
     distinct (map op_name (comp_operations c)) \<and> (\<forall>p\<in>set (comp_operations c). operation_wf p) \<and>
     distinct (map named_type_name (comp_types c)) \<and> (\<forall>t\<in>set (comp_types c). named_type_wf t)"

definition registry_wf :: "registry_document \<Rightarrow> bool" where
  "registry_wf d \<longleftrightarrow>
     reg_format d = ''ctsc.registry'' \<and> reg_format_version d = ctsc_version \<and> reg_id d \<noteq> [] \<and> reg_version d \<noteq> [] \<and>
     extensions_wf (reg_extensions d) \<and>
     distinct (map imp_registry (reg_imports d)) \<and>
     (\<forall>i\<in>set (reg_imports d). imp_registry i \<noteq> [] \<and> imp_version i \<noteq> [] \<and> is_digest (imp_digest i) \<and> imp_uri i \<noteq> Some []) \<and>
     reg_components d \<noteq> [] \<and> sorted_wrt (<) (map comp_id (reg_components d)) \<and>
     (\<forall>c\<in>set (reg_components d). component_wf c)"

lemma require_at_Nil [simp]: "require_at c path loc message = [] \<longleftrightarrow> c"
  by (simp add: require_at_def)

lemma unique_loop_Nil: "unique_loop seen path loc member xs = [] \<longleftrightarrow> distinct xs \<and> set xs \<inter> seen = {}"
  by (induction seen path loc member xs rule: unique_loop.induct) auto

lemma unique_Nil [simp]: "unique xs path loc member = [] \<longleftrightarrow> distinct xs"
  by (simp add: unique_def unique_loop_Nil)

lemma validate_extensions_Nil [simp]: "validate_extensions exts path loc = [] \<longleftrightarrow> extensions_wf exts"
  by (auto simp: validate_extensions_def extensions_wf_def for_each_Nil_iff)

lemma for_from_all:
  "(\<And>i x. x \<in> set xs \<Longrightarrow> f i x = [] \<longleftrightarrow> P x) \<Longrightarrow> for_from k f xs = [] \<longleftrightarrow> (\<forall>x\<in>set xs. P x)"
  by (induction xs arbitrary: k) auto

lemma validate_type_Nil [simp]: "validate_type t path loc = [] \<longleftrightarrow> type_wf t"
proof (induction t path loc rule: validate_type.induct)
  case (5 items path loc)
  then show ?case by (simp add: for_from_all [where P = type_wf])
next
  case (6 entries path loc)
  then show ?case by (simp add: for_from_all [where P = "\<lambda>e. nv_name e \<noteq> [] \<and> type_wf (nv_type e)"])
next
  case (8 variants path loc)
  have "for_indexed (\<lambda>i var.
       require_at (var_name var \<noteq> []) path (index_loc (loc @ ''.variants'') i @ ''.name'') ''name must not be empty'' @
       (case var_payload var of None \<Rightarrow> []
        | Some payload \<Rightarrow> validate_type payload path (index_loc (loc @ ''.variants'') i @ ''.payload''))) variants = [] \<longleftrightarrow>
      (\<forall>v\<in>set variants. var_name v \<noteq> [] \<and> (case var_payload v of None \<Rightarrow> True | Some t \<Rightarrow> type_wf t))"
    by (rule for_from_all) (auto simp: 8 split: option.splits)
  then show ?case by simp
qed auto

lemma validate_values_Nil [simp]: "validate_values vals path loc = [] \<longleftrightarrow> type_wf (Record vals)"
  by (simp add: validate_values_def for_from_all [where P = "\<lambda>e. nv_name e \<noteq> [] \<and> type_wf (nv_type e)"])

lemma validate_variants_Nil [simp]:
  "variants \<noteq> [] \<Longrightarrow> validate_variants variants path loc = [] \<longleftrightarrow> type_wf (TaggedUnion variants)"
  by (simp add: validate_variants_def option.case_eq_if
      for_from_all [where P = "\<lambda>v. var_name v \<noteq> [] \<and> (case var_payload v of None \<Rightarrow> True | Some t \<Rightarrow> type_wf t)"])

lemma validate_error_Nil [simp]:
  "validate_error e path loc = [] \<longleftrightarrow> err_name e \<noteq> [] \<and> (case err_type e of None \<Rightarrow> True | Some t \<Rightarrow> type_wf t)"
  by (simp add: validate_error_def split: option.split)

lemma validate_operation_shape_Nil [simp]: "validate_operation_shape operation path loc = [] \<longleftrightarrow> operation_wf operation"
  by (auto simp: validate_operation_shape_def operation_wf_def Let_def for_from_all [OF validate_error_Nil]
      simp del: type_wf.simps split: option.split)

lemma validate_named_Nil [simp]: "validate_named t path loc = [] \<longleftrightarrow> named_type_wf t"
  by (cases t) (auto simp: validate_named_def named_type_wf_def simp del: type_wf.simps(6))

lemma validate_import_Nil [simp]:
  "validate_import i path loc = [] \<longleftrightarrow>
     imp_registry i \<noteq> [] \<and> imp_version i \<noteq> [] \<and> is_digest (imp_digest i) \<and> imp_uri i \<noteq> Some []"
  by (simp add: validate_import_def)

lemma validate_dependency_Nil [simp]:
  "validate_dependency d path loc = [] \<longleftrightarrow> cref_component d \<noteq> [] \<and> cref_registry d \<noteq> Some []"
  by (simp add: validate_dependency_def)

lemma validate_component_Nil [simp]: "validate_component c path loc = [] \<longleftrightarrow> component_wf c"
  by (auto simp: validate_component_def component_wf_def for_from_all [OF validate_dependency_Nil]
      for_from_all [OF validate_operation_shape_Nil] for_from_all [OF validate_named_Nil])

lemma first_descent_None: "first_descent xs = None \<longleftrightarrow> sorted xs"
  by (induction xs rule: first_descent.induct) auto

lemma validate_shape_Nil: "validate_shape d path = [] \<longleftrightarrow> registry_wf d"
  using first_descent_None [of "map comp_id (reg_components d)"]
  by (cases "first_descent (map comp_id (reg_components d))")
     (auto simp: validate_shape_def registry_wf_def for_from_all [OF validate_import_Nil]
      for_from_all [OF validate_component_Nil] strict_sorted_iff)

end
