(* ===== verification/Ctsc_Imports.thy ===== *)
theory Ctsc_Imports
  imports Ctsc_Shape Ctsc_Comparison
begin

text \<open>
  Registry sets (\<open>validation/registry.rs\<close> and \<open>validation/registry/uri.rs\<close>): loading a root
  registry with its pinned imports, import cycles, and the resolution of every component and type
  reference across the set.

  Code outside the repository is a field of \<open>registry_env\<close>: the file system (\<open>canonicalize\<close>, \<open>read\<close>
  and the text of a failed read), \<open>serde_json::from_slice\<close> for \<open>RegistryDocument\<close>, the SHA-256 hex
  digest, the \<open>Authority\<close> parser of \<open>templated_uri\<close> and \<open>percent_decode_str(..).decode_utf8()\<close>.
  A path is its Unix text; maps keyed by \<open>PathBuf\<close> are keyed by its components, as Rust compares
  paths. \<open>expect\<close> on a missing map entry is a panic (\<open>None\<close> or \<open>Inl Panic\<close>).
\<close>

section \<open>Paths\<close>

type_synonym path_key = "(nat \<times> string) list"

definition path_key :: "string \<Rightarrow> path_key" where
  "path_key p =
     (if starts_with ''/'' p then [(1, [])] else if hd (split_on (CHR ''/'') p) = ''.'' then [(2, [])] else []) @
     map (\<lambda>c. if c = ''..'' then (3, []) else (4, c))
       (filter (\<lambda>c. c \<noteq> [] \<and> c \<noteq> ''.'') (split_on (CHR ''/'') p))"

definition trim_segments :: "string list \<Rightarrow> string list" where
  "trim_segments segs = rev (dropWhile (\<lambda>s. s = [] \<or> s = ''.'') (rev segs))"

text \<open>\<open>Path::parent\<close> and \<open>Path::join\<close> with a relative path.\<close>

definition path_parent :: "string \<Rightarrow> string option" where
  "path_parent p =
     (let segs = split_on (CHR ''/'') p; rest = trim_segments (tl segs) in
      if rest = [] then (if p = [] \<or> starts_with ''/'' p then None else Some [])
      else let above = trim_segments (butlast rest) in
           Some (if starts_with ''/'' p \<and> above = [] then ''/'' else join ''/'' (hd segs # above)))"

definition path_join :: "string \<Rightarrow> string \<Rightarrow> string" where
  "path_join dir p = (if dir = [] \<or> last dir = CHR ''/'' then dir @ p else dir @ ''/'' @ p)"

section \<open>The environment\<close>

record registry_env =
  env_canonicalize :: "string \<Rightarrow> string option"
  env_read :: "string \<Rightarrow> string + string"
  env_missing :: "string \<Rightarrow> string"
  env_parse :: "string \<Rightarrow> string + registry_document"
  env_sha256 :: "string \<Rightarrow> string"
  env_authority :: "string \<Rightarrow> string + string"
  env_decode :: "string \<Rightarrow> string + string"

type_synonym document_bytes = "string \<times> string" \<comment> \<open>path and contents\<close>

definition from_documents :: "document_bytes \<Rightarrow> document_bytes list \<Rightarrow> registry_env \<Rightarrow> registry_env" where
  "from_documents root imports env =
     (let files = bt_collect (map (\<lambda>(p, bytes). (path_key p, bytes)) (root # imports)) in
      env\<lparr>env_canonicalize := Some,
          env_read := (\<lambda>p. case map_of files (path_key p) of None \<Rightarrow> Inl (env_missing env p) | Some bytes \<Rightarrow> Inr bytes)\<rparr>)"

definition canonicalize :: "registry_env \<Rightarrow> string \<Rightarrow> string" where
  "canonicalize env p = (case env_canonicalize env p of None \<Rightarrow> p | Some q \<Rightarrow> q)"

definition sha256_digest :: "registry_env \<Rightarrow> string \<Rightarrow> string" where
  "sha256_digest env bytes = ''sha256:'' @ env_sha256 env bytes"

definition ascii_lower :: "char \<Rightarrow> char" where
  "ascii_lower c = (let n = of_char c :: nat in if 65 \<le> n \<and> n \<le> 90 then char_of (n + 32) else c)"

text \<open>The authority and path of the text after \<open>file:\<close>.\<close>

definition split_authority :: "string \<Rightarrow> string \<times> string" where
  "split_authority raw =
     (if starts_with ''//'' raw
      then (takeWhile (\<lambda>c. c \<noteq> CHR ''/'') (drop 2 raw), dropWhile (\<lambda>c. c \<noteq> CHR ''/'') (drop 2 raw))
      else ([], raw))"

definition resolve_uri :: "registry_env \<Rightarrow> string \<Rightarrow> string \<Rightarrow> string + string option" where
  "resolve_uri env base uri =
     (if \<not> starts_with ''file:'' uri then Inr None
      else let raw = drop 5 uri; (authority, path) = split_authority raw in
      if CHR ''?'' \<in> set raw \<or> CHR ''#'' \<in> set raw
      then Inl (''file URI must not contain a query or fragment: '' @ ticked uri)
      else and_then
        (if authority = [] then Inr ()
         else case env_authority env authority of
                Inl e \<Rightarrow> Inl (''invalid file URI '' @ ticked uri @ '': '' @ e)
              | Inr parsed \<Rightarrow>
                  if map ascii_lower parsed = ''localhost'' then Inr ()
                  else Inl (''automatic registry import resolution does not support network file URI '' @ ticked uri @
                            ''; download the registry and supply its local path with --import''))
        (\<lambda>_. case env_decode env path of
               Inl e \<Rightarrow> Inl (''file URI path is not UTF-8: '' @ e)
             | Inr decoded \<Rightarrow>
                 if starts_with ''//'' decoded \<or> starts_with [CHR 0x5C, CHR 0x5C] decoded
                 then Inl (''automatic registry import resolution does not support UNC or network file URI '' @ ticked uri @
                           ''; download the registry and supply its local path with --import'')
                 else Inr (Some (canonicalize env
                        (if starts_with ''/'' decoded then decoded
                         else path_join (case path_parent base of None \<Rightarrow> ''.'' | Some dir \<Rightarrow> dir) decoded)))))"

section \<open>Import cycles\<close>

type_synonym documents = "(string \<times> registry_document) list"
type_synonym document_paths = "(string \<times> string) list"

text \<open>A loop over \<open>xs\<close> with diagnostics, a local variable and a body that may panic.\<close>

fun thread :: "('s \<Rightarrow> 'a \<Rightarrow> ('o list \<times> 's) option) \<Rightarrow> 's \<Rightarrow> 'a list \<Rightarrow> ('o list \<times> 's) option" where
  "thread f s [] = Some ([], s)"
| "thread f s (x # xs) =
     (case f s x of None \<Rightarrow> None
      | Some (out, s') \<Rightarrow> map_option (\<lambda>(rest, s''). (out @ rest, s'')) (thread f s' xs))"

lemma thread_cong [fundef_cong]:
  "s = t \<Longrightarrow> xs = ys \<Longrightarrow> (\<And>u x. x \<in> set ys \<Longrightarrow> f u x = g u x) \<Longrightarrow> thread f s xs = thread g t ys"
  by (induction ys arbitrary: s t xs) (auto split: option.split prod.split)

definition imported_in :: "documents \<Rightarrow> registry_document \<Rightarrow> string list" where
  "imported_in docs d = filter (\<lambda>r. map_of docs r \<noteq> None) (map imp_registry (reg_imports d))"

function visit ::
    "documents \<Rightarrow> document_paths \<Rightarrow> string list \<Rightarrow> string set \<Rightarrow> string \<Rightarrow> (issues \<times> string set) option" where
  "visit docs paths visiting visited rid =
     (if rid \<in> visited then Some ([], visited)
      else if rid \<in> set visiting then
        map_option (\<lambda>path.
          (issue (located path ''$.imports'')
             (''registry import cycle: '' @ join '' -> '' (dropWhile (\<lambda>v. v \<noteq> rid) visiting @ [rid])), visited))
          (map_of paths rid)
      else case map_of docs rid of
             None \<Rightarrow> Some ([], insert rid visited)
           | Some d \<Rightarrow>
               map_option (\<lambda>(out, seen). (out, insert rid seen))
                 (thread (visit docs paths (visiting @ [rid])) visited (imported_in docs d)))"
  by pat_completeness auto
termination
proof (relation "measure (\<lambda>(docs, _, visiting, _). card (fst ` set docs - set visiting))")
  fix docs :: documents and paths :: document_paths and visiting visited and rid d and u x
  assume "rid \<notin> set visiting" "map_of docs rid = Some d"
  then have "rid \<in> fst ` set docs - set visiting"
    by (metis DiffI domI dom_map_of_conv_image_fst)
  then have "card (fst ` set docs - set visiting - {rid}) < card (fst ` set docs - set visiting)"
    by (intro card_Diff1_less) auto
  moreover have "fst ` set docs - set (visiting @ [rid]) = fst ` set docs - set visiting - {rid}" by auto
  ultimately show "((docs, paths, visiting @ [rid], u, x), docs, paths, visiting, visited, rid)
      \<in> measure (\<lambda>(docs, _, visiting, _). card (fst ` set docs - set visiting))" by simp
qed simp

declare visit.simps [simp del]

definition validate_cycles :: "documents \<Rightarrow> document_paths \<Rightarrow> issues option" where
  "validate_cycles docs paths = map_option fst (thread (visit docs paths []) {} (map fst docs))"

section \<open>References\<close>

definition imports_registry :: "registry_document \<Rightarrow> string \<Rightarrow> bool" where
  "imports_registry d r \<longleftrightarrow> (\<exists>i\<in>set (reg_imports d). imp_registry i = r)"

definition find_component :: "documents \<Rightarrow> string \<Rightarrow> string \<Rightarrow> registry_component option" where
  "find_component docs r cid = Option.bind (map_of docs r) (\<lambda>d. find (\<lambda>c. comp_id c = cid) (reg_components d))"

definition local_components :: "registry_document \<Rightarrow> (string \<times> registry_component) list" where
  "local_components d = bt_collect (map (\<lambda>c. (comp_id c, c)) (reg_components d))"

definition resolve_named_type ::
    "documents \<Rightarrow> string \<Rightarrow> registry_component \<Rightarrow> (string \<times> registry_component) list \<Rightarrow> string \<Rightarrow> string \<Rightarrow>
     string \<Rightarrow> string option \<Rightarrow> string option \<Rightarrow> issues" where
  "resolve_named_type docs current component locals path loc name cid rid =
     (let target_registry = (case rid of None \<Rightarrow> current | Some r \<Rightarrow> r);
          target_component = (case cid of None \<Rightarrow> comp_id component | Some c \<Rightarrow> c)
      in (if target_registry \<noteq> current then
            require_at (case map_of docs current of None \<Rightarrow> False | Some d \<Rightarrow> imports_registry d target_registry) path loc
              (''unknown imported registry '' @ ticked target_registry) @
            require_at (\<exists>dep\<in>set (comp_dependencies component).
                cref_registry dep = Some target_registry \<and> cref_component dep = target_component) path loc
              ''missing matching component dependency''
          else if target_component \<noteq> comp_id component then
            require_at (\<exists>dep\<in>set (comp_dependencies component).
                cref_registry dep = None \<and> cref_component dep = target_component) path loc
              ''missing matching local dependency''
          else []) @
         (case (case find_component docs target_registry target_component of
                  Some c \<Rightarrow> Some c
                | None \<Rightarrow> if target_registry = current then map_of locals target_component else None) of
            None \<Rightarrow> issue (located path loc)
                      (''unknown component '' @ ticked target_component @ '' in registry '' @ ticked target_registry)
          | Some target \<Rightarrow> require_at (\<exists>t\<in>set (comp_types target). named_type_name t = name) path loc
                             (''unknown named type '' @ ticked name)))"

function resolve_type ::
    "documents \<Rightarrow> string \<Rightarrow> registry_component \<Rightarrow> (string \<times> registry_component) list \<Rightarrow> string \<Rightarrow> type_ref \<Rightarrow> string \<Rightarrow> issues" where
  "resolve_type docs current c locals path (Named name cid rid) loc =
     resolve_named_type docs current c locals path loc name cid rid"
| "resolve_type docs current c locals path (Primitive _) loc = []"
| "resolve_type docs current c locals path (Collection items _ _) loc =
     resolve_type docs current c locals path items (loc @ ''.items'')"
| "resolve_type docs current c locals path (Map keys vals _) loc =
     resolve_type docs current c locals path keys (loc @ ''.keys'') @
     resolve_type docs current c locals path vals (loc @ ''.values'')"
| "resolve_type docs current c locals path (Tuple items) loc =
     for_indexed (\<lambda>i item. resolve_type docs current c locals path item (index_loc (loc @ ''.items'') i)) items"
| "resolve_type docs current c locals path (Record entries) loc =
     for_indexed (\<lambda>i e. resolve_type docs current c locals path (nv_type e) (index_loc (loc @ ''.fields'') i @ ''.type'')) entries"
| "resolve_type docs current c locals path (Optional t) loc =
     resolve_type docs current c locals path t (loc @ ''.value'')"
| "resolve_type docs current c locals path (TaggedUnion variants) loc =
     for_indexed (\<lambda>i var. case var_payload var of None \<Rightarrow> []
       | Some t \<Rightarrow> resolve_type docs current c locals path t (index_loc (loc @ ''.variants'') i @ ''.payload'')) variants"
  by pat_completeness auto
termination
  by (relation "measure (\<lambda>(_, _, _, _, _, t, _). size t)")
     (auto dest: size_payload size_field size_list_estimation' [OF _ order_refl, where f = size])

text \<open>\<open>paths.get(registry_id).expect(..)\<close>, evaluated whether or not a diagnostic follows.\<close>

definition with_path :: "document_paths \<Rightarrow> string \<Rightarrow> (string \<Rightarrow> issues) \<Rightarrow> issues option" where
  "with_path paths rid f = map_option f (map_of paths rid)"

text \<open>The types a component declares, each with the location it is resolved at, in source order.\<close>

definition operation_sites :: "registry_operation \<Rightarrow> string \<Rightarrow> (type_ref \<times> string) list" where
  "operation_sites operation loc =
     map (\<lambda>(i, v). (nv_type v, index_loc (loc @ ''.inputs'') i @ ''.type'')) (enumerate 0 (op_inputs operation)) @
     map (\<lambda>(i, v). (nv_type v, index_loc (loc @ ''.observations'') i @ ''.type'')) (enumerate 0 (op_observations operation)) @
     (case out_result (op_outcomes operation) of None \<Rightarrow> [] | Some t \<Rightarrow> [(t, loc @ ''.outcomes.result'')]) @
     List.map_filter (\<lambda>(i, e). map_option (\<lambda>t. (t, index_loc (loc @ ''.outcomes.errors'') i @ ''.type'')) (err_type e))
       (enumerate 0 (out_errors (op_outcomes operation)))"

definition component_sites :: "registry_component \<Rightarrow> string \<Rightarrow> (type_ref \<times> string) list" where
  "component_sites c base =
     concat (map (\<lambda>(i, operation). operation_sites operation (index_loc (base @ ''.operations'') i)) (enumerate 0 (comp_operations c))) @
     map (\<lambda>(i, t). (as_type t, index_loc (base @ ''.types'') i)) (enumerate 0 (comp_types c))"

definition dependency_checks ::
    "documents \<Rightarrow> document_paths \<Rightarrow> string \<Rightarrow> registry_document \<Rightarrow> string \<Rightarrow> component_ref \<Rightarrow> issues option list" where
  "dependency_checks docs paths rid d loc dep =
     (let target = (case cref_registry dep of None \<Rightarrow> rid | Some r \<Rightarrow> r) in
      (if target \<noteq> rid
       then [with_path paths rid (\<lambda>path. require_at (imports_registry d target) path loc
               (''unknown imported registry '' @ ticked target))]
       else []) @
      [with_path paths rid (\<lambda>path.
         require_at (case map_of docs target of None \<Rightarrow> False
                     | Some t \<Rightarrow> \<exists>item\<in>set (reg_components t). comp_id item = cref_component dep) path loc
           (''unknown dependency component '' @ ticked (cref_component dep) @ '' in registry '' @ ticked target))])"

definition component_checks ::
    "documents \<Rightarrow> document_paths \<Rightarrow> string \<Rightarrow> registry_document \<Rightarrow> nat \<Rightarrow> registry_component \<Rightarrow> issues option list" where
  "component_checks docs paths rid d k c =
     (let base = index_loc ''$.components'' k in
      concat (map (\<lambda>(i, dep). dependency_checks docs paths rid d (index_loc (base @ ''.dependencies'') i) dep)
        (enumerate 0 (comp_dependencies c))) @
      map (\<lambda>(t, loc). with_path paths rid (\<lambda>path. resolve_type docs rid c (local_components d) path t loc))
        (component_sites c base))"

definition owner_step ::
    "document_paths \<Rightarrow> (string \<times> string) list \<Rightarrow> string \<times> registry_component \<Rightarrow> (issues \<times> (string \<times> string) list) option" where
  "owner_step paths owners p =
     (case p of (rid, c) \<Rightarrow>
        let owners' = bt_insert (comp_id c) rid owners in
        case map_of owners (comp_id c) of
          Some existing \<Rightarrow>
            if existing \<noteq> rid
            then map_option (\<lambda>path. (issue (located path ''$.components'')
                   (''component ID '' @ ticked (comp_id c) @ '' exists in both '' @ ticked existing @ '' and '' @ ticked rid), owners'))
                   (map_of paths rid)
            else Some ([], owners')
        | None \<Rightarrow> Some ([], owners'))"

definition owned_components :: "documents \<Rightarrow> (string \<times> registry_component) list" where
  "owned_components docs = concat (map (\<lambda>(rid, d). map (Pair rid) (reg_components d)) docs)"

definition registry_semantics :: "documents \<Rightarrow> document_paths \<Rightarrow> issues option" where
  "registry_semantics docs paths =
     seq_issues (map_option fst (thread (owner_step paths) [] (owned_components docs)) #
       concat (map (\<lambda>(rid, d). concat (map (\<lambda>(k, c). component_checks docs paths rid d k c)
         (enumerate 0 (reg_components d)))) docs))"

section \<open>Loading\<close>

record registry_file =
  file_path :: string
  file_digest :: string
  file_document :: registry_document

definition load_file :: "registry_env \<Rightarrow> string \<Rightarrow> bool \<Rightarrow> issues \<times> registry_file option" where
  "load_file env path report_read_error =
     (case env_read env path of
        Inl e \<Rightarrow> (if report_read_error then issue (located path ''$'') (''failed to read file: '' @ e) else [], None)
      | Inr bytes \<Rightarrow>
          (case env_parse env bytes of
             Inl e \<Rightarrow> (issue (located path ''$'') (''invalid CTSC registry JSON: '' @ e), None)
           | Inr d \<Rightarrow> (validate_shape d path,
               Some \<lparr>file_path = path, file_digest = sha256_digest env bytes, file_document = d\<rparr>)))"

text \<open>
  The variables of \<open>load_fs\<close>: the loaded files, the paths loaded for each registry identity in load
  order, the selected paths (a \<open>BTreeSet\<close>) and the work list.
\<close>

record load_state =
  files_by_path :: "(path_key \<times> registry_file) list"
  paths_by_id :: "(string \<times> string list) list"
  selected_paths :: "(path_key \<times> unit) list"
  pending :: "string list"

definition candidates_of :: "load_state \<Rightarrow> string \<Rightarrow> string list" where
  "candidates_of s rid = (case map_of (paths_by_id s) rid of None \<Rightarrow> [] | Some ps \<Rightarrow> ps)"

definition insert_candidate :: "registry_file \<Rightarrow> load_state \<Rightarrow> issues \<times> load_state" where
  "insert_candidate f s =
     (let rid = reg_id (file_document f) in
      ((case candidates_of s rid of
          [] \<Rightarrow> []
        | existing # _ \<Rightarrow>
            issue (located (file_path f) ''$.registryId'')
              (''registry ID '' @ ticked rid @ '' has ambiguous candidates '' @ existing @ '' and '' @ file_path f)),
       s\<lparr>paths_by_id := bt_push rid (file_path f) (paths_by_id s),
         files_by_path := bt_insert (path_key (file_path f)) f (files_by_path s)\<rparr>))"

definition load_candidate :: "registry_env \<Rightarrow> bool \<Rightarrow> string \<Rightarrow> load_state \<Rightarrow> issues \<times> load_state" where
  "load_candidate env report path s =
     (if map_of (files_by_path s) (path_key path) \<noteq> None then ([], s)
      else case load_file env path report of
             (out, None) \<Rightarrow> (out, s)
           | (out, Some f) \<Rightarrow> (let (more, s') = insert_candidate f s in (out @ more, s')))"

fun load_inputs :: "registry_env \<Rightarrow> string list \<Rightarrow> load_state \<Rightarrow> issues \<times> load_state" where
  "load_inputs env [] s = ([], s)"
| "load_inputs env (path # paths) s =
     (let (out, s') = load_candidate env True path s; (rest, s'') = load_inputs env paths s' in (out @ rest, s''))"

fun duplicate_inputs :: "path_key set \<Rightarrow> string list \<Rightarrow> issues" where
  "duplicate_inputs seen [] = []"
| "duplicate_inputs seen (path # paths) =
     (if path_key path \<in> seen then issue (located path ''$'') ''duplicate registry input path'' else []) @
     duplicate_inputs (insert (path_key path) seen) paths"

text \<open>The retrieval hint of an import: a local file that is not loaded yet is loaded.\<close>

definition follow_uri :: "registry_env \<Rightarrow> string \<Rightarrow> string \<Rightarrow> registry_import \<Rightarrow> load_state \<Rightarrow> issues \<times> load_state" where
  "follow_uri env path loc i s =
     (case imp_uri i of
        None \<Rightarrow> ([], s)
      | Some uri \<Rightarrow>
          (case resolve_uri env path uri of
             Inl e \<Rightarrow> (issue (located path (loc @ ''.uri'')) e, s)
           | Inr None \<Rightarrow> ([], s)
           | Inr (Some candidate) \<Rightarrow> load_candidate env False candidate s))"

definition select_import :: "string \<Rightarrow> string \<Rightarrow> bool \<Rightarrow> registry_import \<Rightarrow> load_state \<Rightarrow> stop + (issues \<times> load_state)" where
  "select_import path loc used i s =
     (case candidates_of s (imp_registry i) of
        [] \<Rightarrow> Inr (if used then issue (located path loc)
                (''unresolved import '' @ ticked (imp_registry i) @ ''; supply --import or a local file: URI'') else [], s)
      | [candidate] \<Rightarrow>
          (case map_of (files_by_path s) (path_key candidate) of
             None \<Rightarrow> Inl Panic
           | Some f \<Rightarrow>
               let version_matches = (reg_version (file_document f) = imp_version i);
                   digest_matches = (file_digest f = imp_digest i)
               in Inr (require_at version_matches path loc ''imported registry version does not match referenced version'' @
                       require_at digest_matches path loc ''imported registry digest does not match exact file bytes'',
                       if version_matches \<and> digest_matches \<and> map_of (selected_paths s) (path_key candidate) = None
                       then s\<lparr>selected_paths := bt_insert (path_key candidate) () (selected_paths s),
                              pending := pending s @ [candidate]\<rparr>
                       else s))
      | _ \<Rightarrow> Inr (issue (located path loc)
               (''import '' @ ticked (imp_registry i) @ '' has ambiguous candidate registry files''), s))"

fun import_each ::
    "registry_env \<Rightarrow> string \<Rightarrow> registry_document \<Rightarrow> nat \<Rightarrow> registry_import list \<Rightarrow> load_state \<Rightarrow> stop + (issues \<times> load_state)" where
  "import_each env path d k [] s = Inr ([], s)"
| "import_each env path d k (i # is) s =
     (let loc = index_loc ''$.imports'' k; (hint, s1) = follow_uri env path loc i s in
      and_then (select_import path loc (document_uses d (imp_registry i)) i s1) (\<lambda>(out, s2).
      and_then (import_each env path d (Suc k) is s2) (\<lambda>(rest, s3). Inr (hint @ out @ rest, s3))))"

text \<open>The loop over the work list, with fuel.\<close>

fun import_loop :: "registry_env \<Rightarrow> nat \<Rightarrow> nat \<Rightarrow> load_state \<Rightarrow> stop + (issues \<times> load_state)" where
  "import_loop env fuel cursor s =
     (if cursor < length (pending s) then
        (case fuel of
           0 \<Rightarrow> Inl OutOfFuel
         | Suc n \<Rightarrow>
             let path = pending s ! cursor in
             case map_of (files_by_path s) (path_key path) of
               None \<Rightarrow> Inl Panic
             | Some f \<Rightarrow>
                 and_then (import_each env path (file_document f) 0 (reg_imports (file_document f)) s) (\<lambda>(out, s').
                 and_then (import_loop env n (Suc cursor) s') (\<lambda>(rest, s''). Inr (out @ rest, s''))))
      else Inr ([], s))"

declare import_loop.simps [simp del]

text \<open>The selected files in path order; a selected path without a file panics.\<close>

definition selected_files :: "load_state \<Rightarrow> registry_file list option" where
  "selected_files s = those (map (\<lambda>(key, _). map_of (files_by_path s) key) (selected_paths s))"

definition add_component ::
    "string \<Rightarrow> (string \<times> resolved_component) list \<Rightarrow> string \<times> registry_component \<Rightarrow> issues \<times> (string \<times> resolved_component) list" where
  "add_component root components p =
     (case p of (rid, c) \<Rightarrow>
        ((case map_of components (comp_id c) of
            None \<Rightarrow> []
          | Some existing \<Rightarrow> issue (located root ''$.components'')
              (''component ID '' @ ticked (comp_id c) @ '' exists in both '' @ ticked (rc_registry existing) @ '' and '' @ ticked rid)),
         bt_insert (comp_id c) \<lparr>rc_registry = rid, rc_component = c\<rparr> components))"

definition build_set :: "string \<Rightarrow> load_state \<Rightarrow> stop + (issues \<times> registry_set)" where
  "build_set root s =
     (case (selected_files s, map_of (files_by_path s) (path_key root)) of
        (Some fs, Some root_file) \<Rightarrow>
          let docs = bt_collect (map (\<lambda>f. (reg_id (file_document f), file_document f)) fs);
              paths = bt_collect (map (\<lambda>f. (reg_id (file_document f), file_path f)) fs)
          in (case (validate_cycles docs paths, registry_semantics docs paths) of
                (Some cycles, Some semantics) \<Rightarrow>
                  let (out, components) = fold_from 0 (\<lambda>m _. add_component root m) [] (owned_components docs)
                  in Inr (cycles @ semantics @ out,
                       \<lparr>root_id = reg_id (file_document root_file), root_version = reg_version (file_document root_file),
                        root_digest = file_digest root_file, set_components = components\<rparr>)
              | _ \<Rightarrow> Inl Panic)
      | _ \<Rightarrow> Inl Panic)"

definition load_fs :: "registry_env \<Rightarrow> nat \<Rightarrow> string \<Rightarrow> string list \<Rightarrow> stop + registry_set loaded" where
  "load_fs env fuel root_path explicit_imports =
     (let root = canonicalize env root_path;
          inputs = root # map (canonicalize env) explicit_imports;
          (loading, s) = load_inputs env inputs
            \<lparr>files_by_path = [], paths_by_id = [], selected_paths = [(path_key root, ())], pending = [root]\<rparr>;
          found = duplicate_inputs {} inputs @ loading
      in if map_of (files_by_path s) (path_key root) = None
         then Inr \<lparr>loaded_value = None, loaded_issues = found\<rparr>
         else and_then (import_loop env fuel 0 s) (\<lambda>(importing, s').
              and_then (build_set root s') (\<lambda>(checks, set).
                Inr \<lparr>loaded_value = Some set, loaded_issues = found @ importing @ checks\<rparr>)))"

definition load_registry_bytes :: "registry_env \<Rightarrow> nat \<Rightarrow> document_bytes \<Rightarrow> document_bytes list \<Rightarrow> stop + registry_set loaded" where
  "load_registry_bytes env fuel root imports = load_fs (from_documents root imports env) fuel (fst root) (map fst imports)"

end
