(* ===== verification/Ctsc_Cycles.thy ===== *)
theory Ctsc_Cycles
  imports Ctsc_Imports
begin

text \<open>
  What \<open>validate_cycles\<close> decides: the depth-first search over the imports of a registry set reports
  nothing exactly when the import relation of the set is acyclic. The invariant of the search is that
  the visited registries are closed under imports and lie on no cycle, and that they are disjoint from
  the registries on the current path.
\<close>

definition import_edges :: "documents \<Rightarrow> (string \<times> string) set" where
  "import_edges docs =
     {(a, b). \<exists>d. map_of docs a = Some d \<and> imports_registry d b \<and> map_of docs b \<noteq> None}"

definition settled :: "documents \<Rightarrow> string set \<Rightarrow> bool" where
  "settled docs seen \<longleftrightarrow> import_edges docs `` seen \<subseteq> seen \<and> (\<forall>v\<in>seen. (v, v) \<notin> (import_edges docs)\<^sup>+)"

lemma set_imported_in: "map_of docs a = Some d \<Longrightarrow> set (imported_in docs d) = import_edges docs `` {a}"
  by (auto simp: imported_in_def import_edges_def imports_registry_def)

lemma settled_insert:
  assumes "settled docs seen" "import_edges docs `` {a} \<subseteq> seen"
  shows "settled docs (insert a seen)"
proof (cases "a \<in> seen")
  case False
  have closed: "(import_edges docs)\<^sup>* `` seen = seen"
    using assms(1) by (simp add: settled_def Image_closed_trancl)
  have "(a, a) \<notin> (import_edges docs)\<^sup>+"
  proof
    assume "(a, a) \<in> (import_edges docs)\<^sup>+"
    then obtain b where "(a, b) \<in> import_edges docs" "(b, a) \<in> (import_edges docs)\<^sup>*"
      by (meson tranclD)
    with assms(2) closed False show False by blast
  qed
  with assms show ?thesis by (auto simp: settled_def)
qed (use assms in \<open>simp add: insert_absorb\<close>)

lemma thread_visited:
  assumes "thread f s xs = Some ([], t)" "P s"
    and "\<And>s x t. x \<in> set xs \<Longrightarrow> f s x = Some ([], t) \<Longrightarrow> P s \<Longrightarrow> P t \<and> x \<in> t \<and> s \<subseteq> t"
  shows "P t \<and> set xs \<subseteq> t \<and> s \<subseteq> t"
  using assms
proof (induction f s xs rule: thread.induct)
  case (2 f s x xs)
  from 2(2) obtain u where u: "f s x = Some ([], u)" "thread f u xs = Some ([], t)"
    by (auto split: option.splits)
  have "P u \<and> x \<in> u \<and> s \<subseteq> u" using 2(4) [OF _ u(1) 2(3)] by simp
  moreover have "P t \<and> set xs \<subseteq> t \<and> u \<subseteq> t"
    by (rule 2(1) [OF u(1) refl u(2)]) (use calculation 2(4) in auto)
  ultimately show ?case by auto
qed auto

lemma thread_silent:
  assumes "thread f s xs = Some (out, t)" "\<And>s x o' t. x \<in> set xs \<Longrightarrow> f s x = Some (o', t) \<Longrightarrow> o' = []"
  shows "out = []"
  using assms
proof (induction f s xs arbitrary: out rule: thread.induct)
  case (2 f s x xs)
  then obtain o1 u o2 where u: "f s x = Some (o1, u)" "thread f u xs = Some (o2, t)" "out = o1 @ o2"
    by (auto split: option.splits prod.splits)
  have "o1 = []" using 2(3) [OF _ u(1)] by simp
  moreover have "o2 = []" by (rule 2(1) [OF u(1) refl u(2)]) (use 2(3) in auto)
  ultimately show ?case by (simp add: u(3))
qed auto

lemma thread_returns: "(\<And>s x. x \<in> set xs \<Longrightarrow> f s x \<noteq> None) \<Longrightarrow> thread f s xs \<noteq> None"
  by (induction xs arbitrary: s) (fastforce split: option.split prod.split)+

lemma visit_settles:
  assumes "visit docs paths visiting visited rid = Some ([], seen)"
    and "settled docs visited" "set visiting \<inter> visited = {}"
  shows "settled docs seen \<and> rid \<in> seen \<and> visited \<subseteq> seen \<and> set visiting \<inter> seen = {}"
  using assms
proof (induction docs paths visiting visited rid arbitrary: seen rule: visit.induct)
  case (1 docs paths visiting visited rid)
  consider "rid \<in> visited" | "rid \<notin> visited" "rid \<notin> set visiting"
    using 1(2) by (fastforce simp: visit.simps [of docs paths visiting visited rid] split: if_splits)
  then show ?case
  proof cases
    case 1
    with "1.prems" show ?thesis by (simp add: visit.simps [of docs paths visiting visited rid])
  next
    case 2
    show ?thesis
    proof (cases "map_of docs rid")
      case None
      with 2 "1.prems" have "seen = insert rid visited" by (simp add: visit.simps [of docs paths visiting visited rid])
      moreover have "import_edges docs `` {rid} = {}" using None by (auto simp: import_edges_def)
      ultimately show ?thesis using "1.prems" 2 settled_insert [of docs visited rid] by auto
    next
      case (Some d)
      with 2 "1.prems"(1) obtain out where
        out: "thread (visit docs paths (visiting @ [rid])) visited (imported_in docs d) = Some ([], out)" "seen = insert rid out"
        by (auto simp: visit.simps [of docs paths visiting visited rid])
      have "(settled docs out \<and> set (visiting @ [rid]) \<inter> out = {}) \<and> set (imported_in docs d) \<subseteq> out \<and> visited \<subseteq> out"
      proof (rule thread_visited [OF out(1)])
        show "settled docs visited \<and> set (visiting @ [rid]) \<inter> visited = {}" using "1.prems" 2 by auto
      next
        fix s x t
        assume "x \<in> set (imported_in docs d)" "visit docs paths (visiting @ [rid]) s x = Some ([], t)"
          "settled docs s \<and> set (visiting @ [rid]) \<inter> s = {}"
        then show "(settled docs t \<and> set (visiting @ [rid]) \<inter> t = {}) \<and> x \<in> t \<and> s \<subseteq> t"
          using "1.IH" [OF 2 Some] by simp
      qed
      then show ?thesis
        using out(2) settled_insert [of docs out rid] set_imported_in [OF Some] 2 by auto
    qed
  qed
qed

lemma visit_acyclic:
  assumes "visit docs paths visiting visited rid = Some (out, seen)"
    and "acyclic (import_edges docs)" "\<forall>v\<in>set visiting. (v, rid) \<in> (import_edges docs)\<^sup>+"
  shows "out = []"
  using assms
proof (induction docs paths visiting visited rid arbitrary: out seen rule: visit.induct)
  case (1 docs paths visiting visited rid)
  have *: "rid \<notin> set visiting" using "1.prems"(2,3) by (auto simp: acyclic_def)
  show ?case
  proof (cases "rid \<in> visited \<or> map_of docs rid = None")
    case True
    with * "1.prems"(1) show ?thesis by (auto simp: visit.simps [of docs paths visiting visited rid] split: if_splits)
  next
    case False
    then obtain d where d: "rid \<notin> visited" "map_of docs rid = Some d" by auto
    with * "1.prems"(1) obtain u where
      u: "thread (visit docs paths (visiting @ [rid])) visited (imported_in docs d) = Some (out, u)"
      by (auto simp: visit.simps [of docs paths visiting visited rid])
    show ?thesis
    proof (rule thread_silent [OF u])
      fix s x o' t
      assume x: "x \<in> set (imported_in docs d)" and v: "visit docs paths (visiting @ [rid]) s x = Some (o', t)"
      have "(rid, x) \<in> import_edges docs" using x set_imported_in [OF d(2)] by blast
      then have "\<forall>v\<in>set (visiting @ [rid]). (v, x) \<in> (import_edges docs)\<^sup>+"
        using "1.prems"(3) by (auto intro: trancl_into_trancl)
      with "1.IH" [OF d(1) * d(2) x v] "1.prems"(2) show "o' = []" by simp
    qed
  qed
qed

lemma visit_returns:
  "fst ` set docs \<subseteq> fst ` set paths \<Longrightarrow> rid \<in> fst ` set docs \<Longrightarrow> visit docs paths visiting visited rid \<noteq> None"
proof (induction docs paths visiting visited rid rule: visit.induct)
  case (1 docs paths visiting visited rid)
  show ?case
  proof (cases "rid \<in> visited \<or> rid \<in> set visiting \<or> map_of docs rid = None")
    case True
    moreover have "map_of paths rid \<noteq> None" using "1.prems" by (auto simp: map_of_eq_None_iff)
    ultimately show ?thesis by (auto simp: visit.simps [of docs paths visiting visited rid])
  next
    case False
    then obtain d where d: "rid \<notin> visited" "rid \<notin> set visiting" "map_of docs rid = Some d" by auto
    have "thread (visit docs paths (visiting @ [rid])) visited (imported_in docs d) \<noteq> None"
    proof (rule thread_returns)
      fix s x assume x: "x \<in> set (imported_in docs d)"
      then have "x \<in> fst ` set docs" by (simp add: imported_in_def map_of_eq_None_iff)
      with "1.IH" [OF d x] "1.prems"(1) show "visit docs paths (visiting @ [rid]) s x \<noteq> None" by simp
    qed
    with d show ?thesis by (simp add: visit.simps [of docs paths visiting visited rid])
  qed
qed

lemma validate_cycles_returns: "fst ` set docs \<subseteq> fst ` set paths \<Longrightarrow> validate_cycles docs paths \<noteq> None"
  using thread_returns [of "map fst docs" "visit docs paths []"] visit_returns [of docs paths]
  by (simp add: validate_cycles_def)

lemma validate_cycles_acyclic:
  assumes "validate_cycles docs paths = Some []"
  shows "acyclic (import_edges docs)"
proof -
  obtain seen where t: "thread (visit docs paths []) {} (map fst docs) = Some ([], seen)"
    using assms by (auto simp: validate_cycles_def)
  have "settled docs seen \<and> set (map fst docs) \<subseteq> seen \<and> {} \<subseteq> seen"
  proof (rule thread_visited [OF t])
    fix s x u
    assume "visit docs paths [] s x = Some ([], u)" "settled docs s"
    then show "settled docs u \<and> x \<in> u \<and> s \<subseteq> u" using visit_settles by force
  qed (simp add: settled_def)
  then have "\<forall>v\<in>fst ` set docs. (v, v) \<notin> (import_edges docs)\<^sup>+" by (auto simp: settled_def)
  moreover have "(v, w) \<in> (import_edges docs)\<^sup>+ \<Longrightarrow> v \<in> fst ` set docs" for v w
    by (induction rule: converse_trancl_induct) (auto simp: import_edges_def dest: map_of_SomeD intro: rev_image_eqI)
  ultimately show ?thesis by (auto simp: acyclic_def)
qed

lemma validate_cycles_silent:
  assumes "validate_cycles docs paths = Some out" "acyclic (import_edges docs)"
  shows "out = []"
proof -
  obtain seen where "thread (visit docs paths []) {} (map fst docs) = Some (out, seen)"
    using assms(1) by (auto simp: validate_cycles_def)
  then show ?thesis
    by (rule thread_silent) (use visit_acyclic [OF _ assms(2)] in fastforce)
qed

end
