(* ===== verification/Ctsc_Loader.thy ===== *)
theory Ctsc_Loader
  imports Ctsc_Cycles
begin

text \<open>
  The invariant of the registry loader: what the file table, the identity index, the selected paths
  and the work list of \<open>load_fs\<close> say about each other, that every step keeps it, and that the import
  loop ends without a panic once it has as much fuel as there are readable files.
\<close>

section \<open>The invariant\<close>

definition file_read :: "registry_env \<Rightarrow> registry_file \<Rightarrow> bool" where
  "file_read env f \<longleftrightarrow>
     (\<exists>bytes. env_read env (file_path f) = Inr bytes \<and> env_parse env bytes = Inr (file_document f) \<and>
        file_digest f = sha256_digest env bytes)"

definition file_id :: "registry_file \<Rightarrow> string" where
  "file_id f = reg_id (file_document f)"

definition files_ok :: "registry_env \<Rightarrow> load_state \<Rightarrow> bool" where
  "files_ok env s \<longleftrightarrow>
     (\<forall>key f. map_of (files_by_path s) key = Some f \<longrightarrow>
        key = path_key (file_path f) \<and> file_read env f \<and> file_path f \<in> set (candidates_of s (file_id f))) \<and>
     (\<forall>rid. \<forall>p\<in>set (candidates_of s rid).
        \<exists>f. map_of (files_by_path s) (path_key p) = Some f \<and> file_path f = p \<and> file_id f = rid)"

definition selected_file :: "load_state \<Rightarrow> registry_file \<Rightarrow> bool" where
  "selected_file s f \<longleftrightarrow>
     map_of (files_by_path s) (path_key (file_path f)) = Some f \<and>
     map_of (selected_paths s) (path_key (file_path f)) \<noteq> None"

definition selection_ok :: "load_state \<Rightarrow> bool" where
  "selection_ok s \<longleftrightarrow>
     bt_wf (selected_paths s) \<and> fst ` set (selected_paths s) = path_key ` set (pending s) \<and>
     distinct (map path_key (pending s)) \<and>
     (\<forall>p\<in>set (pending s). map_of (files_by_path s) (path_key p) \<noteq> None) \<and>
     (\<forall>f g. selected_file s f \<longrightarrow> selected_file s g \<longrightarrow> file_id f = file_id g \<longrightarrow> f = g)"

definition state_ok :: "registry_env \<Rightarrow> load_state \<Rightarrow> bool" where
  "state_ok env s \<longleftrightarrow> files_ok env s \<and> selection_ok s"

definition shapes_ok :: "load_state \<Rightarrow> bool" where
  "shapes_ok s \<longleftrightarrow> (\<forall>f\<in>ran (map_of (files_by_path s)). registry_wf (file_document f))"

text \<open>The loader only ever adds to its tables.\<close>

definition grows :: "load_state \<Rightarrow> load_state \<Rightarrow> bool" where
  "grows s s' \<longleftrightarrow>
     map_of (files_by_path s) \<subseteq>\<^sub>m map_of (files_by_path s') \<and>
     map_of (selected_paths s) \<subseteq>\<^sub>m map_of (selected_paths s') \<and>
     (\<exists>more. pending s' = pending s @ more)"

lemma grows_refl [simp]: "grows s s"
  by (simp add: grows_def)

lemma grows_trans: "grows s t \<Longrightarrow> grows t u \<Longrightarrow> grows s u"
  by (auto simp: grows_def intro: map_le_trans)

lemma grows_selected: "grows s s' \<Longrightarrow> selected_file s f \<Longrightarrow> selected_file s' f"
  unfolding grows_def selected_file_def map_le_def by (metis domI domIff)

text \<open>An import is pinned when a selected file has its identity, version and digest.\<close>

definition pinned :: "load_state \<Rightarrow> registry_import \<Rightarrow> bool" where
  "pinned s i \<longleftrightarrow> (\<exists>f. selected_file s f \<and> file_id f = imp_registry i \<and>
     reg_version (file_document f) = imp_version i \<and> file_digest f = imp_digest i)"

definition closed_document :: "load_state \<Rightarrow> registry_document \<Rightarrow> bool" where
  "closed_document s d \<longleftrightarrow> (\<forall>i\<in>set (reg_imports d). document_uses d (imp_registry i) \<longrightarrow> pinned s i)"

lemma grows_pinned: "grows s s' \<Longrightarrow> pinned s i \<Longrightarrow> pinned s' i"
  unfolding pinned_def using grows_selected by blast

lemma grows_closed: "grows s s' \<Longrightarrow> closed_document s d \<Longrightarrow> closed_document s' d"
  unfolding closed_document_def using grows_pinned by blast

section \<open>Loading a candidate\<close>

lemma candidates_bt_push:
  "candidates_of (s\<lparr>paths_by_id := bt_push rid p (paths_by_id s), files_by_path := fs\<rparr>) r =
     candidates_of s r @ (if r = rid then [p] else [])"
  by (auto simp: candidates_of_def map_of_bt_push)

lemma load_file_Some:
  assumes "load_file env path report = (out, Some f)"
  shows "file_path f = path" "file_read env f" "out = [] \<Longrightarrow> registry_wf (file_document f)"
  using assms by (auto simp: load_file_def file_read_def validate_shape_Nil split: sum.splits if_splits)

lemma insert_candidate_ok:
  assumes "files_ok env s" "file_read env f" "map_of (files_by_path s) (path_key (file_path f)) = None"
    and s': "s' = s\<lparr>paths_by_id := bt_push (file_id f) (file_path f) (paths_by_id s),
      files_by_path := bt_insert (path_key (file_path f)) f (files_by_path s)\<rparr>"
  shows "files_ok env s'"
proof -
  have c: "candidates_of s' r = candidates_of s r @ (if r = file_id f then [file_path f] else [])" for r
    unfolding s' by (rule candidates_bt_push)
  have m: "map_of (files_by_path s') = (map_of (files_by_path s))(path_key (file_path f) \<mapsto> f)"
    by (simp add: s' map_of_bt_insert)
  show ?thesis
    using assms(1-3) unfolding files_ok_def m c
    by (auto split: if_splits) (metis (no_types, opaque_lifting) option.distinct(1))+
qed

lemma selection_ok_files:
  assumes "selection_ok s" "map_of (files_by_path s) \<subseteq>\<^sub>m map_of (files_by_path s')"
    "selected_paths s' = selected_paths s" "pending s' = pending s"
  shows "selection_ok s'"
proof -
  have "selected_file s f" if "selected_file s' f" for f
  proof -
    have "path_key (file_path f) \<in> fst ` set (selected_paths s)"
      using that assms(3) by (auto simp: selected_file_def map_of_eq_None_iff)
    then have "\<exists>g. map_of (files_by_path s) (path_key (file_path f)) = Some g"
      using assms(1) by (auto simp: selection_ok_def)
    then show ?thesis
      using that assms(2,3) by (metis selected_file_def domI map_le_def)
  qed
  moreover have "map_of (files_by_path s') (path_key p) \<noteq> None" if "p \<in> set (pending s)" for p
    using assms(1,2) that by (metis selection_ok_def domIff map_le_def)
  ultimately show ?thesis
    using assms(1) unfolding selection_ok_def assms(3,4) by blast
qed

lemma load_candidate_ok:
  assumes "load_candidate env report path s = (out, s')" "files_ok env s"
  shows "files_ok env s'" "map_of (files_by_path s) \<subseteq>\<^sub>m map_of (files_by_path s')"
    "selected_paths s' = selected_paths s" "pending s' = pending s"
    "out = [] \<Longrightarrow> shapes_ok s \<Longrightarrow> shapes_ok s'"
proof -
  consider "s' = s" | f where "load_file env path report = (fst (load_file env path report), Some f)"
      "map_of (files_by_path s) (path_key path) = None" "s' = snd (insert_candidate f s)"
      "out = fst (load_file env path report) @ fst (insert_candidate f s)"
    using assms(1) by (auto simp: load_candidate_def Let_def split: if_splits prod.splits option.splits)
  then have "files_ok env s' \<and> map_of (files_by_path s) \<subseteq>\<^sub>m map_of (files_by_path s') \<and>
    selected_paths s' = selected_paths s \<and> pending s' = pending s \<and> (out = [] \<longrightarrow> shapes_ok s \<longrightarrow> shapes_ok s')"
  proof cases
    case (2 f)
    note f = load_file_Some [OF 2(1)]
    have s': "s' = s\<lparr>paths_by_id := bt_push (file_id f) (file_path f) (paths_by_id s),
      files_by_path := bt_insert (path_key (file_path f)) f (files_by_path s)\<rparr>"
      using 2(3) by (simp add: insert_candidate_def Let_def file_id_def)
    moreover have "map_of (files_by_path s') = (map_of (files_by_path s))(path_key path \<mapsto> f)"
      by (simp add: s' f(1) map_of_bt_insert)
    ultimately show ?thesis
      using insert_candidate_ok [OF assms(2) f(2) _ s'] f 2(2,4)
      by (auto simp: shapes_ok_def ran_def map_le_def)
  qed (use assms(2) in simp)
  then show "files_ok env s'" "map_of (files_by_path s) \<subseteq>\<^sub>m map_of (files_by_path s')"
    "selected_paths s' = selected_paths s" "pending s' = pending s"
    "out = [] \<Longrightarrow> shapes_ok s \<Longrightarrow> shapes_ok s'" by blast+
qed

lemma load_inputs_ok:
  "load_inputs env paths s = (out, s') \<Longrightarrow> files_ok env s \<Longrightarrow>
     files_ok env s' \<and> map_of (files_by_path s) \<subseteq>\<^sub>m map_of (files_by_path s') \<and>
     selected_paths s' = selected_paths s \<and> pending s' = pending s \<and> (out = [] \<longrightarrow> shapes_ok s \<longrightarrow> shapes_ok s')"
proof (induction env paths s arbitrary: out s' rule: load_inputs.induct)
  case (2 env path paths s)
  obtain o1 t where t: "load_candidate env True path s = (o1, t)" by fastforce
  with 2(2) obtain o2 where o: "load_inputs env paths t = (o2, s')" "out = o1 @ o2"
    by (auto simp: Let_def split: prod.splits)
  show ?case
    using load_candidate_ok [OF t 2(3)] 2(1) [OF t [symmetric] refl o(1)] o(2) by (auto intro: map_le_trans)
qed simp

text \<open>An input that cannot be loaded is reported.\<close>

lemma load_candidate_reported:
  assumes "load_candidate env True path s = ([], s')"
  shows "map_of (files_by_path s') (path_key path) \<noteq> None"
proof (cases "map_of (files_by_path s) (path_key path)")
  case None
  then obtain f where "load_file env path True = ([], Some f)" "s' = snd (insert_candidate f s)"
    using assms by (auto simp: load_candidate_def load_file_def Let_def split: sum.splits prod.splits)
  then show ?thesis
    using load_file_Some(1) [of env path True "[]" f] by (simp add: insert_candidate_def Let_def map_of_bt_insert)
qed (use assms in \<open>simp add: load_candidate_def\<close>)

lemma follow_uri_ok:
  assumes "follow_uri env path loc i s = (out, s')" "state_ok env s"
  shows "state_ok env s'" "grows s s'" "out = [] \<Longrightarrow> shapes_ok s \<Longrightarrow> shapes_ok s'"
proof -
  consider "s' = s" | c where "load_candidate env False c s = (out, s')"
    using assms(1) by (auto simp: follow_uri_def split: option.splits sum.splits)
  then have "state_ok env s' \<and> grows s s' \<and> (out = [] \<longrightarrow> shapes_ok s \<longrightarrow> shapes_ok s')"
  proof cases
    case (2 c)
    have "files_ok env s" "selection_ok s" using assms(2) by (simp_all add: state_ok_def)
    with load_candidate_ok [OF 2] selection_ok_files [of s s'] show ?thesis
      by (simp add: state_ok_def grows_def)
  qed (use assms(2) in simp)
  then show "state_ok env s'" "grows s s'" "out = [] \<Longrightarrow> shapes_ok s \<Longrightarrow> shapes_ok s'" by blast+
qed

section \<open>Selecting an import\<close>

lemma selection_ok_add:
  assumes ok: "state_ok env s" and c: "candidates_of s rid = [p]"
    and new: "map_of (selected_paths s) (path_key p) = None"
    and s': "s' = s\<lparr>selected_paths := bt_insert (path_key p) () (selected_paths s), pending := pending s @ [p]\<rparr>"
  shows "state_ok env s'" "grows s s'"
proof -
  have fs: "files_ok env s'" using ok by (simp add: state_ok_def files_ok_def candidates_of_def s')
  obtain f where f: "map_of (files_by_path s) (path_key p) = Some f" "file_path f = p" "file_id f = rid"
    using ok c by (fastforce simp: state_ok_def files_ok_def)
  have sel: "selected_file s' g \<longleftrightarrow> selected_file s g \<or> g = f" for g
    using f by (auto simp: selected_file_def s' map_of_bt_insert)
  have only: "g = f" if "selected_file s g" "file_id g = rid" for g
  proof -
    have "file_path g \<in> set (candidates_of s rid)"
      using that ok by (auto simp: state_ok_def files_ok_def selected_file_def)
    then show ?thesis using that(1) f by (simp add: c selected_file_def)
  qed
  have "path_key p \<notin> path_key ` set (pending s)"
    using ok new by (simp add: state_ok_def selection_ok_def map_of_eq_None_iff)
  then have "selection_ok s'"
    using ok f(1,3) only unfolding state_ok_def selection_ok_def sel
    by (auto simp: s' fst_set_bt_insert bt_wf_insert)
  with fs show "state_ok env s'" by (simp add: state_ok_def)
  show "grows s s'" using new by (auto simp: grows_def s' map_of_bt_insert map_le_def)
qed

lemma select_import_ok:
  assumes "state_ok env s"
  shows "\<exists>out s'. select_import path loc used i s = Inr (out, s') \<and> state_ok env s' \<and> grows s s' \<and>
    files_by_path s' = files_by_path s \<and> (out = [] \<longrightarrow> used \<longrightarrow> pinned s' i)"
proof -
  consider (none) "candidates_of s (imp_registry i) = []" | (one) p where "candidates_of s (imp_registry i) = [p]"
    | (many) p q ps where "candidates_of s (imp_registry i) = p # q # ps"
    by (metis list.exhaust)
  then show ?thesis
  proof cases
    case (one p)
    obtain f where f: "map_of (files_by_path s) (path_key p) = Some f" "file_path f = p" "file_id f = imp_registry i"
      using assms one by (fastforce simp: state_ok_def files_ok_def)
    show ?thesis
    proof (cases "reg_version (file_document f) = imp_version i \<and> file_digest f = imp_digest i \<and>
        map_of (selected_paths s) (path_key p) = None")
      case True
      let ?s = "s\<lparr>selected_paths := bt_insert (path_key p) () (selected_paths s), pending := pending s @ [p]\<rparr>"
      have "pinned ?s i" using True f by (auto simp: pinned_def selected_file_def map_of_bt_insert intro!: exI [of _ f])
      with selection_ok_add [OF assms one] True f(1) one show ?thesis
        by (simp add: select_import_def Let_def)
    next
      case False
      then have "reg_version (file_document f) = imp_version i \<and> file_digest f = imp_digest i \<Longrightarrow> pinned s i"
        using f by (auto simp: pinned_def selected_file_def intro!: exI [of _ f])
      with False one f(1) assms show ?thesis by (auto simp: select_import_def Let_def)
    qed
  qed (use assms in \<open>auto simp: select_import_def\<close>)
qed

lemma import_each_ok:
  "state_ok env s \<Longrightarrow> \<exists>out s'. import_each env path d k is s = Inr (out, s') \<and> state_ok env s' \<and> grows s s' \<and>
     (out = [] \<longrightarrow> (\<forall>i\<in>set is. document_uses d (imp_registry i) \<longrightarrow> pinned s' i) \<and> (shapes_ok s \<longrightarrow> shapes_ok s'))"
proof (induction "is" arbitrary: k s)
  case (Cons i "is")
  let ?loc = "index_loc ''$.imports'' k"
  obtain hint s1 where h: "follow_uri env path ?loc i s = (hint, s1)" by fastforce
  note f = follow_uri_ok [OF h Cons.prems]
  obtain out s2 where o: "select_import path ?loc (document_uses d (imp_registry i)) i s1 = Inr (out, s2)"
    "state_ok env s2" "grows s1 s2" "files_by_path s2 = files_by_path s1"
    "out = [] \<longrightarrow> document_uses d (imp_registry i) \<longrightarrow> pinned s2 i"
    using select_import_ok [OF f(1)] by blast
  obtain rest s3 where r: "import_each env path d (Suc k) is s2 = Inr (rest, s3)" "state_ok env s3" "grows s2 s3"
    "rest = [] \<longrightarrow> (\<forall>i\<in>set is. document_uses d (imp_registry i) \<longrightarrow> pinned s3 i) \<and> (shapes_ok s2 \<longrightarrow> shapes_ok s3)"
    using Cons.IH [OF o(2)] by blast
  have "grows s s3" using f(2) o(3) r(3) grows_trans by blast
  moreover have "import_each env path d k (i # is) s = Inr (hint @ out @ rest, s3)"
    by (simp add: h o(1) r(1) and_then_def Let_def)
  moreover have "hint = [] \<Longrightarrow> shapes_ok s \<Longrightarrow> shapes_ok s2" using f(3) o(4) by (simp add: shapes_ok_def)
  ultimately show ?case
    using o r grows_pinned by (auto simp del: import_each.simps)
qed simp

section \<open>The work list\<close>

definition readable :: "registry_env \<Rightarrow> path_key set \<Rightarrow> bool" where
  "readable env K \<longleftrightarrow> finite K \<and> (\<forall>p bytes. env_read env p = Inr bytes \<longrightarrow> path_key p \<in> K)"

lemma pending_bound:
  assumes "state_ok env s" "readable env K"
  shows "length (pending s) \<le> card K"
proof -
  have "path_key ` set (pending s) \<subseteq> K"
  proof
    fix key assume "key \<in> path_key ` set (pending s)"
    then obtain f where "map_of (files_by_path s) key = Some f"
      using assms(1) by (auto simp: state_ok_def selection_ok_def)
    with assms show "key \<in> K"
      unfolding state_ok_def files_ok_def file_read_def readable_def by metis
  qed
  then have "card (set (map path_key (pending s))) \<le> card K"
    using assms(2) by (simp add: card_mono readable_def)
  moreover have "card (set (map path_key (pending s))) = length (pending s)"
    using assms(1) distinct_card [of "map path_key (pending s)"] by (simp add: state_ok_def selection_ok_def)
  ultimately show ?thesis by simp
qed

definition closed_from :: "nat \<Rightarrow> load_state \<Rightarrow> bool" where
  "closed_from cursor s \<longleftrightarrow> (\<forall>j<length (pending s). cursor \<le> j \<longrightarrow>
     (\<forall>f. map_of (files_by_path s) (path_key (pending s ! j)) = Some f \<longrightarrow> closed_document s (file_document f)))"

text \<open>
  The loop ends with the invariant, every document from the cursor on closed under its used imports;
  it can only run out of fuel when more files are readable than it had fuel for.
\<close>

lemma import_loop_ok:
  assumes "state_ok env s"
  shows "(\<exists>out s'. import_loop env fuel cursor s = Inr (out, s') \<and> state_ok env s' \<and> grows s s' \<and>
      (out = [] \<longrightarrow> closed_from cursor s' \<and> (shapes_ok s \<longrightarrow> shapes_ok s'))) \<or>
    (import_loop env fuel cursor s = Inl OutOfFuel \<and> (\<forall>K. readable env K \<longrightarrow> fuel + cursor < card K))"
  using assms
proof (induction fuel arbitrary: cursor s)
  case 0
  then show ?case using pending_bound [OF 0] by (fastforce simp: import_loop.simps [of env 0] closed_from_def)
next
  case (Suc n)
  show ?case
  proof (cases "cursor < length (pending s)")
    case False
    with Suc.prems(1) show ?thesis by (auto simp: import_loop.simps [of env "Suc n"] closed_from_def)
  next
    case True
    let ?path = "pending s ! cursor"
    obtain f where f: "map_of (files_by_path s) (path_key ?path) = Some f"
      using Suc.prems(1) True by (fastforce simp: state_ok_def selection_ok_def)
    obtain out s1 where s1: "import_each env ?path (file_document f) 0 (reg_imports (file_document f)) s = Inr (out, s1)"
      "state_ok env s1" "grows s s1" "out = [] \<longrightarrow> closed_document s1 (file_document f) \<and> (shapes_ok s \<longrightarrow> shapes_ok s1)"
      using import_each_ok [OF Suc.prems(1)] unfolding closed_document_def by blast
    have step: "import_loop env (Suc n) cursor s =
        and_then (import_loop env n (Suc cursor) s1) (\<lambda>(rest, s''). Inr (out @ rest, s''))"
      using True f s1(1) by (simp add: import_loop.simps [of env "Suc n"] and_then_def Let_def)
    from Suc.IH [OF s1(2), of "Suc cursor"] show ?thesis
    proof (elim disjE exE conjE)
      fix rest s2 assume s2: "import_loop env n (Suc cursor) s1 = Inr (rest, s2)" "state_ok env s2" "grows s1 s2"
        "rest = [] \<longrightarrow> closed_from (Suc cursor) s2 \<and> (shapes_ok s1 \<longrightarrow> shapes_ok s2)"
      have g: "grows s s2" using grows_trans s1(3) s2(3) by blast
      have "closed_from cursor s2" if "out = []" "rest = []"
      proof -
        have "pending s2 ! cursor = ?path"
          using g True by (auto simp: grows_def nth_append)
        moreover have "map_of (files_by_path s2) (path_key ?path) = Some f"
          using g f by (metis grows_def map_le_def domI)
        moreover have "closed_document s2 (file_document f)"
          using s1(4) s2(3) that grows_closed by blast
        moreover have "closed_from (Suc cursor) s2" using s2(4) that by blast
        ultimately show ?thesis
          unfolding closed_from_def by (metis Suc_leI le_neq_implies_less option.inject)
      qed
      with step s1(4) s2 g show ?thesis by (auto simp: and_then_def)
    qed (auto simp: step and_then_def)
  qed
qed

end
