(* ===== verification/Ctsc_Registry.thy ===== *)
theory Ctsc_Registry
  imports Ctsc_Loader
begin

text \<open>
  What a loaded registry set is: loading returns, a load without issues has pinned every import it
  uses to the exact bytes of an acyclic set of well-formed documents, and every type reference of a
  component of the set resolves in linked validation.
\<close>

section \<open>Type references\<close>

function named_refs :: "type_ref \<Rightarrow> (string \<times> string option \<times> string option) set" where
  "named_refs (Primitive _) = {}"
| "named_refs (Named name cid rid) = {(name, cid, rid)}"
| "named_refs (Collection items _ _) = named_refs items"
| "named_refs (Map keys vals _) = named_refs keys \<union> named_refs vals"
| "named_refs (Tuple items) = (\<Union>item\<in>set items. named_refs item)"
| "named_refs (Record entries) = (\<Union>e\<in>set entries. named_refs (nv_type e))"
| "named_refs (Optional t) = named_refs t"
| "named_refs (TaggedUnion variants) =
     (\<Union>v\<in>set variants. case var_payload v of None \<Rightarrow> {} | Some t \<Rightarrow> named_refs t)"
  by pat_completeness auto
termination
  by (relation "measure size")
     (auto dest: size_payload size_field size_list_estimation' [OF _ order_refl, where f = size])

definition component_type_refs :: "registry_component \<Rightarrow> type_ref set" where
  "component_type_refs c = (\<Union>p\<in>set (comp_operations c). set (operation_types p)) \<union> as_type ` set (comp_types c)"

definition links :: "registry_set \<Rightarrow> resolved_component \<Rightarrow> type_ref \<Rightarrow> bool" where
  "links reg rc t \<longleftrightarrow> (\<forall>(name, cid, rid)\<in>named_refs t. resolve_named reg rc name cid rid \<noteq> None)"

lemma resolve_type_Nil:
  "resolve_type docs current c locals path t loc = [] \<Longrightarrow> (name, cid, rid) \<in> named_refs t \<Longrightarrow>
   \<exists>loc'. resolve_named_type docs current c locals path loc' name cid rid = []"
proof (induction docs current c locals path t loc rule: resolve_type.induct)
  case (5 docs current c locals path items loc)
  then obtain item where item: "item \<in> set items" "(name, cid, rid) \<in> named_refs item" by auto
  from for_from_Nil_each [OF "5.prems"(1) [simplified] item(1)] obtain i
    where "resolve_type docs current c locals path item (index_loc (loc @ ''.items'') i) = []" by blast
  with "5.IH" [OF item(1)] item(2) show ?case by blast
next
  case (6 docs current c locals path entries loc)
  then obtain e where e: "e \<in> set entries" "(name, cid, rid) \<in> named_refs (nv_type e)" by auto
  from for_from_Nil_each [OF "6.prems"(1) [simplified] e(1)] obtain i
    where "resolve_type docs current c locals path (nv_type e) (index_loc (loc @ ''.fields'') i @ ''.type'') = []" by auto
  with "6.IH" [OF e(1)] e(2) show ?case by blast
next
  case (8 docs current c locals path variants loc)
  then obtain v t where v: "v \<in> set variants" "var_payload v = Some t" "(name, cid, rid) \<in> named_refs t"
    by (auto split: option.splits)
  from for_from_Nil_each [OF "8.prems"(1) [simplified] v(1)] v(2) obtain i
    where "resolve_type docs current c locals path t (index_loc (loc @ ''.variants'') i @ ''.payload'') = []" by auto
  with "8.IH" [OF v(1,2)] v(3) show ?case by blast
qed auto

lemma error_sites_types:
  "fst ` set (List.map_filter (\<lambda>(i, e). map_option (\<lambda>t. (t, g i)) (err_type e)) (enumerate n xs)) =
     set (List.map_filter err_type xs)"
  by (induction xs arbitrary: n) (simp_all add: map_filter_simps split: option.split)

lemma value_sites_types: "fst ` (\<lambda>(i, v). (nv_type v, g i)) ` set (enumerate n xs) = nv_type ` set xs"
  by (induction xs arbitrary: n) auto

lemma operation_sites_types: "fst ` set (operation_sites p loc) = set (operation_types p)"
  unfolding operation_sites_def operation_types_def set_append image_Un set_map error_sites_types value_sites_types
  by (cases "out_result (op_outcomes p)") simp_all

lemma in_enumerate: "x \<in> set xs \<Longrightarrow> \<exists>k. (k, x) \<in> set (enumerate 0 xs)"
  by (metis add_0 diff_zero in_set_conv_nth in_set_enumerate_eq fst_conv snd_conv zero_le add.commute)

lemma component_sites_types: "t \<in> component_type_refs c \<Longrightarrow> \<exists>loc. (t, loc) \<in> set (component_sites c base)"
proof -
  assume "t \<in> component_type_refs c"
  then consider (p) p where "p \<in> set (comp_operations c)" "t \<in> set (operation_types p)"
    | (n) n where "n \<in> set (comp_types c)" "t = as_type n"
    by (auto simp: component_type_refs_def)
  then show ?thesis
  proof cases
    case p
    then obtain k where "(k, p) \<in> set (enumerate 0 (comp_operations c))" using in_enumerate by metis
    moreover obtain loc where "(t, loc) \<in> set (operation_sites p (index_loc (base @ ''.operations'') k))"
      using p(2) operation_sites_types [of p "index_loc (base @ ''.operations'') k"] by force
    ultimately show ?thesis by (auto simp: component_sites_def)
  next
    case n
    then obtain k where "(k, n) \<in> set (enumerate 0 (comp_types c))" using in_enumerate by metis
    with n(2) show ?thesis by (force simp: component_sites_def)
  qed
qed

section \<open>Documents and components\<close>

lemma registry_semantics_checked:
  assumes "registry_semantics docs paths = Some []" "(rid, d) \<in> set docs" "c \<in> set (reg_components d)"
    and "t \<in> component_type_refs c" "(name, cid, ref) \<in> named_refs t"
  shows "\<exists>path loc. resolve_named_type docs rid c (local_components d) path loc name cid ref = []"
proof -
  obtain k where k: "(k, c) \<in> set (enumerate 0 (reg_components d))" using assms(3) in_enumerate by metis
  obtain loc where "(t, loc) \<in> set (component_sites c (index_loc ''$.components'' k))"
    using component_sites_types [OF assms(4)] by blast
  then have "with_path paths rid (\<lambda>path. resolve_type docs rid c (local_components d) path t loc)
      \<in> set (component_checks docs paths rid d k c)"
    by (force simp: component_checks_def Let_def)
  with k assms(2) have "with_path paths rid (\<lambda>path. resolve_type docs rid c (local_components d) path t loc) = Some []"
    using assms(1) unfolding registry_semantics_def seq_issues_Nil by force
  then obtain path where "resolve_type docs rid c (local_components d) path t loc = []" by (auto simp: with_path_def)
  from resolve_type_Nil [OF this assms(5)] show ?thesis by blast
qed

lemma find_component_in:
  "find_component docs r cid = Some c \<Longrightarrow> \<exists>d. map_of docs r = Some d \<and> c \<in> set (reg_components d) \<and> comp_id c = cid"
  by (auto simp: find_component_def find_Some_iff split: Option.bind_splits)

lemma resolved_target:
  assumes "resolve_named_type docs rid c (local_components d) path loc name cid ref = []" "map_of docs rid = Some d"
  obtains e target t where "map_of docs (case ref of None \<Rightarrow> rid | Some r \<Rightarrow> r) = Some e" "target \<in> set (reg_components e)"
    "comp_id target = (case cid of None \<Rightarrow> comp_id c | Some x \<Rightarrow> x)" "t \<in> set (comp_types target)" "named_type_name t = name"
proof -
  let ?r = "case ref of None \<Rightarrow> rid | Some r \<Rightarrow> r" and ?c = "case cid of None \<Rightarrow> comp_id c | Some x \<Rightarrow> x"
  obtain target where t: "(case find_component docs ?r ?c of Some c \<Rightarrow> Some c
      | None \<Rightarrow> if ?r = rid then map_of (local_components d) ?c else None) = Some target"
    "\<exists>t\<in>set (comp_types target). named_type_name t = name"
    using assms(1) by (auto simp: resolve_named_type_def Let_def split: option.splits)
  have "\<exists>e. map_of docs ?r = Some e \<and> target \<in> set (reg_components e) \<and> comp_id target = ?c"
  proof (cases "find_component docs ?r ?c")
    case None
    with t(1) have "?r = rid" "map_of (local_components d) ?c = Some target" by (auto split: if_splits)
    then show ?thesis
      using assms(2) map_of_SomeD by (fastforce simp: local_components_def map_of_bt_collect)
  qed (use t(1) find_component_in in auto)
  with t(2) that show thesis by blast
qed

lemma map_le_Some: "m \<subseteq>\<^sub>m m' \<Longrightarrow> m k = Some v \<Longrightarrow> m' k = Some v"
  by (metis domI map_le_def)

lemma add_component_step:
  "add_component root m (rid, c) =
     ((case map_of m (comp_id c) of
         None \<Rightarrow> []
       | Some existing \<Rightarrow> issue (located root ''$.components'')
           (''component ID '' @ ticked (comp_id c) @ '' exists in both '' @ ticked (rc_registry existing) @ '' and '' @ ticked rid)),
      bt_insert (comp_id c) \<lparr>rc_registry = rid, rc_component = c\<rparr> m)"
  by (simp add: add_component_def)

lemma add_components_clean:
  "fold_from k (\<lambda>m _. add_component root m) m xs = ([], comps) \<Longrightarrow>
     map_of m \<subseteq>\<^sub>m map_of comps \<and>
     (\<forall>(rid, c)\<in>set xs. map_of comps (comp_id c) = Some \<lparr>rc_registry = rid, rc_component = c\<rparr>) \<and>
     (\<forall>cid rc. map_of comps cid = Some rc \<longrightarrow> map_of m cid = Some rc \<or>
        (rc_registry rc, rc_component rc) \<in> set xs \<and> cid = comp_id (rc_component rc))"
proof (induction xs arbitrary: k m)
  case (Cons x xs)
  obtain rid c where x: "x = (rid, c)" by fastforce
  let ?m = "bt_insert (comp_id c) \<lparr>rc_registry = rid, rc_component = c\<rparr> m"
  have new: "map_of m (comp_id c) = None"
    and rest: "fold_from (Suc k) (\<lambda>m _. add_component root m) ?m xs = ([], comps)"
    using Cons.prems by (auto simp: x add_component_step Let_def split: prod.splits option.splits)
  note IH = Cons.IH [OF rest]
  have here: "map_of comps (comp_id c) = Some \<lparr>rc_registry = rid, rc_component = c\<rparr>"
    by (rule map_le_Some [OF conjunct1 [OF IH]]) (simp add: map_of_bt_insert)
  have "map_of m \<subseteq>\<^sub>m map_of ?m" using new by (auto simp: map_le_def map_of_bt_insert)
  then have "map_of m \<subseteq>\<^sub>m map_of comps" using conjunct1 [OF IH] by (rule map_le_trans)
  moreover have "map_of m cid = Some rc \<or> (rc_registry rc, rc_component rc) \<in> set (x # xs) \<and> cid = comp_id (rc_component rc)"
    if "map_of comps cid = Some rc" for cid rc
  proof (cases "cid = comp_id c")
    case True
    with that here show ?thesis by (auto simp: x)
  next
    case False
    then have "map_of ?m cid = map_of m cid" by (simp add: map_of_bt_insert)
    with IH that show ?thesis by fastforce
  qed
  ultimately show ?case using IH here by (simp add: x)
qed simp

section \<open>The selected files\<close>

definition documents_of :: "registry_file list \<Rightarrow> documents" where
  "documents_of fs = map (\<lambda>f. (file_id f, file_document f)) fs"

lemma selected_files_ok:
  assumes "state_ok env s"
  obtains fs where "selected_files s = Some fs" "set fs = {f. selected_file s f}" "distinct (map file_id fs)"
proof -
  let ?get = "\<lambda>p. map_of (files_by_path s) (fst p)"
  have sel: "selected_files s = those (map ?get (selected_paths s))"
    by (simp add: selected_files_def case_prod_unfold)
  have keys: "key = path_key (file_path f)" if "map_of (files_by_path s) key = Some f" for key f
    using assms that by (simp add: state_ok_def files_ok_def)
  have some: "?get p \<noteq> None" if "p \<in> set (selected_paths s)" for p
  proof -
    have "fst p \<in> path_key ` set (pending s)"
      using assms that by (metis image_eqI selection_ok_def state_ok_def)
    then show ?thesis using assms by (auto simp: state_ok_def selection_ok_def)
  qed
  then obtain fs where fs: "selected_files s = Some fs"
    using those_map_not_None [of ?get "selected_paths s"] by (auto simp: sel)
  then have m: "fs = map (\<lambda>p. the (?get p)) (selected_paths s)" using those_map_Some sel by metis
  have dom: "map_of (selected_paths s) key \<noteq> None \<longleftrightarrow> key \<in> fst ` set (selected_paths s)" for key
    by (simp add: map_of_eq_None_iff)
  have set: "set fs = {f. selected_file s f}"
  proof (intro set_eqI iffI CollectI)
    fix f assume "f \<in> set fs"
    then obtain p where p: "p \<in> set (selected_paths s)" "f = the (?get p)" by (auto simp: m)
    with some have "?get p = Some f" by fastforce
    with keys p(1) show "selected_file s f" unfolding selected_file_def dom by (metis imageI)
  next
    fix f assume "f \<in> {f. selected_file s f}"
    then obtain p where "p \<in> set (selected_paths s)" "fst p = path_key (file_path f)" "?get p = Some f"
      by (auto simp: selected_file_def map_of_eq_None_iff)
    then have "p \<in> set (selected_paths s)" "f = the (?get p)" by simp_all
    then show "f \<in> set fs" unfolding m set_map by (rule rev_image_eqI)
  qed
  have "distinct (map fst (selected_paths s))" using assms bt_wf_distinct by (auto simp: state_ok_def selection_ok_def)
  moreover have "map (\<lambda>f. path_key (file_path f)) fs = map fst (selected_paths s)"
    using some keys by (fastforce simp: m)
  ultimately have "distinct fs" by (metis distinct_map)
  moreover have "inj_on file_id (set fs)"
    using assms by (auto simp: set inj_on_def state_ok_def selection_ok_def)
  ultimately show thesis using that fs set by (simp add: distinct_map)
qed

lemma collected:
  assumes "distinct (map file_id fs)"
  shows "map_of (bt_collect (map (\<lambda>f. (file_id f, g f)) fs)) = map_of (map (\<lambda>f. (file_id f, g f)) fs)"
    "set (bt_collect (map (\<lambda>f. (file_id f, g f)) fs)) = (\<lambda>f. (file_id f, g f)) ` set fs"
proof -
  have d: "distinct (map fst (map (\<lambda>f. (file_id f, g f)) fs))" using assms by (simp add: comp_def)
  then have "distinct (map fst (rev (map (\<lambda>f. (file_id f, g f)) fs)))"
    by (simp only: rev_map [symmetric] distinct_rev)
  with d show "map_of (bt_collect (map (\<lambda>f. (file_id f, g f)) fs)) = map_of (map (\<lambda>f. (file_id f, g f)) fs)"
    unfolding map_of_bt_collect by (subst map_of_inject_set) simp_all
  show "set (bt_collect (map (\<lambda>f. (file_id f, g f)) fs)) = (\<lambda>f. (file_id f, g f)) ` set fs"
    using bt_collect_set(1) [OF d] by simp
qed

lemma owner_steps_return:
  "fst ` set xs \<subseteq> fst ` set paths \<Longrightarrow> thread (owner_step paths) owners xs \<noteq> None"
proof (rule thread_returns)
  fix s x assume "fst ` set xs \<subseteq> fst ` set paths" "x \<in> set xs"
  then have "fst x \<in> fst ` set paths" by blast
  then have "map_of paths (fst x) \<noteq> None" by (simp add: map_of_eq_None_iff)
  then show "owner_step paths s x \<noteq> None"
    by (cases x) (simp add: owner_step_def Let_def split: option.split)
qed

lemma registry_semantics_returns:
  assumes "fst ` set docs \<subseteq> fst ` set paths"
  shows "registry_semantics docs paths \<noteq> None"
proof -
  have w: "with_path paths rid f \<noteq> None" if "(rid, d) \<in> set docs" for rid d f
  proof -
    have "rid \<in> fst ` set paths" using that assms by force
    then show ?thesis by (simp add: with_path_def map_of_eq_None_iff)
  qed
  have c: "None \<notin> set (component_checks docs paths rid d k c)" if "(rid, d) \<in> set docs" for rid d k c
    using w [OF that] w [OF that, THEN not_sym] by (auto simp: component_checks_def dependency_checks_def Let_def)
  have "fst ` set (owned_components docs) \<subseteq> fst ` set docs" by (force simp: owned_components_def)
  with assms have "thread (owner_step paths) [] (owned_components docs) \<noteq> None"
    by (intro owner_steps_return) blast
  with c show ?thesis unfolding registry_semantics_def seq_issues_None by (fastforce dest: sym)
qed

section \<open>The registry set\<close>

definition set_of :: "registry_set \<Rightarrow> registry_file list \<Rightarrow> bool" where
  "set_of reg fs \<longleftrightarrow>
     (\<forall>f\<in>set fs. \<forall>c\<in>set (reg_components (file_document f)).
        map_of (set_components reg) (comp_id c) = Some \<lparr>rc_registry = file_id f, rc_component = c\<rparr>) \<and>
     (\<forall>cid rc. map_of (set_components reg) cid = Some rc \<longrightarrow> comp_id (rc_component rc) = cid \<and>
        (\<exists>f\<in>set fs. file_id f = rc_registry rc \<and> rc_component rc \<in> set (reg_components (file_document f))))"

lemma build_set_ok:
  assumes "state_ok env s" "map_of (files_by_path s) (path_key root) = Some root_file"
  obtains fs out reg where "build_set root s = Inr (out, reg)" "set fs = {f. selected_file s f}" "distinct (map file_id fs)"
    "root_id reg = file_id root_file" "root_version reg = reg_version (file_document root_file)"
    "root_digest reg = file_digest root_file"
    "out = [] \<longrightarrow> set_of reg fs"
    "out = [] \<longrightarrow> acyclic (import_edges (documents_of fs))"
    "out = [] \<longrightarrow> (\<exists>docs paths. registry_semantics docs paths = Some [] \<and> map_of docs = map_of (documents_of fs) \<and>
       set docs = set (documents_of fs))"
proof -
  obtain fs where fs: "selected_files s = Some fs" "set fs = {f. selected_file s f}" "distinct (map file_id fs)"
    by (rule selected_files_ok [OF assms(1)])
  define docs where "docs = bt_collect (map (\<lambda>f. (file_id f, file_document f)) fs)"
  define paths where "paths = bt_collect (map (\<lambda>f. (file_id f, file_path f)) fs)"
  have docs: "map_of docs = map_of (documents_of fs)" "set docs = set (documents_of fs)"
    unfolding docs_def documents_of_def using collected [OF fs(3), of file_document] by simp_all
  have keys: "fst ` set docs \<subseteq> fst ` set paths"
    unfolding docs_def paths_def using collected(2) [OF fs(3), of file_document] collected(2) [OF fs(3), of file_path]
    by (simp add: image_image)
  obtain cycles where cycles: "validate_cycles docs paths = Some cycles"
    using validate_cycles_returns [OF keys] by blast
  obtain sem where sem: "registry_semantics docs paths = Some sem"
    using registry_semantics_returns [OF keys] by blast
  obtain out comps where comps: "fold_from 0 (\<lambda>m _. add_component root m) [] (owned_components docs) = (out, comps)"
    by fastforce
  let ?reg = "\<lparr>root_id = file_id root_file, root_version = reg_version (file_document root_file),
    root_digest = file_digest root_file, set_components = comps\<rparr>"
  have "build_set root s = Inr (cycles @ sem @ out, ?reg)"
    unfolding build_set_def fs(1) assms(2) option.case prod.case Let_def file_id_def [symmetric]
      docs_def [symmetric] paths_def [symmetric] cycles sem comps sum.case ..
  moreover have "set_of ?reg fs" if "out = []"
  proof -
    have owned: "set (owned_components docs) = {(file_id f, c) |f c. f \<in> set fs \<and> c \<in> set (reg_components (file_document f))}"
      by (auto simp: owned_components_def docs(2) documents_of_def)
    note clean = add_components_clean [OF comps [unfolded that], unfolded owned]
    show ?thesis unfolding set_of_def
    proof (intro conjI ballI allI impI)
      fix f c assume "f \<in> set fs" "c \<in> set (reg_components (file_document f))"
      then show "map_of (set_components ?reg) (comp_id c) = Some \<lparr>rc_registry = file_id f, rc_component = c\<rparr>"
        using clean by auto
    next
      fix cid rc assume "map_of (set_components ?reg) cid = Some rc"
      with clean have "(rc_registry rc, rc_component rc) \<in> {(file_id f, c) |f c. f \<in> set fs \<and> c \<in> set (reg_components (file_document f))}"
        "cid = comp_id (rc_component rc)" by fastforce+
      then show "comp_id (rc_component rc) = cid"
        "\<exists>f\<in>set fs. file_id f = rc_registry rc \<and> rc_component rc \<in> set (reg_components (file_document f))" by auto
    qed
  qed
  moreover have "acyclic (import_edges (documents_of fs))" if "cycles = []"
    using validate_cycles_acyclic [of docs paths] cycles that docs(1) by (simp add: import_edges_def)
  ultimately show thesis using that [of "cycles @ sem @ out" ?reg fs] fs(2,3) docs sem by fastforce
qed

lemma links_component:
  assumes "registry_semantics docs paths = Some []" "map_of docs = map_of (documents_of fs)" "set docs = set (documents_of fs)"
    and "distinct (map file_id fs)" "set_of reg fs" "map_of (set_components reg) cid = Some rc"
    and "t \<in> component_type_refs (rc_component rc)"
  shows "links reg rc t"
proof -
  have doc: "map_of docs (file_id f) = Some (file_document f)" if "f \<in> set fs" for f
    unfolding assms(2) using that assms(4) by (intro map_of_is_SomeI) (auto simp: documents_of_def comp_def)
  have docD: "\<exists>f\<in>set fs. file_id f = r \<and> file_document f = d" if "map_of docs r = Some d" for r d
    using map_of_SomeD [OF that] assms(3) by (auto simp: documents_of_def)
  obtain f where f: "f \<in> set fs" "file_id f = rc_registry rc" "rc_component rc \<in> set (reg_components (file_document f))"
    using assms(5,6) unfolding set_of_def by blast
  have own: "(rc_registry rc, file_document f) \<in> set docs"
    using f(1,2) assms(3) by (force simp: documents_of_def)
  have "resolve_named reg rc name cid' rid \<noteq> None" if ref: "(name, cid', rid) \<in> named_refs t" for name cid' rid
  proof -
    obtain path loc where "resolve_named_type docs (rc_registry rc) (rc_component rc) (local_components (file_document f)) path loc name cid' rid = []"
      using registry_semantics_checked [OF assms(1) own f(3) assms(7) ref] by blast
    then obtain e target n where e: "map_of docs (case rid of None \<Rightarrow> rc_registry rc | Some r \<Rightarrow> r) = Some e"
      "target \<in> set (reg_components e)" "comp_id target = (case cid' of None \<Rightarrow> comp_id (rc_component rc) | Some x \<Rightarrow> x)"
      "n \<in> set (comp_types target)" "named_type_name n = name"
      using resolved_target doc [OF f(1)] f(2) by metis
    obtain g where "g \<in> set fs" "file_id g = (case rid of None \<Rightarrow> rc_registry rc | Some r \<Rightarrow> r)" "file_document g = e"
      using docD [OF e(1)] by blast
    then have "map_of (set_components reg) (comp_id target) =
        Some \<lparr>rc_registry = (case rid of None \<Rightarrow> rc_registry rc | Some r \<Rightarrow> r), rc_component = target\<rparr>"
      using assms(5) e(2) by (auto simp: set_of_def)
    moreover have "find (\<lambda>t. named_type_name t = name) (comp_types target) \<noteq> None"
      using e(4,5) by (auto simp: find_None_iff)
    ultimately show ?thesis
      unfolding resolve_named_def e(3) [symmetric] by (simp add: component_types_def split: option.split)
  qed
  then show ?thesis by (auto simp: links_def)
qed

section \<open>Loading\<close>

lemma inputs_state_ok:
  assumes "load_inputs env inputs \<lparr>files_by_path = [], paths_by_id = [], selected_paths = [(path_key root, ())],
      pending = [root]\<rparr> = (out, s)"
    and "map_of (files_by_path s) (path_key root) \<noteq> None"
  shows "state_ok env s" "out = [] \<Longrightarrow> shapes_ok s" "pending s = [root]"
proof -
  let ?s = "\<lparr>files_by_path = [], paths_by_id = [], selected_paths = [(path_key root, ())], pending = [root]\<rparr>"
  have "files_ok env ?s" "shapes_ok ?s" by (simp_all add: files_ok_def candidates_of_def shapes_ok_def)
  with load_inputs_ok [OF assms(1)] have s: "files_ok env s" "selected_paths s = [(path_key root, ())]" "pending s = [root]"
    and "out = [] \<longrightarrow> shapes_ok s" by simp_all
  then show "out = [] \<Longrightarrow> shapes_ok s" "pending s = [root]" by simp_all
  show "state_ok env s"
    using s assms(2) by (auto simp: state_ok_def selection_ok_def selected_file_def bt_wf_def split: if_splits)
qed

lemma inputs_root_loaded:
  assumes "load_inputs env (root # inputs) \<lparr>files_by_path = [], paths_by_id = [], selected_paths = sel, pending = ps\<rparr> = ([], s)"
  shows "map_of (files_by_path s) (path_key root) \<noteq> None"
proof -
  let ?s = "\<lparr>files_by_path = [], paths_by_id = [], selected_paths = sel, pending = ps\<rparr>"
  obtain t where t: "load_candidate env True root ?s = ([], t)" "load_inputs env inputs t = ([], s)"
    using assms by (auto simp: Let_def split: prod.splits)
  have "files_ok env ?s" by (simp add: files_ok_def candidates_of_def)
  from load_inputs_ok [OF t(2) load_candidate_ok(1) [OF t(1) this]] load_candidate_reported [OF t(1)]
  show ?thesis using map_le_Some by fastforce
qed

lemma load_fs_run:
  obtains (missing) issues where "load_fs env fuel root imports = Inr \<lparr>loaded_value = None, loaded_issues = issues\<rparr>" "issues \<noteq> []"
  | (fuel) "load_fs env fuel root imports = Inl OutOfFuel" "\<And>K. readable env K \<Longrightarrow> fuel < card K"
  | (loaded) issues s fs reg root_file where
      "load_fs env fuel root imports = Inr \<lparr>loaded_value = Some reg, loaded_issues = issues\<rparr>"
      "state_ok env s" "set fs = {f. selected_file s f}" "distinct (map file_id fs)"
      "root_file \<in> set fs" "path_key (file_path root_file) = path_key (canonicalize env root)"
      "root_id reg = file_id root_file" "root_version reg = reg_version (file_document root_file)"
      "root_digest reg = file_digest root_file"
      "issues = [] \<longrightarrow> shapes_ok s" "issues = [] \<longrightarrow> closed_from 0 s" "issues = [] \<longrightarrow> set_of reg fs"
      "issues = [] \<longrightarrow> acyclic (import_edges (documents_of fs))"
      "issues = [] \<longrightarrow> (\<exists>docs paths. registry_semantics docs paths = Some [] \<and> map_of docs = map_of (documents_of fs) \<and>
         set docs = set (documents_of fs))"
proof -
  define top where "top = canonicalize env root"
  define inputs where "inputs = top # map (canonicalize env) imports"
  obtain loading s0 where l: "load_inputs env inputs \<lparr>files_by_path = [], paths_by_id = [], selected_paths = [(path_key top, ())],
      pending = [top]\<rparr> = (loading, s0)" by fastforce
  show thesis
  proof (cases "map_of (files_by_path s0) (path_key top) = None")
    case True
    then have "loading \<noteq> []" using l inputs_root_loaded by (metis inputs_def)
    with l True show thesis using missing by (simp add: load_fs_def Let_def top_def inputs_def)
  next
    case False
    note s0 = inputs_state_ok [OF l False]
    have run: "load_fs env fuel root imports =
        and_then (import_loop env fuel 0 s0) (\<lambda>(importing, s').
        and_then (build_set top s') (\<lambda>(checks, set).
          Inr \<lparr>loaded_value = Some set, loaded_issues = (duplicate_inputs {} inputs @ loading) @ importing @ checks\<rparr>))"
      using l False unfolding load_fs_def top_def inputs_def Let_def by (simp only: prod.case if_False)
    from import_loop_ok [OF s0(1), of fuel 0] show thesis
    proof (elim disjE exE conjE)
      fix importing s
      assume s: "import_loop env fuel 0 s0 = Inr (importing, s)" "state_ok env s" "grows s0 s"
        "importing = [] \<longrightarrow> closed_from 0 s \<and> (shapes_ok s0 \<longrightarrow> shapes_ok s)"
      have "top \<in> set (pending s)" using s(3) s0(3) by (auto simp: grows_def)
      then obtain root_file where r: "map_of (files_by_path s) (path_key top) = Some root_file"
        and sel: "path_key top \<in> fst ` set (selected_paths s)"
        using s(2) by (force simp: state_ok_def selection_ok_def)
      have key: "path_key (file_path root_file) = path_key top"
        using r s(2) by (simp add: state_ok_def files_ok_def)
      with r sel have root: "selected_file s root_file" by (simp add: selected_file_def map_of_eq_None_iff)
      obtain fs out reg where b: "build_set top s = Inr (out, reg)" "set fs = {f. selected_file s f}" "distinct (map file_id fs)"
        "root_id reg = file_id root_file" "root_version reg = reg_version (file_document root_file)"
        "root_digest reg = file_digest root_file" "out = [] \<longrightarrow> set_of reg fs"
        "out = [] \<longrightarrow> acyclic (import_edges (documents_of fs))"
        "out = [] \<longrightarrow> (\<exists>docs paths. registry_semantics docs paths = Some [] \<and> map_of docs = map_of (documents_of fs) \<and>
           set docs = set (documents_of fs))"
        by (rule build_set_ok [OF s(2) r])
      have "load_fs env fuel root imports = Inr \<lparr>loaded_value = Some reg,
          loaded_issues = (duplicate_inputs {} inputs @ loading) @ importing @ out\<rparr>"
        by (simp add: run s(1) b(1) and_then_def)
      moreover have "root_file \<in> set fs" using root b(2) by simp
      ultimately show thesis using loaded s(2,4) s0(2) b(2-9) key unfolding top_def by simp
    next
      assume "import_loop env fuel 0 s0 = Inl OutOfFuel" "\<forall>K. readable env K \<longrightarrow> fuel + 0 < card K"
      then show thesis using fuel by (simp add: run and_then_def)
    qed
  qed
qed

section \<open>A registry and the library it imports\<close>

definition library_document :: registry_document where
  "library_document =
     \<lparr>reg_format = ''ctsc.registry'', reg_format_version = ctsc_version, reg_id = ''lib'', reg_version = ''1'',
      reg_imports = [],
      reg_components = [\<lparr>comp_id = ''shapes'', comp_dependencies = [], comp_operations = [],
        comp_types = [NamedRecord ''Point'' [NamedValue ''x'' (Primitive ''i64'') None] None []],
        comp_description = None, comp_extensions = []\<rparr>],
      reg_description = None, reg_extensions = []\<rparr>"

definition root_document :: registry_document where
  "root_document =
     \<lparr>reg_format = ''ctsc.registry'', reg_format_version = ctsc_version, reg_id = ''app'', reg_version = ''2'',
      reg_imports = [\<lparr>imp_registry = ''lib'', imp_version = ''1'', imp_digest = ''sha256:'' @ replicate 64 (CHR ''b''),
        imp_uri = Some ''file:lib.json''\<rparr>],
      reg_components = [\<lparr>comp_id = ''plotter'',
        comp_dependencies = [\<lparr>cref_component = ''shapes'', cref_registry = Some ''lib''\<rparr>],
        comp_operations = [\<lparr>op_name = ''plot'',
          op_inputs = [NamedValue ''at'' (Named ''Point'' (Some ''shapes'') (Some ''lib'')) None], op_observations = [],
          op_outcomes = \<lparr>out_result = None, out_empty = False, out_errors = []\<rparr>, op_description = None, op_extensions = []\<rparr>],
        comp_types = [], comp_description = None, comp_extensions = []\<rparr>],
      reg_description = None, reg_extensions = []\<rparr>"

definition sample_env :: registry_env where
  "sample_env =
     \<lparr>env_canonicalize = Some, env_read = (\<lambda>_. Inl ''offline''), env_missing = (\<lambda>_. ''not found''),
      env_parse = (\<lambda>bytes. if bytes = ''A'' then Inr root_document else if bytes = ''B'' then Inr library_document else Inl ''syntax''),
      env_sha256 = (\<lambda>bytes. replicate 64 (if bytes = ''A'' then CHR ''a'' else CHR ''b'')),
      env_authority = Inr, env_decode = Inr\<rparr>"

definition sample_files :: registry_env where
  "sample_files = from_documents (''dir/app.json'', ''A'') [(''dir/lib.json'', ''B'')] sample_env"

definition sample_set :: registry_set where
  "sample_set =
     \<lparr>root_id = ''app'', root_version = ''2'', root_digest = ''sha256:'' @ replicate 64 (CHR ''a''),
      set_components =
        [(''plotter'', \<lparr>rc_registry = ''app'', rc_component = hd (reg_components root_document)\<rparr>),
         (''shapes'', \<lparr>rc_registry = ''lib'', rc_component = hd (reg_components library_document)\<rparr>)]\<rparr>"

lemma sample_loaded_set:
  "load_fs sample_files 2 ''dir/app.json'' [] = Inr \<lparr>loaded_value = Some sample_set, loaded_issues = []\<rparr>"
  by code_simp

section \<open>What loading a registry set establishes\<close>

text \<open>
  Every file was read, parsed and hashed from its path and is well formed, and each import a document
  uses is met by a file of the set with the identity, the version and the digest it names.
\<close>

definition pinned_files :: "registry_env \<Rightarrow> registry_file list \<Rightarrow> bool" where
  "pinned_files env fs \<longleftrightarrow> distinct (map file_id fs) \<and>
     (\<forall>f\<in>set fs. file_read env f \<and> registry_wf (file_document f) \<and>
        (\<forall>i\<in>set (reg_imports (file_document f)). document_uses (file_document f) (imp_registry i) \<longrightarrow>
           (\<exists>g\<in>set fs. file_id g = imp_registry i \<and> reg_version (file_document g) = imp_version i \<and>
              file_digest g = imp_digest i)))"

lemma pinned_filesI:
  assumes "state_ok env s" "set fs = {f. selected_file s f}" "distinct (map file_id fs)" "shapes_ok s" "closed_from 0 s"
  shows "pinned_files env fs"
proof -
  have "file_read env f \<and> registry_wf (file_document f) \<and> closed_document s (file_document f)" if "f \<in> set fs" for f
  proof -
    have f: "map_of (files_by_path s) (path_key (file_path f)) = Some f"
      "path_key (file_path f) \<in> fst ` set (selected_paths s)"
      using that assms(2) by (simp_all add: selected_file_def map_of_eq_None_iff)
    then have "path_key (file_path f) \<in> path_key ` set (pending s)"
      using assms(1) by (simp add: state_ok_def selection_ok_def)
    then obtain p where "p \<in> set (pending s)" "path_key p = path_key (file_path f)" by (elim imageE) simp
    then have "closed_document s (file_document f)"
      using assms(5) f(1) unfolding closed_from_def by (metis in_set_conv_nth le0)
    moreover have "file_read env f" using assms(1) f(1) by (simp add: state_ok_def files_ok_def)
    moreover have "registry_wf (file_document f)" using assms(4) f(1) by (auto simp: shapes_ok_def ran_def)
    ultimately show ?thesis by blast
  qed
  then show ?thesis
    using assms(2,3) unfolding pinned_files_def closed_document_def pinned_def by blast
qed

lemma load_registry_bytes_value:
  assumes "load_registry_bytes env fuel root imports = Inr r" "loaded_issues r = []"
  shows "\<exists>reg. loaded_value r = Some reg"
  using assms unfolding load_registry_bytes_def
  by (cases rule: load_fs_run [of "from_documents root imports env" fuel "fst root" "map fst imports"]) auto

lemma load_registry_bytes_returns:
  "\<exists>r. load_registry_bytes env (Suc (length imports)) root imports = Inr r"
proof -
  let ?env = "from_documents root imports env" and ?K = "path_key ` fst ` set (root # imports)"
  have "path_key p \<in> ?K" if "env_read ?env p = Inr bytes" for p bytes
  proof -
    have "map_of (bt_collect (map (\<lambda>(p, bytes). (path_key p, bytes)) (root # imports))) (path_key p) = Some bytes"
      using that by (simp add: from_documents_def Let_def split: option.splits)
    then have "(path_key p, bytes) \<in> set (map (\<lambda>(p, bytes). (path_key p, bytes)) (root # imports))"
      unfolding map_of_bt_collect by (metis map_of_SomeD set_rev)
    then obtain q where "q \<in> set (root # imports)" "path_key p = path_key (fst q)"
      unfolding set_map by (elim imageE) (simp add: case_prod_unfold)
    then show ?thesis unfolding image_image by (rule rev_image_eqI)
  qed
  then have "readable ?env ?K" by (simp add: readable_def)
  moreover have "card ?K \<le> Suc (length imports)"
    unfolding image_image by (metis card_length image_set length_Cons length_map)
  ultimately have "\<not> (\<forall>K. readable ?env K \<longrightarrow> Suc (length imports) < card K)" using leD by blast
  then show ?thesis
    unfolding load_registry_bytes_def
    by (cases rule: load_fs_run [of ?env "Suc (length imports)" "fst root" "map fst imports"]) simp_all
qed

text \<open>
  C11: a registry set that loads without issues is pinned: it consists of the root file and files read
  from the paths selected for imports, each well formed, with distinct identities and an acyclic import
  relation; every import that a document uses is met by a file of the set whose version and SHA-256
  digest of the exact bytes are the referenced ones; and its components are exactly those of the files.
\<close>

theorem registry_load_pinned:
  assumes "load_fs env fuel root imports = Inr \<lparr>loaded_value = Some reg, loaded_issues = []\<rparr>"
  shows "\<exists>fs. pinned_files env fs \<and> acyclic (import_edges (documents_of fs)) \<and> set_of reg fs \<and>
    (\<exists>f\<in>set fs. path_key (file_path f) = path_key (canonicalize env root) \<and> root_id reg = file_id f \<and>
       root_version reg = reg_version (file_document f) \<and> root_digest reg = file_digest f)"
proof (cases rule: load_fs_run [of env fuel root "imports"])
  case (loaded issues s fs reg' root_file)
  then have "issues = []" "reg' = reg" using assms by simp_all
  with loaded pinned_filesI [OF loaded(2-4)] show ?thesis by (intro exI [of _ fs]) auto
qed (use assms in auto)

theorem registry_load_pinned_witness:
  "\<exists>fs. pinned_files sample_files fs \<and> acyclic (import_edges (documents_of fs)) \<and> set_of sample_set fs"
  using registry_load_pinned [OF sample_loaded_set] by blast

text \<open>
  C12: in a registry set that loads without issues, every named type that a component mentions in an
  operation or in one of its own types resolves: linked validation and canonicalization never meet an
  unknown named type.
\<close>

theorem registry_types_link:
  assumes "load_fs env fuel root imports = Inr \<lparr>loaded_value = Some reg, loaded_issues = []\<rparr>"
    and "map_of (set_components reg) cid = Some rc" "t \<in> component_type_refs (rc_component rc)"
  shows "links reg rc t"
proof (cases rule: load_fs_run [of env fuel root "imports"])
  case (loaded issues s fs reg' root_file)
  then have "issues = []" "reg' = reg" using assms(1) by simp_all
  with loaded obtain docs paths where "registry_semantics docs paths = Some []" "map_of docs = map_of (documents_of fs)"
    "set docs = set (documents_of fs)" "set_of reg fs" by auto
  then show ?thesis using links_component loaded(4) assms(2,3) by blast
qed (use assms(1) in auto)

theorem registry_types_link_witness:
  "links sample_set \<lparr>rc_registry = ''app'', rc_component = hd (reg_components root_document)\<rparr>
     (Named ''Point'' (Some ''shapes'') (Some ''lib''))"
  by (rule registry_types_link [OF sample_loaded_set, of "''plotter''"])
     (simp_all add: sample_set_def root_document_def component_type_refs_def operation_types_def)

text \<open>
  Loading a registry set from documents in memory returns, without a panic, for every input: the
  import loop follows at most one work item for each document.
\<close>

lemma load_registry_bytes_total:
  "\<exists>r. load_registry_bytes env (Suc (length imports)) root imports = Inr r"
  by (rule load_registry_bytes_returns)

text \<open>
  C38: the cycle check of a registry set decides acyclicity: it reports nothing exactly when the import
  relation between the documents of the set has no cycle (each document has a source path).
\<close>

theorem validate_cycles_exact:
  assumes "fst ` set docs \<subseteq> fst ` set paths"
  shows "validate_cycles docs paths = Some [] \<longleftrightarrow> acyclic (import_edges docs)"
  using validate_cycles_returns [OF assms] validate_cycles_acyclic validate_cycles_silent by blast

definition self_import :: documents where
  "self_import = [(''lib'', library_document\<lparr>reg_imports := [\<lparr>imp_registry = ''lib'', imp_version = ''1'',
     imp_digest = [], imp_uri = None\<rparr>]\<rparr>)]"

theorem validate_cycles_exact_witness: "\<not> acyclic (import_edges self_import)"
proof -
  have "validate_cycles self_import [(''lib'', ''lib.json'')] \<noteq> Some []" by code_simp
  with validate_cycles_exact [of self_import "[(''lib'', ''lib.json'')]"] show ?thesis by (simp add: self_import_def)
qed

text \<open>
  C39: the shape checks of a registry document accept exactly the well-formed documents: the fixed
  format and version, no empty names, unique names in every scope, components in strictly ascending
  identifier order, digests and extension keys of the required form, no empty tagged union, no unit
  result and no empty outcome without a result.
\<close>

theorem validate_shape_exact: "validate_shape d path = [] \<longleftrightarrow> registry_wf d"
  by (rule validate_shape_Nil)

end
