(* ===== verification/Ctsc_Bundle.thy ===== *)
theory Ctsc_Bundle
  imports Ctsc_Registry Ctsc_Loaded
begin

text \<open>
  The public validators over bytes (\<open>validation/mod.rs\<close>) and capture bundles
  (\<open>validation/bundle.rs\<close>): a manifest that pins a registry and a reference trace by digest, and the
  checks that tie the three documents together. \<open>serde_json::from_slice\<close> for the manifest is a
  parameter, like the other parsers.
\<close>

section \<open>Reports\<close>

datatype validation_level = RegistryLevel | TraceLevel | LinkedLevel | BundleLevel

record validation_report =
  report_level :: validation_level
  report_artifact :: string
  report_valid :: bool
  report_issues :: issues

definition new_report :: "validation_level \<Rightarrow> string \<Rightarrow> issues \<Rightarrow> validation_report" where
  "new_report level artifact found =
     \<lparr>report_level = level, report_artifact = artifact, report_valid = (found = []), report_issues = found\<rparr>"

text \<open>What the byte validators call: the trace parser and the registry environment.\<close>

record validators =
  val_codec :: codec
  val_document :: "string \<Rightarrow> string + json"
  val_registry :: registry_env
  val_renderer :: renderer

definition load_trace_bytes :: "validators \<Rightarrow> string \<Rightarrow> string \<Rightarrow> stop + trace_document loaded" where
  "load_trace_bytes V path bytes =
     (case load_bytes (val_codec V) (val_document V) path bytes of
        None \<Rightarrow> Inl OutOfFuel
      | Some (found, doc) \<Rightarrow> Inr \<lparr>loaded_value = doc, loaded_issues = found\<rparr>)"

definition validate_registry_bytes :: "validators \<Rightarrow> document_bytes \<Rightarrow> document_bytes list \<Rightarrow> stop + validation_report" where
  "validate_registry_bytes V root imports =
     and_then (load_registry_bytes (val_registry V) (Suc (length imports)) root imports) (\<lambda>r.
       Inr (new_report RegistryLevel (fst root) (loaded_issues r)))"

definition validate_trace_bytes :: "validators \<Rightarrow> document_bytes \<Rightarrow> stop + validation_report" where
  "validate_trace_bytes V document =
     and_then (load_trace_bytes V (fst document) (snd document)) (\<lambda>t.
       Inr (new_report TraceLevel (fst document) (loaded_issues t)))"

definition validate_linked_bytes ::
    "validators \<Rightarrow> document_bytes \<Rightarrow> document_bytes \<Rightarrow> document_bytes list \<Rightarrow> stop + validation_report" where
  "validate_linked_bytes V trace root imports =
     and_then (load_registry_bytes (val_registry V) (Suc (length imports)) root imports) (\<lambda>r.
     and_then (load_trace_bytes V (fst trace) (snd trace)) (\<lambda>t.
       let found = loaded_issues r @ loaded_issues t;
           linked = (case (loaded_value r, loaded_value t) of
                       (Some reg, Some doc) \<Rightarrow> if found = [] then check_linked (val_renderer V) reg doc else []
                     | _ \<Rightarrow> [])
       in Inr (new_report LinkedLevel (fst trace) (found @ linked))))"

section \<open>The manifest\<close>

record capture_manifest =
  man_format :: string
  man_format_version :: string
  man_component :: string
  man_target_name :: string
  man_target_language :: string
  man_tool_name :: string
  man_tool_version :: string
  man_registry_path :: string
  man_registry_id :: string
  man_registry_version :: string
  man_registry_digest :: string
  man_reference_path :: string
  man_reference_digest :: string
  man_count :: "32 word"
  man_names :: "string list"

definition digest_message :: string where
  "digest_message = ''digest must be '' @ ticked ''sha256:'' @ '' followed by 64 lowercase hexadecimal characters''"

definition parse_manifest ::
    "(string \<Rightarrow> string + capture_manifest) \<Rightarrow> string \<Rightarrow> string \<Rightarrow> issues \<times> capture_manifest option" where
  "parse_manifest parse bytes path =
     (case parse bytes of
        Inl e \<Rightarrow> (issue (located path ''$'') (''invalid capture manifest JSON: '' @ e), None)
      | Inr m \<Rightarrow>
          (require_at (man_format m = ''specgate.capture-manifest'') path ''$.format''
             (''format must be '' @ ticked ''specgate.capture-manifest'') @
           require_at (man_format_version m = ''0.1.0'') path ''$.formatVersion'' (''formatVersion must be '' @ ticked ''0.1.0'') @
           require_at (path_key (man_registry_path m) = path_key ''registry.ctsc.json'') path ''$.registry.path''
             (''registry path must be '' @ ticked ''registry.ctsc.json'') @
           require_at (path_key (man_reference_path m) = path_key ''reference.otlp.json'') path ''$.reference.path''
             (''reference path must be '' @ ticked ''reference.otlp.json'') @
           for_each (\<lambda>(loc, v). require_at (v \<noteq> []) path loc ''identity field must not be empty'')
             [(''$.componentId'', man_component m), (''$.target.name'', man_target_name m),
              (''$.target.language'', man_target_language m), (''$.tool.name'', man_tool_name m),
              (''$.tool.version'', man_tool_version m), (''$.registry.id'', man_registry_id m),
              (''$.registry.version'', man_registry_version m)] @
           require_at (is_digest (man_registry_digest m)) path ''$.registry.digest'' digest_message @
           require_at (is_digest (man_reference_digest m)) path ''$.reference.digest'' digest_message @
           require_at (0 < sint (man_count m)) path ''$.scenarios.count''
             ''capture manifest must declare at least one scenario'' @
           require_at (sint (man_count m) = int (length (man_names m))) path ''$.scenarios''
             ''scenario count does not match scenario names'' @
           require_at (card (set (man_names m)) = length (man_names m)) path ''$.scenarios.names''
             ''capture manifest contains duplicate scenario names'',
           Some m))"

definition validate_digests :: "registry_env \<Rightarrow> capture_manifest \<Rightarrow> string \<Rightarrow> string \<Rightarrow> string \<Rightarrow> issues" where
  "validate_digests env m registry_bytes trace_bytes path =
     (let registry_digest = sha256_digest env registry_bytes; reference_digest = sha256_digest env trace_bytes in
      require_at (man_registry_digest m = registry_digest) path ''$.registry.digest''
        (''manifest declares '' @ ticked (man_registry_digest m) @ '' but exact registry bytes digest to '' @ ticked registry_digest) @
      require_at (man_reference_digest m = reference_digest) path ''$.reference.digest''
        (''manifest declares '' @ ticked (man_reference_digest m) @ '' but exact reference bytes digest to '' @ ticked reference_digest))"

section \<open>The trace against the manifest\<close>

definition resource_string :: "trace_span \<Rightarrow> string \<Rightarrow> string option" where
  "resource_string span key = Option.bind (map_of (resource_attributes span) key) as_string"

definition resource_checks :: "capture_manifest \<Rightarrow> trace_span \<Rightarrow> issues" where
  "resource_checks m span =
     for_each (\<lambda>(key, expected, what).
       if resource_string span key \<noteq> Some expected
       then issue (span_location span) (''trace '' @ what @ '' does not match capture manifest'') else [])
       [(''conformance.target.name'', man_target_name m, ''target name''),
        (''conformance.target.language'', man_target_language m, ''target language''),
        (''conformance.tool.name'', man_tool_name m, ''tool name''),
        (''conformance.tool.version'', man_tool_version m, ''tool version'')]"

definition bundle_scenario :: "trace_span \<Rightarrow> trace_span \<Rightarrow> bool" where
  "bundle_scenario run span \<longleftrightarrow>
     span_name span = ''conformance.scenario'' \<and> trace_id span = trace_id run \<and> parent_span_id span = span_id run"

definition scenario_index :: "trace_span \<Rightarrow> int" where
  "scenario_index span =
     (case Option.bind (map_of (span_attributes span) ''conformance.scenario.index'') as_int of
        None \<Rightarrow> 9223372036854775807 | Some i \<Rightarrow> sint i)"

definition scenario_label :: "trace_span \<Rightarrow> string" where
  "scenario_label span =
     (case Option.bind (map_of (span_attributes span) ''conformance.scenario.name'') as_string of None \<Rightarrow> [] | Some s \<Rightarrow> s)"

text \<open>\<open>sort_by_key\<close> is stable, so sorting by index and position is sorting by index in document order.\<close>

definition bundle_scenarios :: "trace_document \<Rightarrow> trace_span \<Rightarrow> trace_span list" where
  "bundle_scenarios doc run =
     map snd (sort_key (\<lambda>(position, span). (scenario_index span, position))
       (filter (\<lambda>(_, span). bundle_scenario run span) (enumerate 0 (doc_spans doc))))"

definition debug_names :: "renderer \<Rightarrow> string list \<Rightarrow> string" where
  "debug_names R names = ''['' @ join '', '' (map (debug_text R) names) @ '']''"

definition scenario_checks :: "renderer \<Rightarrow> capture_manifest \<Rightarrow> trace_document \<Rightarrow> trace_span \<Rightarrow> string \<Rightarrow> issues" where
  "scenario_checks R m doc run path =
     (let scenarios = bundle_scenarios doc run; names = map scenario_label scenarios in
      for_indexed (\<lambda>i span.
        if int i \<noteq> scenario_index span
        then issue (located path ''$.scenarios'')
          (''scenario indexes must be unique and contiguous from zero; expected '' @ nat_dec i @ '', found '' @ int_dec (scenario_index span))
        else []) scenarios @
      require_at (names = man_names m) path ''$.scenarios.names''
        (''trace scenario order/names '' @ debug_names R names @ '' do not match capture manifest '' @ debug_names R (man_names m)))"

definition bundle_semantics ::
    "renderer \<Rightarrow> capture_manifest \<Rightarrow> registry_set \<Rightarrow> trace_document \<Rightarrow> string \<Rightarrow> issues" where
  "bundle_semantics R m reg doc path =
     require_at (man_registry_id m = root_id reg) path ''$.registry.id'' ''manifest registry ID does not match registry document'' @
     require_at (man_registry_version m = root_version reg) path ''$.registry.version''
       ''manifest registry version does not match registry document'' @
     require_at (map_of (set_components reg) (man_component m) \<noteq> None) path ''$.componentId''
       ''manifest component is absent from registry'' @
     (let runs = filter (\<lambda>span. span_name span = ''conformance.run'') (doc_spans doc) in
      require_at (length runs = 1) path ''$.scenarios'' ''capture bundle trace must contain exactly one run'' @
      (case runs of
         [] \<Rightarrow> []
       | run # _ \<Rightarrow> for_each (resource_checks m) (doc_spans doc) @ scenario_checks R m doc run path))"

definition validate_loaded ::
    "validators \<Rightarrow> (string \<Rightarrow> string + capture_manifest) \<Rightarrow> string \<Rightarrow> string option \<Rightarrow> string option \<Rightarrow> string option \<Rightarrow>
     registry_set loaded \<Rightarrow> trace_document loaded \<Rightarrow> issues \<Rightarrow> issues" where
  "validate_loaded V parse dir manifest_bytes registry_bytes trace_bytes r t reading =
     (let manifest_path = path_join dir ''manifest.json'';
          (parsing, m) = (case manifest_bytes of None \<Rightarrow> ([], None) | Some bytes \<Rightarrow> parse_manifest parse bytes manifest_path);
          digests = (case (m, registry_bytes, trace_bytes) of
                       (Some m, Some rb, Some tb) \<Rightarrow> validate_digests (val_registry V) m rb tb manifest_path
                     | _ \<Rightarrow> []);
          found = reading @ parsing @ loaded_issues r @ loaded_issues t @ digests
      in found @
         (case (m, loaded_value r, loaded_value t) of
            (Some m, Some reg, Some doc) \<Rightarrow>
              if found = [] then check_linked (val_renderer V) reg doc @ bundle_semantics (val_renderer V) m reg doc manifest_path
              else []
          | _ \<Rightarrow> []))"

definition bundle_bytes ::
    "validators \<Rightarrow> (string \<Rightarrow> string + capture_manifest) \<Rightarrow> string \<Rightarrow> string \<Rightarrow> string \<Rightarrow> string \<Rightarrow> stop + issues" where
  "bundle_bytes V parse dir manifest_bytes registry_bytes trace_bytes =
     and_then (load_registry_bytes (val_registry V) 1 (path_join dir ''registry.ctsc.json'', registry_bytes) []) (\<lambda>r.
     and_then (load_trace_bytes V (path_join dir ''reference.otlp.json'') trace_bytes) (\<lambda>t.
       Inr (validate_loaded V parse dir (Some manifest_bytes) (Some registry_bytes) (Some trace_bytes) r t [])))"

definition validate_bundle_bytes ::
    "validators \<Rightarrow> (string \<Rightarrow> string + capture_manifest) \<Rightarrow> string \<Rightarrow> string \<Rightarrow> string \<Rightarrow> string \<Rightarrow> stop + validation_report" where
  "validate_bundle_bytes V parse dir manifest_bytes registry_bytes trace_bytes =
     and_then (bundle_bytes V parse dir manifest_bytes registry_bytes trace_bytes) (\<lambda>found.
       Inr (new_report BundleLevel dir found))"

text \<open>Reading through a document reader, whose failures are diagnostics.\<close>

definition finish_read :: "string \<Rightarrow> string + string \<Rightarrow> issues \<times> string option" where
  "finish_read path result =
     (case result of
        Inl e \<Rightarrow> (issue (located path ''$'') (''failed to read file: '' @ e), None)
      | Inr bytes \<Rightarrow> ([], Some bytes))"

definition load_trace_from :: "validators \<Rightarrow> string \<Rightarrow> stop + trace_document loaded" where
  "load_trace_from V path =
     (case finish_read path (env_read (val_registry V) path) of
        (found, None) \<Rightarrow> Inr \<lparr>loaded_value = None, loaded_issues = found\<rparr>
      | (_, Some bytes) \<Rightarrow> load_trace_bytes V path bytes)"

definition validate_read ::
    "validators \<Rightarrow> nat \<Rightarrow> (string \<Rightarrow> string + capture_manifest) \<Rightarrow> string \<Rightarrow> stop + issues" where
  "validate_read V fuel parse dir =
     (let env = val_registry V;
          manifest_path = path_join dir ''manifest.json'';
          registry_path = path_join dir ''registry.ctsc.json'';
          trace_path = path_join dir ''reference.otlp.json'';
          (i1, manifest_bytes) = finish_read manifest_path (env_read env manifest_path);
          (i2, registry_bytes) = finish_read registry_path (env_read env registry_path);
          (i3, trace_bytes) = finish_read trace_path (env_read env trace_path)
      in and_then (case registry_bytes of
                     None \<Rightarrow> load_fs env fuel registry_path []
                   | Some bytes \<Rightarrow> load_registry_bytes env 1 (registry_path, bytes) []) (\<lambda>r.
         and_then (case trace_bytes of
                     None \<Rightarrow> load_trace_from V trace_path
                   | Some bytes \<Rightarrow> load_trace_bytes V trace_path bytes) (\<lambda>t.
           Inr (validate_loaded V parse dir manifest_bytes registry_bytes trace_bytes r t (i1 @ i2 @ i3)))))"

section \<open>What a valid bundle is\<close>

lemma load_trace_bytes_returns: "\<exists>t. load_trace_bytes V path bytes = Inr t"
proof -
  obtain found doc where "load_bytes (val_codec V) (val_document V) path bytes = Some (found, doc)"
    using load_bytes_returns by fastforce
  then show ?thesis by (simp add: load_trace_bytes_def)
qed

text \<open>The positions of the scenario spans of a run.\<close>

definition scenario_positions :: "trace_document \<Rightarrow> trace_span \<Rightarrow> nat set" where
  "scenario_positions doc run = {k. k < length (doc_spans doc) \<and> bundle_scenario run (doc_spans doc ! k)}"

lemma scenario_checks_bij:
  assumes "scenario_checks R m doc run path = []"
  shows "bij_betw (\<lambda>k. nat (scenario_index (doc_spans doc ! k))) (scenario_positions doc run) {..<length (man_names m)}"
    and "k \<in> scenario_positions doc run \<Longrightarrow>
      scenario_label (doc_spans doc ! k) = man_names m ! nat (scenario_index (doc_spans doc ! k))"
proof -
  define xs where "xs = sort_key (\<lambda>(position, span). (scenario_index span, position))
       (filter (\<lambda>(_, span). bundle_scenario run span) (enumerate 0 (doc_spans doc)))"
  have sc: "bundle_scenarios doc run = map snd xs" by (simp add: bundle_scenarios_def xs_def)
  have idx: "scenario_index (snd (xs ! i)) = int i" if "i < length xs" for i
    using assms that by (simp add: scenario_checks_def sc Let_def for_from_Nil_iff split: if_splits) metis
  have names: "man_names m = map (\<lambda>x. scenario_label (snd x)) xs"
    using assms by (simp add: scenario_checks_def sc Let_def comp_def)
  have set: "set xs = {(k, doc_spans doc ! k) |k. k \<in> scenario_positions doc run}"
    by (auto simp: xs_def in_set_enumerate_eq scenario_positions_def)
  have at: "i < length xs \<Longrightarrow> \<exists>k\<in>scenario_positions doc run. xs ! i = (k, doc_spans doc ! k)" for i
    using nth_mem [of i xs] unfolding set by blast
  have pos: "\<exists>i<length xs. xs ! i = (k, doc_spans doc ! k) \<and> nat (scenario_index (doc_spans doc ! k)) = i"
    if "k \<in> scenario_positions doc run" for k
  proof -
    have "(k, doc_spans doc ! k) \<in> set xs" using that set by blast
    then obtain i where "i < length xs" "xs ! i = (k, doc_spans doc ! k)" by (auto simp: in_set_conv_nth)
    then show ?thesis using idx by fastforce
  qed
  show "bij_betw (\<lambda>k. nat (scenario_index (doc_spans doc ! k))) (scenario_positions doc run) {..<length (man_names m)}"
  proof (rule bij_betw_imageI)
    show "inj_on (\<lambda>k. nat (scenario_index (doc_spans doc ! k))) (scenario_positions doc run)"
      by (rule inj_onI) (metis pos prod.inject)
    show "(\<lambda>k. nat (scenario_index (doc_spans doc ! k))) ` scenario_positions doc run = {..<length (man_names m)}"
    proof (intro equalityI subsetI)
      fix i assume "i \<in> {..<length (man_names m)}"
      then have i: "i < length xs" by (simp add: names)
      then obtain k where k: "k \<in> scenario_positions doc run" "xs ! i = (k, doc_spans doc ! k)" using at by blast
      then have "nat (scenario_index (doc_spans doc ! k)) = i" using idx [OF i] by simp
      with k(1) show "i \<in> (\<lambda>k. nat (scenario_index (doc_spans doc ! k))) ` scenario_positions doc run" by blast
    qed (use pos names in force)
  qed
  show "scenario_label (doc_spans doc ! k) = man_names m ! nat (scenario_index (doc_spans doc ! k))"
    if "k \<in> scenario_positions doc run"
    using pos [OF that] by (auto simp: names)
qed

lemma bundle_semantics_clean:
  assumes "bundle_semantics R m reg doc path = []"
  obtains run where "filter (\<lambda>span. span_name span = ''conformance.run'') (doc_spans doc) = [run]"
    "root_id reg = man_registry_id m" "root_version reg = man_registry_version m"
    "map_of (set_components reg) (man_component m) \<noteq> None"
    "\<forall>span\<in>set (doc_spans doc). resource_checks m span = []" "scenario_checks R m doc run path = []"
proof -
  let ?runs = "filter (\<lambda>span. span_name span = ''conformance.run'') (doc_spans doc)"
  have "length ?runs = 1" using assms by (simp add: bundle_semantics_def Let_def)
  then obtain run where run: "?runs = [run]" by (auto simp: length_Suc_conv)
  with assms that show thesis by (simp add: bundle_semantics_def Let_def for_each_Nil_iff)
qed

lemma parse_manifest_clean:
  assumes "parse_manifest parse bytes path = ([], Some m)"
  shows "parse bytes = Inr m" "distinct (man_names m)" "sint (man_count m) = int (length (man_names m))" "man_names m \<noteq> []"
  using assms by (auto simp: parse_manifest_def card_set_eq_length split: sum.splits)

lemma bundle_bytes_clean:
  assumes "bundle_bytes V parse dir mb rb tb = Inr []"
  obtains m reg doc where "parse_manifest parse mb (path_join dir ''manifest.json'') = ([], Some m)"
    "load_registry_bytes (val_registry V) 1 (path_join dir ''registry.ctsc.json'', rb) [] = Inr \<lparr>loaded_value = Some reg, loaded_issues = []\<rparr>"
    "load_bytes (val_codec V) (val_document V) (path_join dir ''reference.otlp.json'') tb = Some ([], Some doc)"
    "validate_digests (val_registry V) m rb tb (path_join dir ''manifest.json'') = []"
    "check_linked (val_renderer V) reg doc = []" "bundle_semantics (val_renderer V) m reg doc (path_join dir ''manifest.json'') = []"
proof -
  obtain r t where r: "load_registry_bytes (val_registry V) 1 (path_join dir ''registry.ctsc.json'', rb) [] = Inr r"
    and t: "load_trace_bytes V (path_join dir ''reference.otlp.json'') tb = Inr t"
    and v: "validate_loaded V parse dir (Some mb) (Some rb) (Some tb) r t [] = []"
    using assms by (auto simp: bundle_bytes_def)
  obtain found doc where l: "load_bytes (val_codec V) (val_document V) (path_join dir ''reference.otlp.json'') tb = Some (found, doc)"
    and t': "t = \<lparr>loaded_value = doc, loaded_issues = found\<rparr>"
    using t by (auto simp: load_trace_bytes_def split: option.splits)
  obtain out m where p: "parse_manifest parse mb (path_join dir ''manifest.json'') = (out, m)" by fastforce
  have clean: "out = []" "loaded_issues r = []" "found = []"
    using v by (auto simp: validate_loaded_def Let_def p t')
  obtain m' where m: "m = Some m'" using p clean(1) by (auto simp: parse_manifest_def split: sum.splits)
  obtain d where d: "doc = Some d" using l clean(3) load_bytes_document by blast
  obtain reg where reg: "loaded_value r = Some reg" using r clean(2) load_registry_bytes_value by blast
  show thesis
  proof (rule that)
    show "load_registry_bytes (val_registry V) 1 (path_join dir ''registry.ctsc.json'', rb) [] = Inr \<lparr>loaded_value = Some reg, loaded_issues = []\<rparr>"
      using r reg clean(2) by (cases r) simp
  qed (use v p l clean m d reg t' in \<open>auto simp: validate_loaded_def Let_def\<close>)
qed

text \<open>A bundle: the library registry, a trace with one scenario and the manifest that pins them.\<close>

definition bundle_resource :: "string \<Rightarrow> string" where
  "bundle_resource key =
     (if key = ''conformance.version'' then ctsc_version
      else if key = ''conformance.registry.id'' then ''lib''
      else if key = ''conformance.registry.version'' then ''1''
      else if key = ''conformance.registry.digest'' then ''sha256:'' @ replicate 64 (CHR ''b'')
      else ''x'')"

definition bundle_json :: json where
  "bundle_json = JObject [(''resourceSpans'', JArray [JObject
     [(''resource'', JObject [(''attributes'', JArray (map (\<lambda>key. sample_attr key (bundle_resource key)) (required_attrs @ registry_attrs)))]),
      (''scopeSpans'', JArray [JObject [(''spans'', JArray
        [sample_json_span ''aaaaaaaaaaaaaaaa'' JNull ''conformance.run'' [sample_attr ''conformance.run.id'' ''r''],
         sample_json_span ''bbbbbbbbbbbbbbbb'' (JString ''aaaaaaaaaaaaaaaa'') ''conformance.scenario''
           [sample_attr ''conformance.scenario.name'' ''doubling'',
            JObject [(''key'', JString ''conformance.scenario.index''), (''value'', JObject [(''intValue'', JString ''0'')])]]])]])]])]"

definition sample_manifest :: capture_manifest where
  "sample_manifest =
     \<lparr>man_format = ''specgate.capture-manifest'', man_format_version = ''0.1.0'', man_component = ''shapes'',
      man_target_name = ''x'', man_target_language = ''x'', man_tool_name = ''x'', man_tool_version = ''x'',
      man_registry_path = ''registry.ctsc.json'', man_registry_id = ''lib'', man_registry_version = ''1'',
      man_registry_digest = ''sha256:'' @ replicate 64 (CHR ''b''), man_reference_path = ''reference.otlp.json'',
      man_reference_digest = ''sha256:'' @ replicate 64 (CHR ''b''), man_count = 1, man_names = [''doubling'']\<rparr>"

definition sample_validators :: validators where
  "sample_validators = \<lparr>val_codec = plain_codec, val_document = (\<lambda>_. Inr bundle_json), val_registry = sample_env,
     val_renderer = plain_renderer\<rparr>"

lemma sample_bundle: "bundle_bytes sample_validators (\<lambda>_. Inr sample_manifest) ''capture'' ''M'' ''B'' ''T'' = Inr []"
  by code_simp

text \<open>
  C15: a bundle without issues is consistent: its manifest parses, pins the exact bytes of the registry
  and of the reference trace by digest, names the registry's identity, version and one of its
  components; the trace is linked to the registry and has one run; and the scenario spans of the run
  are numbered from zero without gaps or repetitions, in the order of the manifest's distinct names.
\<close>

theorem validated_bundle:
  assumes "bundle_bytes V parse dir mb rb tb = Inr []"
  shows "\<exists>m reg doc run. parse mb = Inr m \<and>
    load_registry_bytes (val_registry V) 1 (path_join dir ''registry.ctsc.json'', rb) [] = Inr \<lparr>loaded_value = Some reg, loaded_issues = []\<rparr> \<and>
    load_bytes (val_codec V) (val_document V) (path_join dir ''reference.otlp.json'') tb = Some ([], Some doc) \<and>
    man_registry_digest m = sha256_digest (val_registry V) rb \<and> man_reference_digest m = sha256_digest (val_registry V) tb \<and>
    root_id reg = man_registry_id m \<and> root_version reg = man_registry_version m \<and>
    map_of (set_components reg) (man_component m) \<noteq> None \<and> check_linked (val_renderer V) reg doc = [] \<and>
    filter (\<lambda>span. span_name span = ''conformance.run'') (doc_spans doc) = [run] \<and>
    distinct (man_names m) \<and> sint (man_count m) = int (length (man_names m)) \<and>
    bij_betw (\<lambda>k. nat (scenario_index (doc_spans doc ! k))) (scenario_positions doc run) {..<length (man_names m)} \<and>
    (\<forall>k\<in>scenario_positions doc run.
       scenario_label (doc_spans doc ! k) = man_names m ! nat (scenario_index (doc_spans doc ! k)))"
proof -
  obtain m reg doc where b: "parse_manifest parse mb (path_join dir ''manifest.json'') = ([], Some m)"
    "load_registry_bytes (val_registry V) 1 (path_join dir ''registry.ctsc.json'', rb) [] = Inr \<lparr>loaded_value = Some reg, loaded_issues = []\<rparr>"
    "load_bytes (val_codec V) (val_document V) (path_join dir ''reference.otlp.json'') tb = Some ([], Some doc)"
    "validate_digests (val_registry V) m rb tb (path_join dir ''manifest.json'') = []"
    "check_linked (val_renderer V) reg doc = []" "bundle_semantics (val_renderer V) m reg doc (path_join dir ''manifest.json'') = []"
    using bundle_bytes_clean [OF assms] .
  obtain run where run: "filter (\<lambda>span. span_name span = ''conformance.run'') (doc_spans doc) = [run]"
    "root_id reg = man_registry_id m" "root_version reg = man_registry_version m"
    "map_of (set_components reg) (man_component m) \<noteq> None"
    "scenario_checks (val_renderer V) m doc run (path_join dir ''manifest.json'') = []"
    using bundle_semantics_clean [OF b(6)] .
  have "man_registry_digest m = sha256_digest (val_registry V) rb" "man_reference_digest m = sha256_digest (val_registry V) tb"
    using b(4) by (simp_all add: validate_digests_def Let_def)
  with b run parse_manifest_clean [OF b(1)] scenario_checks_bij [OF run(5)] show ?thesis by blast
qed

theorem validated_bundle_witness:
  "\<exists>reg doc run. check_linked plain_renderer reg doc = [] \<and>
     filter (\<lambda>span. span_name span = ''conformance.run'') (doc_spans doc) = [run] \<and>
     bij_betw (\<lambda>k. nat (scenario_index (doc_spans doc ! k))) (scenario_positions doc run) {..<1}"
  using validated_bundle [OF sample_bundle] by (auto simp: sample_validators_def sample_manifest_def)


end
