(* ===== verification/Ctsc_Native.thy ===== *)
theory Ctsc_Native
  imports Ctsc_Encoding
begin

text \<open>
  Native capture sessions (\<open>specgate-runtime/src/capture.rs\<close>, \<open>capture/snapshot.rs\<close>,
  \<open>capture/async_context.rs\<close>). The runtime's \<open>Capture\<close> and the one of \<open>specgate-ctsc\<close> are the same
  structures (one is serialised and parsed as the other), so the types of the encoder's model are
  used for both.

  A collector handle \<open>Arc<Mutex<Option<State>>>\<close> is an index into the list of collectors of the
  \<open>world\<close>, so scopes, contexts and the session slots of the threads share the state they point to. An
  action on the state returns the error or value together with the state it leaves, because a
  failing action keeps the updates made before the failure.

  Parameters: what \<open>folded_inputs\<close> and \<open>fold_input\<close> return (the link-time registry of setups), the
  check of the declared setups at the start of a session, and writing a sidecar (\<open>persist_atomic\<close>,
  its error text). Activation through an environment variable only calls \<open>start_with\<close>.
\<close>

section \<open>State\<close>

datatype capture_error_kind = Configuration | Persistence | SetupAmbiguity | SetupMissing

datatype native_error = CaptureError capture_error_kind string | NativePanic string

record native_config =
  cfg_name :: string
  cfg_trace :: string
  cfg_run :: string
  cfg_scenario :: string
  cfg_operation_ids :: "string list"
  cfg_start :: i64
  cfg_step :: i64

record pending_operation =
  pend_order :: u64
  pend_id :: string
  pend_parent_id :: string
  pend_parent :: "nat option"
  pend_component :: string
  pend_name :: string
  pend_start :: i64
  pend_end :: "i64 option"
  pend_status :: "span_status option"
  pend_inputs :: "(string \<times> capture_value) list"
  pend_filled :: "string list"
  pend_observations :: "observation list"
  pend_completion :: "completion option"

record native_state =
  ns_config :: native_config
  ns_sidecar :: "string option"
  ns_run_start :: i64
  ns_scenario_start :: i64
  ns_next_time :: i64
  ns_next_op :: nat
  ns_next_order :: u64
  ns_current :: "nat option"
  ns_operations :: "pending_operation list"
  ns_terminal :: "(capture_error_kind \<times> string) option"

type_synonym 'a action = "native_state \<Rightarrow> (native_error + 'a) \<times> native_state"

definition act_bind :: "'a action \<Rightarrow> ('a \<Rightarrow> 'b action) \<Rightarrow> 'b action" where
  "act_bind m f s = (case m s of (Inl e, s') \<Rightarrow> (Inl e, s') | (Inr x, s') \<Rightarrow> f x s')"

definition act_return :: "'a \<Rightarrow> 'a action" where
  "act_return x s = (Inr x, s)"

definition act_fail :: "native_error \<Rightarrow> 'a action" where
  "act_fail e s = (Inl e, s)"

text \<open>A plain diagnostic becomes a configuration error.\<close>

definition config_error :: "string \<Rightarrow> native_error" where
  "config_error message = CaptureError Configuration message"

definition clock_overflow :: native_error where
  "clock_overflow = config_error ''native capture logical clock overflow''"

definition tick :: "i64 action" where
  "tick s =
     (case i64_checked (sint (ns_next_time s) + sint (cfg_step (ns_config s))) of
        None \<Rightarrow> (Inl clock_overflow, s)
      | Some t \<Rightarrow> (Inr (ns_next_time s), s\<lparr>ns_next_time := t\<rparr>))"

definition take_order :: "u64 action" where
  "take_order s =
     (if ns_next_order s = - 1 then (Inl (config_error ''native capture event order overflow''), s)
      else (Inr (ns_next_order s), s\<lparr>ns_next_order := ns_next_order s + 1\<rparr>))"

section \<open>Configuration\<close>

fun duplicate_operation_id :: "string set \<Rightarrow> nat \<Rightarrow> string list \<Rightarrow> nat option" where
  "duplicate_operation_id seen k [] = None"
| "duplicate_operation_id seen k (x # xs) =
     (if x \<in> seen then Some k else duplicate_operation_id (insert x seen) (Suc k) xs)"

definition validate_config :: "native_config \<Rightarrow> native_error option" where
  "validate_config c =
     (if sint (cfg_start c) < 0 then Some (config_error ''native capture start timestamp must be non-negative'')
      else if sint (cfg_step c) \<le> 0 then Some (config_error ''native capture logical clock step must be positive'')
      else if cfg_scenario c = cfg_run c then Some (config_error ''native capture span IDs must be unique'')
      else case duplicate_operation_id {cfg_run c, cfg_scenario c} 0 (cfg_operation_ids c) of
             None \<Rightarrow> None
           | Some k \<Rightarrow> Some (config_error (''native capture operation span ID at index '' @ nat_dec k @ '' is duplicated'')))"

definition validate_hex_id :: "string \<Rightarrow> string \<Rightarrow> nat \<Rightarrow> native_error option" where
  "validate_hex_id label v n =
     (if length v \<noteq> n \<or> \<not> list_all is_lower_hex v \<or> list_all (\<lambda>c. c = CHR ''0'') v
      then Some (config_error (label @ '' must be a non-zero '' @ nat_dec n @ ''-character lowercase hexadecimal string''))
      else None)"

text \<open>
  \<open>setups\<close> is the error of \<open>validate_registry_folding\<close>, if any, and \<open>active\<close> says that the session slot is
  taken.
\<close>

definition start_state ::
    "native_config \<Rightarrow> string option \<Rightarrow> native_error option \<Rightarrow> bool \<Rightarrow> native_error + native_state" where
  "start_state c sidecar setups active =
     (case validate_config c of Some e \<Rightarrow> Inl e
      | None \<Rightarrow>
      case setups of Some e \<Rightarrow> Inl e
      | None \<Rightarrow>
        if sidecar = Some [] then Inl (config_error ''native capture sidecar path must not be empty'')
        else if active then Inl (config_error ''a native capture session is already active'')
        else case i64_checked (sint (cfg_start c) + sint (cfg_step c)) of
               None \<Rightarrow> Inl clock_overflow
             | Some scenario_start \<Rightarrow>
               (case i64_checked (sint scenario_start + sint (cfg_step c)) of
                  None \<Rightarrow> Inl clock_overflow
                | Some next_time \<Rightarrow>
                    Inr \<lparr>ns_config = c, ns_sidecar = sidecar, ns_run_start = cfg_start c, ns_scenario_start = scenario_start,
                         ns_next_time = next_time, ns_next_op = 0, ns_next_order = 0, ns_current = None,
                         ns_operations = [], ns_terminal = None\<rparr>))"

section \<open>Span identifiers\<close>

definition reserved_span :: "native_state \<Rightarrow> string \<Rightarrow> bool" where
  "reserved_span s x \<longleftrightarrow>
     x = cfg_run (ns_config s) \<or> x = cfg_scenario (ns_config s) \<or> (\<exists>p\<in>set (ns_operations s). pend_id p = x)"

definition span_overflow :: native_error where
  "span_overflow = config_error ''native operation span ID sequence overflow''"

text \<open>The search for a free identifier, with fuel; the outer option is the fuel.\<close>

fun span_search :: "native_state \<Rightarrow> nat \<Rightarrow> int \<Rightarrow> (native_error + string) option" where
  "span_search s 0 candidate = None"
| "span_search s (Suc n) candidate =
     (let x = hex_pad 16 candidate in
      if \<not> reserved_span s x
      then Some (case validate_hex_id ''span ID'' x 16 of Some e \<Rightarrow> Inl e | None \<Rightarrow> Inr x)
      else if candidate + 1 \<ge> 2 ^ 64 then Some (Inl span_overflow)
      else span_search s n (candidate + 1))"

definition next_span :: "native_state \<Rightarrow> (native_error + string) option" where
  "next_span s =
     (if ns_next_op s < length (cfg_operation_ids (ns_config s))
      then Some (Inr (cfg_operation_ids (ns_config s) ! ns_next_op s))
      else if int (ns_next_op s) + 1 \<ge> 2 ^ 64 then Some (Inl span_overflow)
      else span_search s (length (ns_operations s) + 3) (int (ns_next_op s) + 1))"

section \<open>Operations of a session\<close>

definition update_operation :: "nat \<Rightarrow> (pending_operation \<Rightarrow> pending_operation) \<Rightarrow> native_state \<Rightarrow> native_state" where
  "update_operation i f s = s\<lparr>ns_operations := (ns_operations s)[i := f (ns_operations s ! i)]\<rparr>"

definition release_operation :: "nat \<Rightarrow> native_state \<Rightarrow> native_state" where
  "release_operation i s =
     (if ns_current s = Some i then s\<lparr>ns_current := pend_parent (ns_operations s ! i)\<rparr> else s)"

definition new_operation ::
    "string \<Rightarrow> string \<Rightarrow> (string \<times> capture_value) list \<Rightarrow> string list \<Rightarrow> string \<Rightarrow> native_state \<Rightarrow> u64 \<Rightarrow> i64 \<Rightarrow> pending_operation" where
  "new_operation component name given filled span s order start =
     \<lparr>pend_order = order, pend_id = span,
      pend_parent_id = (case ns_current s of None \<Rightarrow> cfg_scenario (ns_config s) | Some i \<Rightarrow> pend_id (ns_operations s ! i)),
      pend_parent = ns_current s, pend_component = component, pend_name = name, pend_start = start, pend_end = None,
      pend_status = None, pend_inputs = given, pend_filled = filled, pend_observations = [], pend_completion = None\<rparr>"

text \<open>The new operation becomes the current one.\<close>

definition push_operation :: "(u64 \<Rightarrow> i64 \<Rightarrow> pending_operation) \<Rightarrow> nat action" where
  "push_operation new = act_bind tick (\<lambda>start. act_bind take_order (\<lambda>order s.
     (Inr (length (ns_operations s)),
      s\<lparr>ns_operations := ns_operations s @ [new order start], ns_next_op := ns_next_op s + 1,
        ns_current := Some (length (ns_operations s))\<rparr>)))"

text \<open>
  \<open>folded\<close> is what \<open>folded_inputs\<close> returns for the operation; \<open>None\<close> is the fuel of the identifier
  search.
\<close>

definition begin_active ::
    "string \<Rightarrow> string \<Rightarrow> native_error + ((string \<times> capture_value) list \<times> string list) \<Rightarrow>
     native_state \<Rightarrow> ((native_error + nat) \<times> native_state) option" where
  "begin_active component name folded s =
     (case ns_terminal s of
        Some (kind, diagnostic) \<Rightarrow> Some (Inl (CaptureError kind diagnostic), s)
      | None \<Rightarrow>
      case folded of
        Inl e \<Rightarrow> Some (Inl e, s)
      | Inr (given, filled) \<Rightarrow>
      case next_span s of
        None \<Rightarrow> None
      | Some (Inl e) \<Rightarrow> Some (Inl e, s)
      | Some (Inr span) \<Rightarrow> Some (push_operation (new_operation component name given filled span s) s))"

fun record_inputs :: "nat \<Rightarrow> (string \<times> capture_value) list \<Rightarrow> unit action" where
  "record_inputs i [] s = (Inr (), s)"
| "record_inputs i ((name, v) # vals) s =
     (let known = map_of (pend_inputs (ns_operations s ! i)) name \<noteq> None;
          s' = update_operation i (\<lambda>p. p\<lparr>pend_inputs := bt_insert name v (pend_inputs p)\<rparr>) s
      in if known then (Inl (NativePanic (''native operation input '' @ ticked name @ '' cannot be recorded twice'')), s')
         else record_inputs i vals s')"

definition record_input :: "nat \<Rightarrow> string \<Rightarrow> native_error + (string \<times> capture_value) list \<Rightarrow> unit action" where
  "record_input i name folded s =
     (if i \<ge> length (ns_operations s) then (Inl (NativePanic ''native operation index must remain valid''), s)
      else if pend_status (ns_operations s ! i) \<noteq> None
      then (Inl (NativePanic ''native operation input cannot be recorded after completion''), s)
      else if name \<in> set (pend_filled (ns_operations s ! i)) then (Inr (), s)
      else case folded of Inl e \<Rightarrow> (Inl e, s) | Inr vals \<Rightarrow> record_inputs i vals s)"

datatype native_terminal = TUnit | TResult capture_value | TEmpty | TError string "capture_value option" | TFault

definition target_fault :: "u64 \<Rightarrow> i64 \<Rightarrow> completion" where
  "target_fault order t =
     CompletedFault order t ''specgate.unexpected_target_fault'' ''operation unwound before returning'' ''target''"

text \<open>A completion event takes its order before its time.\<close>

definition stamped :: "(u64 \<Rightarrow> i64 \<Rightarrow> completion) \<Rightarrow> completion action" where
  "stamped f = act_bind take_order (\<lambda>order. act_bind tick (\<lambda>t. act_return (f order t)))"

definition terminal_completion :: "native_terminal \<Rightarrow> (completion option \<times> span_status) action" where
  "terminal_completion t =
     (case t of
        TUnit \<Rightarrow> act_return (None, Ok)
      | TResult v \<Rightarrow> act_bind (stamped (\<lambda>n time. CompletedResult n time v)) (\<lambda>c. act_return (Some c, Ok))
      | TEmpty \<Rightarrow> act_bind (stamped CompletedEmpty) (\<lambda>c. act_return (Some c, Ok))
      | TError name v \<Rightarrow> act_bind (stamped (\<lambda>n time. CompletedError n time name v)) (\<lambda>c. act_return (Some c, Error))
      | TFault \<Rightarrow> act_bind (stamped target_fault) (\<lambda>c. act_return (Some c, Error)))"

definition close_operation :: "nat \<Rightarrow> completion option \<Rightarrow> i64 \<Rightarrow> span_status \<Rightarrow> native_state \<Rightarrow> native_state" where
  "close_operation i c end_ns status s =
     update_operation i (\<lambda>p. p\<lparr>pend_completion := c, pend_end := Some end_ns, pend_status := Some status\<rparr>) s"

definition complete_operation :: "nat \<Rightarrow> native_terminal \<Rightarrow> unit action" where
  "complete_operation i t s =
     (if i \<ge> length (ns_operations s) then (Inl (NativePanic ''native operation index must remain valid''), s)
      else if pend_status (ns_operations s ! i) \<noteq> None
      then (Inl (NativePanic (''native operation '' @ ticked (pend_name (ns_operations s ! i)) @ '' cannot be completed twice'')), s)
      else act_bind (terminal_completion t) (\<lambda>(c, status). act_bind tick (\<lambda>end_ns s'.
             (Inr (), release_operation i (close_operation i c end_ns status s')))) s)"

text \<open>
  Dropping a scope that was not completed. Both the completion event and the end time are taken, the
  end time also when the event failed; the first error is kept.
\<close>

definition drop_close :: "nat \<Rightarrow> (u64 \<Rightarrow> i64 \<Rightarrow> completion) \<Rightarrow> span_status \<Rightarrow> native_state \<Rightarrow> native_state" where
  "drop_close i f status s =
     (let (c, s1) = stamped f s; (e, s2) = tick s1 in
      case (c, e) of
        (Inr completion, Inr end_ns) \<Rightarrow> close_operation i (Some completion) end_ns status s2
      | (Inl (CaptureError kind diagnostic), _) \<Rightarrow> s2\<lparr>ns_terminal := Some (kind, diagnostic)\<rparr>
      | (_, Inl (CaptureError kind diagnostic)) \<Rightarrow> s2\<lparr>ns_terminal := Some (kind, diagnostic)\<rparr>
      | _ \<Rightarrow> s2)"

definition drop_operation :: "nat \<Rightarrow> bool \<Rightarrow> bool \<Rightarrow> native_state \<Rightarrow> native_state" where
  "drop_operation i abandonable panicking s =
     (if i < length (ns_operations s) \<and> pend_status (ns_operations s ! i) \<noteq> None then s
      else release_operation i
        (if panicking then drop_close i target_fault Error s
         else if abandonable then drop_close i CompletedAbandoned Unset s
         else s\<lparr>ns_terminal := Some (Configuration,
                ''native operation '' @ ticked (pend_name (ns_operations s ! i)) @ '' scope closed without completion'')\<rparr>))"

definition observe :: "string \<Rightarrow> capture_value \<Rightarrow> unit action" where
  "observe name v s =
     (case ns_current s of
        None \<Rightarrow> (Inr (), s)
      | Some i \<Rightarrow>
          if name = ''$result'' \<or> name = ''$fault'' then (Inr (), s)
          else act_bind take_order (\<lambda>order. act_bind tick (\<lambda>t s'.
                 (Inr (), update_operation i (\<lambda>p. p\<lparr>pend_observations := pend_observations p @
                   [\<lparr>obs_order = order, obs_time = t, obs_name = name, obs_value = v\<rparr>]\<rparr>) s'))) s)"

section \<open>Finishing\<close>

definition outstanding :: "native_state \<Rightarrow> nat list" where
  "outstanding s = filter (\<lambda>i. pend_status (ns_operations s ! i) = None) [0..<length (ns_operations s)]"

definition close_one :: "nat \<Rightarrow> unit action" where
  "close_one i s =
     act_bind (stamped (\<lambda>order t. CompletedFault order t ''incomplete_capture''
         (''native operation '' @ ticked (pend_name (ns_operations s ! i)) @ '' was still outstanding when the capture ended'') ''target''))
       (\<lambda>c. act_bind tick (\<lambda>end_ns s'. (Inr (), release_operation i (close_operation i (Some c) end_ns Error s')))) s"

fun close_all :: "nat list \<Rightarrow> unit action" where
  "close_all [] s = (Inr (), s)"
| "close_all (i # is) s = act_bind (close_one i) (\<lambda>_. close_all is) s"

definition close_outstanding :: "unit action" where
  "close_outstanding s = close_all (rev (outstanding s)) s"

definition finished_operation :: "pending_operation \<Rightarrow> native_error + operation" where
  "finished_operation p =
     (case (pend_end p, pend_status p) of
        (None, _) \<Rightarrow> Inl (NativePanic ''completed capture operation must have an end timestamp'')
      | (_, None) \<Rightarrow> Inl (NativePanic ''completed capture operation must have terminal status'')
      | (Some end_ns, Some status) \<Rightarrow>
          Inr \<lparr>operation_order = pend_order p, operation_id = pend_id p, operation_parent = pend_parent_id p,
               component_id = pend_component p, operation_name = pend_name p, operation_start = pend_start p,
               operation_end = end_ns, operation_status = status, inputs = pend_inputs p,
               observations = pend_observations p, completed = pend_completion p\<rparr>)"

definition snapshot :: "native_state \<Rightarrow> native_error + capture" where
  "snapshot s =
     (case ns_terminal s of
        Some (kind, diagnostic) \<Rightarrow> Inl (CaptureError kind diagnostic)
      | None \<Rightarrow>
      case i64_checked (sint (ns_next_time s) + sint (cfg_step (ns_config s))) of
        None \<Rightarrow> Inl clock_overflow
      | Some run_end \<Rightarrow>
          let status = (if \<exists>p\<in>set (ns_operations s). pend_status p = Some Error then Error else Ok) in
          and_then (map_result finished_operation (ns_operations s)) (\<lambda>ops.
            Inr \<lparr>capture_trace = cfg_trace (ns_config s), scenario_name = cfg_name (ns_config s),
                 run_boundary = \<lparr>boundary_id = cfg_run (ns_config s), boundary_parent = None,
                   boundary_start = ns_run_start s, boundary_end = run_end, boundary_status = status\<rparr>,
                 scenario = \<lparr>boundary_id = cfg_scenario (ns_config s), boundary_parent = Some (cfg_run (ns_config s)),
                   boundary_start = ns_scenario_start s, boundary_end = ns_next_time s, boundary_status = status\<rparr>,
                 operations = ops\<rparr>))"

type_synonym persistence = "string \<Rightarrow> capture \<Rightarrow> string option" \<comment> \<open>the error of a failed write\<close>

definition persistence_error :: "string \<Rightarrow> string" where
  "persistence_error e = ''__SPECGATE_NATIVE_CAPTURE_PERSISTENCE_FAILURE__ '' @ e"

definition persist_state :: "persistence \<Rightarrow> native_state \<Rightarrow> native_error + unit" where
  "persist_state write s =
     (case ns_sidecar s of
        None \<Rightarrow> Inl (NativePanic ''persistence requires a sidecar path'')
      | Some path \<Rightarrow>
          and_then (snapshot s) (\<lambda>c.
            case write path c of None \<Rightarrow> Inr () | Some e \<Rightarrow> Inl (CaptureError Persistence (persistence_error e))))"

text \<open>A provisional snapshot closes the outstanding operations of a copy of the state.\<close>

definition persist_provisional :: "persistence \<Rightarrow> unit action" where
  "persist_provisional write s =
     (case ns_sidecar s of
        None \<Rightarrow> (Inl (config_error ''native capture has no sidecar path''), s)
      | Some path \<Rightarrow>
          (case close_outstanding s of
             (Inl e, _) \<Rightarrow> (Inl e, s)
           | (Inr _, provisional) \<Rightarrow>
               (case snapshot provisional of
                  Inl e \<Rightarrow> (Inl e, s)
                | Inr c \<Rightarrow>
                    (case write path c of
                       None \<Rightarrow> (Inr (), s)
                     | Some e \<Rightarrow> (Inl (CaptureError Persistence (persistence_error e)),
                                  s\<lparr>ns_terminal := Some (Persistence, persistence_error e)\<rparr>)))))"

definition finish_state :: "persistence \<Rightarrow> native_state \<Rightarrow> native_error + capture" where
  "finish_state write s =
     (if outstanding s \<noteq> [] then
        (case close_outstanding s of
           (Inl e, _) \<Rightarrow> Inl e
         | (Inr _, s') \<Rightarrow>
             and_then (if ns_sidecar s' \<noteq> None then persist_state write s' else Inr ()) (\<lambda>_.
               Inl (config_error (''native capture has nested/unclosed operation scopes: '' @
                 join '' -> '' (map (\<lambda>i. pend_name (ns_operations s ! i)) (outstanding s))))))
      else case ns_terminal s of
             Some (kind, diagnostic) \<Rightarrow> Inl (CaptureError kind diagnostic)
           | None \<Rightarrow>
               if ns_next_op s < length (cfg_operation_ids (ns_config s))
               then Inl (config_error (''native capture supplied '' @ nat_dec (length (cfg_operation_ids (ns_config s))) @
                      '' operation span IDs but consumed '' @ nat_dec (ns_next_op s)))
               else and_then (snapshot s) (\<lambda>c.
                    and_then (if ns_sidecar s \<noteq> None then persist_state write s else Inr ()) (\<lambda>_. Inr c)))"

end
