(* ===== verification/Ctsc_Recorded.thy ===== *)
theory Ctsc_Recorded
  imports Ctsc_Native Ctsc_Encoder
begin

text \<open>
  The invariant of a native capture session and its preservation by every action: the logical clock
  and the event order advance together, identifiers stay distinct, parents precede their children,
  and an operation has an end, a status and a matching completion together.
\<close>

section \<open>Stamps\<close>

type_synonym stamp = "u64 \<times> i64"

definition completion_order :: "completion \<Rightarrow> u64" where
  "completion_order c = fst (completion_parts c)"

definition completion_stamps :: "completion option \<Rightarrow> stamp list" where
  "completion_stamps c = (case c of None \<Rightarrow> [] | Some x \<Rightarrow> [(completion_order x, completion_time x)])"

definition pending_stamps :: "pending_operation \<Rightarrow> stamp list" where
  "pending_stamps p =
     (pend_order p, pend_start p) # map (\<lambda>obs. (obs_order obs, obs_time obs)) (pend_observations p) @
     completion_stamps (pend_completion p)"

definition stamps :: "pending_operation list \<Rightarrow> stamp list" where
  "stamps ps = concat (map pending_stamps ps)"

text \<open>Distinct orders, and the time grows with the order.\<close>

definition chronological :: "stamp list \<Rightarrow> bool" where
  "chronological xs \<longleftrightarrow>
     distinct (map fst xs) \<and> (\<forall>a\<in>set xs. \<forall>b\<in>set xs. fst a < fst b \<longleftrightarrow> sint (snd a) < sint (snd b))"

definition stamped_before :: "u64 \<Rightarrow> i64 \<Rightarrow> stamp list \<Rightarrow> bool" where
  "stamped_before n t xs \<longleftrightarrow> (\<forall>a\<in>set xs. fst a < n \<and> sint (snd a) < sint t)"

lemma chronological_insert:
  assumes "chronological xs" "stamped_before n t xs" "mset ys = add_mset (n, t) (mset xs)"
  shows "chronological ys"
proof -
  have "mset (map fst ys) = mset (n # map fst xs)"
    using assms(3) by (simp add: mset_map [symmetric] del: mset_map) (metis image_mset_add_mset fst_conv mset_map)
  then have "distinct (map fst ys) \<longleftrightarrow> distinct (n # map fst xs)" by (rule mset_eq_imp_distinct_iff)
  moreover have "set ys = insert (n, t) (set xs)"
    using assms(3) by (metis set_mset_add_mset_insert set_mset_mset)
  ultimately show ?thesis
    using assms(1,2) unfolding chronological_def stamped_before_def by fastforce
qed

lemma chronological_mset: "mset ys = mset xs \<Longrightarrow> chronological xs \<Longrightarrow> chronological ys"
proof -
  assume eq: "mset ys = mset xs" and xs: "chronological xs"
  have "mset (map fst ys) = mset (map fst xs)" using eq by (simp add: mset_map)
  then show ?thesis
    using xs mset_eq_imp_distinct_iff [of "map fst ys" "map fst xs"] mset_eq_setD [OF eq]
    by (simp add: chronological_def)
qed

lemma stamps_Cons: "stamps (p # ps) = pending_stamps p @ stamps ps"
  by (simp add: stamps_def)

lemma stamps_update:
  assumes "i < length ps"
  shows "mset (stamps (ps[i := p])) + mset (pending_stamps (ps ! i)) = mset (stamps ps) + mset (pending_stamps p)"
  using assms
proof (induction ps arbitrary: i)
  case (Cons q ps)
  then show ?case by (cases i) (auto simp: stamps_Cons)
qed simp

section \<open>Single operations\<close>

fun completion_status :: "completion option \<Rightarrow> span_status" where
  "completion_status (Some (CompletedError _ _ _ _)) = Error"
| "completion_status (Some (CompletedFault _ _ _ _ _)) = Error"
| "completion_status (Some (CompletedAbandoned _ _)) = Unset"
| "completion_status _ = Ok"

definition closed_properly :: "i64 \<Rightarrow> i64 \<Rightarrow> span_status \<Rightarrow> completion option \<Rightarrow> bool" where
  "closed_properly start end_ns status c \<longleftrightarrow>
     sint start < sint end_ns \<and> status = completion_status c \<and>
     (\<forall>x. c = Some x \<longrightarrow> completion_ok x \<and> sint start < sint (completion_time x) \<and> sint (completion_time x) < sint end_ns)"

definition pending_wf :: "i64 \<Rightarrow> i64 \<Rightarrow> pending_operation \<Rightarrow> bool" where
  "pending_wf from now p \<longleftrightarrow>
     sint from < sint (pend_start p) \<and> sint (pend_start p) < sint now \<and> value_ok (VMap (pend_inputs p)) \<and>
     (\<forall>obs\<in>set (pend_observations p). sint (pend_start p) < sint (obs_time obs) \<and> value_ok (obs_value obs)) \<and>
     (case (pend_end p, pend_status p) of
        (None, None) \<Rightarrow> pend_completion p = None
      | (Some e, Some status) \<Rightarrow> sint e < sint now \<and> closed_properly (pend_start p) e status (pend_completion p)
      | _ \<Rightarrow> False)"

lemma pending_wf_later: "pending_wf from now p \<Longrightarrow> sint now \<le> sint later \<Longrightarrow> pending_wf from later p"
  by (auto simp: pending_wf_def split: option.splits)

lemma pending_wf_open: "pending_wf from now p \<Longrightarrow> pend_status p = None \<Longrightarrow> pend_end p = None \<and> pend_completion p = None"
  by (auto simp: pending_wf_def split: option.splits)

lemma pending_wf_input:
  "pending_wf from now p \<Longrightarrow> value_ok (VMap kvs) \<Longrightarrow> pending_wf from now (p\<lparr>pend_inputs := kvs\<rparr>)"
  by (auto simp: pending_wf_def split: option.splits)

lemma pending_wf_observation:
  "pending_wf from now p \<Longrightarrow> value_ok (obs_value obs) \<Longrightarrow> sint (pend_start p) < sint (obs_time obs) \<Longrightarrow>
   pending_wf from now (p\<lparr>pend_observations := pend_observations p @ [obs]\<rparr>)"
  by (auto simp: pending_wf_def split: option.splits)

section \<open>The session invariant\<close>

definition config_wf :: "native_config \<Rightarrow> bool" where
  "config_wf c \<longleftrightarrow> 0 \<le> sint (cfg_start c) \<and> 0 < sint (cfg_step c) \<and> distinct (cfg_run c # cfg_scenario c # cfg_operation_ids c)"

definition parent_wf :: "string \<Rightarrow> pending_operation list \<Rightarrow> nat \<Rightarrow> bool" where
  "parent_wf root ps i \<longleftrightarrow>
     (case pend_parent (ps ! i) of
        None \<Rightarrow> pend_parent_id (ps ! i) = root
      | Some j \<Rightarrow> j < i \<and> pend_parent_id (ps ! i) = pend_id (ps ! j))"

definition valid_operation :: "native_state \<Rightarrow> nat option \<Rightarrow> bool" where
  "valid_operation s r \<longleftrightarrow> (\<forall>i. r = Some i \<longrightarrow> i < length (ns_operations s))"

definition clock_inv :: "native_state \<Rightarrow> bool" where
  "clock_inv s \<longleftrightarrow>
     sint (cfg_start (ns_config s)) = sint (ns_run_start s) \<and> sint (ns_run_start s) < sint (ns_scenario_start s) \<and>
     sint (ns_scenario_start s) < sint (ns_next_time s) \<and>
     chronological (stamps (ns_operations s)) \<and> stamped_before (ns_next_order s) (ns_next_time s) (stamps (ns_operations s)) \<and>
     (\<forall>p\<in>set (ns_operations s). pending_wf (ns_scenario_start s) (ns_next_time s) p)"

definition id_inv :: "native_state \<Rightarrow> bool" where
  "id_inv s \<longleftrightarrow>
     config_wf (ns_config s) \<and> ns_next_op s = length (ns_operations s) \<and>
     distinct (cfg_run (ns_config s) # cfg_scenario (ns_config s) # map pend_id (ns_operations s)) \<and>
     (\<forall>i<length (ns_operations s). i < length (cfg_operation_ids (ns_config s)) \<longrightarrow>
        pend_id (ns_operations s ! i) = cfg_operation_ids (ns_config s) ! i) \<and>
     (\<forall>i<length (ns_operations s). parent_wf (cfg_scenario (ns_config s)) (ns_operations s) i) \<and>
     valid_operation s (ns_current s)"

definition native_inv :: "native_state \<Rightarrow> bool" where
  "native_inv s \<longleftrightarrow> clock_inv s \<and> id_inv s"

lemma clock_inv_chronological: "clock_inv s \<Longrightarrow> chronological (stamps (ns_operations s))"
  by (simp add: clock_inv_def)

lemma clock_inv_before: "clock_inv s \<Longrightarrow> stamped_before (ns_next_order s) (ns_next_time s) (stamps (ns_operations s))"
  by (simp add: clock_inv_def)

text \<open>What an action may change: the invariant is kept, operations are only added, and only those of \<open>I\<close> are closed.\<close>

definition keeps :: "nat set \<Rightarrow> native_state \<Rightarrow> native_state \<Rightarrow> bool" where
  "keeps I s s' \<longleftrightarrow>
     native_inv s' \<and> length (ns_operations s) \<le> length (ns_operations s') \<and>
     (\<forall>i<length (ns_operations s). i \<notin> I \<longrightarrow> pend_status (ns_operations s' ! i) = pend_status (ns_operations s ! i))"

lemma keeps_refl: "native_inv s \<Longrightarrow> keeps I s s"
  by (simp add: keeps_def)

lemma keeps_trans: "keeps I s s' \<Longrightarrow> keeps I s' s'' \<Longrightarrow> keeps I s s''"
  unfolding keeps_def by auto

lemma keeps_inv: "keeps I s s' \<Longrightarrow> native_inv s'"
  by (simp add: keeps_def)

lemma keeps_mono: "keeps I s s' \<Longrightarrow> I \<subseteq> J \<Longrightarrow> keeps J s s'"
  unfolding keeps_def by auto

text \<open>Every action is invisible to the handles it does not close.\<close>

locale session_action =
  fixes act :: "'a action" and ok :: bool and closes :: "nat set"
  assumes act_keeps: "ok \<Longrightarrow> native_inv s \<Longrightarrow> keeps closes s (snd (act s))"
begin

lemma valid_operation_kept: "ok \<Longrightarrow> native_inv s \<Longrightarrow> valid_operation s r \<Longrightarrow> valid_operation (snd (act s)) r"
  using act_keeps unfolding keeps_def valid_operation_def by fastforce

end

section \<open>Elementary changes\<close>

text \<open>Time and order may run ahead of the events that were recorded.\<close>

definition advanced :: "native_state \<Rightarrow> native_state \<Rightarrow> bool" where
  "advanced s s' \<longleftrightarrow>
     (\<exists>n t. s' = s\<lparr>ns_next_order := n, ns_next_time := t\<rparr> \<and> ns_next_order s \<le> n \<and> sint (ns_next_time s) \<le> sint t)"

lemma advanced_keeps:
  assumes "native_inv s" "advanced s s'"
  shows "keeps I s s'"
proof -
  obtain n t where s': "s' = s\<lparr>ns_next_order := n, ns_next_time := t\<rparr>" "ns_next_order s \<le> n" "sint (ns_next_time s) \<le> sint t"
    using assms(2) by (auto simp: advanced_def)
  have "stamped_before n t xs" if "stamped_before (ns_next_order s) (ns_next_time s) xs" for xs
    using that s'(2,3) by (fastforce simp: stamped_before_def)
  then show ?thesis
    using assms(1) s' pending_wf_later
    by (auto simp: keeps_def native_inv_def clock_inv_def id_inv_def valid_operation_def)
qed

lemma advanced_refl: "advanced s s"
  unfolding advanced_def by (rule exI [of _ "ns_next_order s"], rule exI [of _ "ns_next_time s"]) simp

lemma advanced_trans: "advanced s s' \<Longrightarrow> advanced s' s'' \<Longrightarrow> advanced s s''"
  unfolding advanced_def by force

lemma terminal_keeps: "native_inv s \<Longrightarrow> keeps I s (s\<lparr>ns_terminal := e\<rparr>)"
  by (simp add: keeps_def native_inv_def clock_inv_def id_inv_def valid_operation_def)

lemma current_keeps: "native_inv s \<Longrightarrow> valid_operation s r \<Longrightarrow> keeps I s (s\<lparr>ns_current := r\<rparr>)"
  by (simp add: keeps_def native_inv_def clock_inv_def id_inv_def valid_operation_def)

lemma release_keeps: "native_inv s \<Longrightarrow> i < length (ns_operations s) \<Longrightarrow> keeps I s (release_operation i s)"
proof -
  assume s: "native_inv s" "i < length (ns_operations s)"
  then have "valid_operation s (pend_parent (ns_operations s ! i))"
    by (fastforce simp: native_inv_def id_inv_def parent_wf_def valid_operation_def split: option.splits)
  with s show ?thesis by (simp add: release_operation_def keeps_refl current_keeps)
qed

text \<open>
  One operation is replaced by one with the same identity. \<open>gained\<close> are the stamps it gains: none, or the
  one that was next when the action began.
\<close>

lemma replace_keeps:
  assumes s: "native_inv s" and adv: "advanced s s'"
    and i: "i < length (ns_operations s)" "i \<in> I \<or> pend_status p = pend_status (ns_operations s ! i)"
    and same: "pend_id p = pend_id (ns_operations s ! i)" "pend_parent p = pend_parent (ns_operations s ! i)"
      "pend_parent_id p = pend_parent_id (ns_operations s ! i)"
    and gain: "mset (pending_stamps p) = mset (pending_stamps (ns_operations s ! i)) + mset gained"
    and gained: "gained = [] \<or> gained = [(ns_next_order s, ns_next_time s)] \<and> ns_next_order s < ns_next_order s' \<and>
      sint (ns_next_time s) < sint (ns_next_time s')"
    and wf: "pending_wf (ns_scenario_start s) (ns_next_time s') p"
  shows "keeps I s (s'\<lparr>ns_operations := (ns_operations s)[i := p]\<rparr>)"
proof -
  let ?ps = "ns_operations s"
  obtain n t where s': "s' = s\<lparr>ns_next_order := n, ns_next_time := t\<rparr>" "ns_next_order s \<le> n" "sint (ns_next_time s) \<le> sint t"
    using adv by (auto simp: advanced_def)
  have inv: "clock_inv s" "id_inv s" using s by (auto simp: native_inv_def)
  have mset: "mset (stamps (?ps[i := p])) = mset (stamps ?ps) + mset gained"
    using stamps_update [OF i(1), of p] gain by (simp add: ac_simps)
  have chron: "chronological (stamps (?ps[i := p]))"
  proof (cases "gained = []")
    case True
    then show ?thesis using chronological_mset [OF _ clock_inv_chronological [OF inv(1)]] mset by simp
  next
    case False
    then show ?thesis
      using chronological_insert [OF clock_inv_chronological [OF inv(1)]] clock_inv_before [OF inv(1)] gained mset by simp
  qed
  have "set (stamps (?ps[i := p])) = set (stamps ?ps) \<union> set gained"
    using mset by (metis set_mset_mset set_mset_union)
  then have before: "stamped_before n t (stamps (?ps[i := p]))"
    using gained s' inv(1) by (fastforce simp: clock_inv_def stamped_before_def)
  have each: "pending_wf (ns_scenario_start s) t q" if "q \<in> set (?ps[i := p])" for q
    using that wf inv(1) pending_wf_later [of _ "ns_next_time s" q t] s' set_update_subset_insert [of ?ps i p]
    by (auto simp: clock_inv_def)
  have ids: "map pend_id (?ps[i := p]) = map pend_id ?ps"
    using same(1) i(1) by (metis list_update_id map_update)
  have parents: "parent_wf root (?ps[i := p]) j \<longleftrightarrow> parent_wf root ?ps j" if "j < length ?ps" for root j
    using that same i(1) by (auto simp: parent_wf_def nth_list_update split: option.splits)
  have names: "pend_id (?ps[i := p] ! j) = pend_id (?ps ! j)" if "j < length ?ps" for j
    using that same(1) i(1) by (auto simp: nth_list_update)
  show ?thesis
    using chron before each ids parents names inv s' i
    by (auto simp: keeps_def native_inv_def clock_inv_def id_inv_def valid_operation_def nth_list_update simp del: map_update)
qed

section \<open>Clock actions\<close>

lemma native_step: "native_inv s \<Longrightarrow> 0 < sint (cfg_step (ns_config s))"
  by (simp add: native_inv_def id_inv_def config_wf_def)

lemma tick_cases:
  assumes "native_inv s"
  obtains "tick s = (Inl clock_overflow, s)"
  | t where "tick s = (Inr (ns_next_time s), s\<lparr>ns_next_time := t\<rparr>)" "sint (ns_next_time s) < sint t"
proof (cases "i64_checked (sint (ns_next_time s) + sint (cfg_step (ns_config s)))")
  case None
  then show ?thesis using that(1) by (simp add: tick_def)
next
  case (Some t)
  then have "sint (ns_next_time s) < sint t" using i64_checked_Some native_step [OF assms] by fastforce
  then show ?thesis using that(2) Some by (simp add: tick_def)
qed

lemma u64_less_Suc: "n \<noteq> - 1 \<Longrightarrow> n < n + (1 :: u64)"
proof -
  assume "n \<noteq> - 1"
  then have "n + 1 \<noteq> 0" by (metis add_eq_0_iff2)
  moreover have "unat n < 2 ^ LENGTH(64)" by (rule unsigned_less)
  ultimately show ?thesis
    by (auto simp: word_less_nat_alt unat_word_ariths unat_eq_0 [symmetric] mod_Suc)
qed

lemma take_order_cases:
  obtains e where "take_order s = (Inl e, s)"
  | "take_order s = (Inr (ns_next_order s), s\<lparr>ns_next_order := ns_next_order s + 1\<rparr>)" "ns_next_order s < ns_next_order s + 1"
  by (cases "ns_next_order s = - 1") (auto simp: take_order_def u64_less_Suc)


text \<open>What a stamped event leaves: a fresh stamp, or an error and a clock that may have advanced.\<close>

lemma stamped_cases:
  assumes "native_inv s"
  obtains kind diagnostic s' where "stamped f s = (Inl (CaptureError kind diagnostic), s')" "advanced s s'"
  | t where "stamped f s = (Inr (f (ns_next_order s) (ns_next_time s)),
        s\<lparr>ns_next_order := ns_next_order s + 1, ns_next_time := t\<rparr>)"
      "ns_next_order s < ns_next_order s + 1" "sint (ns_next_time s) < sint t"
proof (cases "ns_next_order s = - 1")
  case True
  then show ?thesis
    using that(1) advanced_refl [of s] by (simp add: stamped_def act_bind_def take_order_def config_error_def)
next
  case False
  let ?s = "s\<lparr>ns_next_order := ns_next_order s + 1\<rparr>"
  have order: "take_order s = (Inr (ns_next_order s), ?s)" "ns_next_order s < ns_next_order s + 1"
    using False by (simp_all add: take_order_def u64_less_Suc)
  have adv: "advanced s ?s"
    unfolding advanced_def using order(2) by (intro exI [of _ "ns_next_order s + 1"] exI [of _ "ns_next_time s"]) simp
  have inv: "native_inv ?s" using advanced_keeps [OF assms adv] keeps_inv by blast
  from inv show ?thesis
  proof (cases rule: tick_cases)
    case 1
    then show ?thesis
      using that(1) adv order by (simp add: stamped_def act_bind_def clock_overflow_def config_error_def)
  next
    case (2 t)
    then show ?thesis using that(2) [of t] order by (simp add: stamped_def act_bind_def act_return_def)
  qed
qed

lemma tick_advanced: "native_inv s \<Longrightarrow> advanced s (snd (tick s))"
proof -
  assume "native_inv s"
  then show ?thesis
  proof (cases rule: tick_cases)
    case 1
    then show ?thesis by (simp add: advanced_refl)
  next
    case (2 t)
    then show ?thesis
      unfolding advanced_def by (intro exI [of _ "ns_next_order s"] exI [of _ t]) simp
  qed
qed

lemma tick_no_panic: "native_inv s \<Longrightarrow> fst (tick s) \<noteq> Inl (NativePanic m)"
  by (auto simp: tick_def clock_overflow_def config_error_def split: option.splits)

section \<open>Closing an operation\<close>

text \<open>
  The event of a completion and the end of the operation take the next order and two times; \<open>close\<close>
  replaces the operation. A completion without event takes the end time only.
\<close>

lemma close_keeps:
  assumes s: "native_inv s" and i: "i < length (ns_operations s)" "pend_status (ns_operations s ! i) = None"
    and adv: "advanced s s'" "sint (ns_next_time s) \<le> sint e" "sint e < sint (ns_next_time s')"
    and c: "c = None \<or> (\<exists>x. c = Some x \<and> completion_order x = ns_next_order s \<and> completion_time x = ns_next_time s \<and>
      completion_ok x \<and> ns_next_order s < ns_next_order s' \<and> sint (ns_next_time s) < sint e)"
  shows "keeps {i} s (close_operation i c e (completion_status c) s')"
proof -
  let ?p = "ns_operations s ! i"
  let ?q = "?p\<lparr>pend_completion := c, pend_end := Some e, pend_status := Some (completion_status c)\<rparr>"
  have p: "pending_wf (ns_scenario_start s) (ns_next_time s) ?p"
    using s i(1) by (simp add: native_inv_def clock_inv_def)
  note open_op = pending_wf_open [OF p i(2)]
  have start: "sint (pend_start ?p) < sint (ns_next_time s)" using p by (simp add: pending_wf_def)
  have "closed_properly (pend_start ?p) e (completion_status c) c"
    unfolding closed_properly_def using c start adv(2) by auto
  then have wf: "pending_wf (ns_scenario_start s) (ns_next_time s') ?q"
    using p adv(2,3) start by (auto simp: pending_wf_def)
  have ops: "ns_operations s' = ns_operations s" using adv(1) by (auto simp: advanced_def)
  have "keeps {i} s (s'\<lparr>ns_operations := (ns_operations s)[i := ?q]\<rparr>)"
    using c open_op adv wf
    by (intro replace_keeps [OF s adv(1) i(1), where gained = "completion_stamps c"])
       (auto simp: pending_stamps_def completion_stamps_def)
  then show ?thesis by (simp add: close_operation_def update_operation_def ops)
qed

end
