(* ===== verification/Ctsc_Actions.thy ===== *)
theory Ctsc_Actions
  imports Ctsc_Recorded
begin

text \<open>
  Every action of a session keeps the session invariant: recording inputs and observations, beginning,
  completing, dropping and closing operations, and writing provisional snapshots. Each is an instance
  of \<open>session_action\<close>.
\<close>

lemma native_pending:
  "native_inv s \<Longrightarrow> i < length (ns_operations s) \<Longrightarrow> pending_wf (ns_scenario_start s) (ns_next_time s) (ns_operations s ! i)"
  by (simp add: native_inv_def clock_inv_def)

section \<open>Inputs and observations\<close>

lemma set_bt_insert_subset: "set (bt_insert k v m) \<subseteq> insert (k, v) (set m)"
  by (induction m) (auto split: prod.splits if_splits)

lemma value_ok_insert: "value_ok (VMap kvs) \<Longrightarrow> value_ok v \<Longrightarrow> value_ok (VMap (bt_insert k v kvs))"
  using set_bt_insert_subset [of k v kvs] by (auto simp: bt_wf_insert)

lemma set_input_keeps:
  assumes "native_inv s" "i < length (ns_operations s)" "value_ok v"
  shows "keeps {} s (update_operation i (\<lambda>p. p\<lparr>pend_inputs := bt_insert name v (pend_inputs p)\<rparr>) s)"
proof -
  note p = native_pending [OF assms(1,2)]
  then have "value_ok (VMap (bt_insert name v (pend_inputs (ns_operations s ! i))))"
    using assms(3) by (intro value_ok_insert) (simp_all add: pending_wf_def)
  note pending_wf_input [OF p this]
  then show ?thesis
    unfolding update_operation_def
    by (intro replace_keeps [OF assms(1) advanced_refl assms(2), where gained = "[]"])
       (simp_all add: pending_stamps_def)
qed

lemma record_inputs_keeps:
  "native_inv s \<Longrightarrow> i < length (ns_operations s) \<Longrightarrow> \<forall>kv\<in>set vals. value_ok (snd kv) \<Longrightarrow>
   keeps {} s (snd (record_inputs i vals s))"
proof (induction vals arbitrary: s)
  case (Cons kv vals)
  obtain name v where kv: "kv = (name, v)" by fastforce
  let ?s = "update_operation i (\<lambda>p. p\<lparr>pend_inputs := bt_insert name v (pend_inputs p)\<rparr>) s"
  have step: "keeps {} s ?s" using set_input_keeps Cons.prems kv by simp
  then have "keeps {} ?s (snd (record_inputs i vals ?s))"
    using Cons keeps_inv by (fastforce simp: update_operation_def)
  with step show ?case using keeps_trans by (auto simp: kv Let_def)
qed (simp add: keeps_refl)

lemma record_input_keeps:
  assumes "\<forall>vals. folded = Inr vals \<longrightarrow> (\<forall>kv\<in>set vals. value_ok (snd kv))" "native_inv s"
  shows "keeps {} s (snd (record_input i name folded s))"
  using assms record_inputs_keeps by (auto simp: record_input_def keeps_refl split: sum.splits)

interpretation input_action: session_action
  "record_input i name folded" "\<forall>vals. folded = Inr vals \<longrightarrow> (\<forall>kv\<in>set vals. value_ok (snd kv))" "{}"
  by unfold_locales (rule record_input_keeps)

lemma observe_keeps:
  assumes v: "value_ok v" and s: "native_inv s"
  shows "keeps {} s (snd (observe name v s))"
proof (cases "ns_current s = None \<or> name = ''$result'' \<or> name = ''$fault''")
  case True
  then show ?thesis using s by (auto simp: observe_def keeps_refl split: option.splits)
next
  case False
  then obtain i where i: "ns_current s = Some i" by auto
  then have len: "i < length (ns_operations s)" using s by (simp add: native_inv_def id_inv_def valid_operation_def)
  let ?p = "ns_operations s ! i"
  let ?obs = "\<lambda>order t. \<lparr>obs_order = order, obs_time = t, obs_name = name, obs_value = v\<rparr>"
  have eq: "observe name v s =
      act_bind take_order (\<lambda>order. act_bind tick (\<lambda>t s'.
        (Inr (), update_operation i (\<lambda>p. p\<lparr>pend_observations := pend_observations p @ [?obs order t]\<rparr>) s'))) s"
    using False i by (simp add: observe_def)
  from s show ?thesis
  proof (cases rule: stamped_cases [where f = "\<lambda>n t. CompletedEmpty n t"])
    case (1 kind diagnostic s')
    then have "snd (observe name v s) = s'"
      unfolding eq by (auto simp: stamped_def act_bind_def act_return_def split: sum.splits prod.splits)
    then show ?thesis using advanced_keeps [OF s 1(2)] by simp
  next
    case (2 t)
    let ?s = "s\<lparr>ns_next_order := ns_next_order s + 1, ns_next_time := t\<rparr>"
    let ?q = "?p\<lparr>pend_observations := pend_observations ?p @ [?obs (ns_next_order s) (ns_next_time s)]\<rparr>"
    have upd: "snd (observe name v s) = ?s\<lparr>ns_operations := (ns_operations s)[i := ?q]\<rparr>"
      using 2(1) unfolding eq
      by (auto simp: stamped_def act_bind_def act_return_def update_operation_def split: sum.splits prod.splits)
    have adv: "advanced s ?s"
      unfolding advanced_def using 2(2,3) by (intro exI [of _ "ns_next_order s + 1"] exI [of _ t]) simp
    have "pending_wf (ns_scenario_start s) t ?q"
      using pending_wf_later [OF native_pending [OF s len], of t] native_pending [OF s len] 2(3) v
      by (intro pending_wf_observation) (simp_all add: pending_wf_def)
    then show ?thesis
      unfolding upd using 2
      by (intro replace_keeps [OF s adv len, where gained = "[(ns_next_order s, ns_next_time s)]"])
         (auto simp: pending_stamps_def)
  qed
qed

interpretation observation_action: session_action "observe name v" "value_ok v" "{}"
  by unfold_locales (rule observe_keeps)

section \<open>Completions\<close>

definition no_native_panic :: "native_error + 'a \<Rightarrow> bool" where
  "no_native_panic r \<longleftrightarrow> (\<forall>m. r \<noteq> Inl (NativePanic m))"

definition is_stamp :: "(u64 \<Rightarrow> i64 \<Rightarrow> completion) \<Rightarrow> bool" where
  "is_stamp f \<longleftrightarrow> (\<forall>n t. completion_order (f n t) = n \<and> completion_time (f n t) = t \<and> completion_ok (f n t))"

definition open_operation :: "nat \<Rightarrow> native_state \<Rightarrow> bool" where
  "open_operation i s \<longleftrightarrow> i < length (ns_operations s) \<and> pend_status (ns_operations s ! i) = None"

text \<open>The common end of completions: take the end time, close, restore the parent.\<close>

definition end_operation :: "nat \<Rightarrow> completion option \<Rightarrow> span_status \<Rightarrow> unit action" where
  "end_operation i c status = act_bind tick (\<lambda>end_ns s'. (Inr (), release_operation i (close_operation i c end_ns status s')))"

definition closes_one :: "nat \<Rightarrow> native_state \<Rightarrow> (native_error + unit) \<times> native_state \<Rightarrow> bool" where
  "closes_one i s res \<longleftrightarrow>
     keeps {i} s (snd res) \<and> no_native_panic (fst res) \<and> ns_terminal (snd res) = ns_terminal s \<and>
     length (ns_operations (snd res)) = length (ns_operations s) \<and>
     (fst res = Inr () \<longleftrightarrow> pend_status (ns_operations (snd res) ! i) \<noteq> None)"

lemma advanced_same: "advanced s s' \<Longrightarrow> ns_operations s' = ns_operations s \<and> ns_terminal s' = ns_terminal s"
  by (auto simp: advanced_def)

lemma release_same [simp]:
  "ns_operations (release_operation i s) = ns_operations s" "ns_terminal (release_operation i s) = ns_terminal s"
  by (simp_all add: release_operation_def)

lemma close_same [simp]:
  "length (ns_operations (close_operation i c e st s)) = length (ns_operations s)"
  "ns_terminal (close_operation i c e st s) = ns_terminal s"
  by (simp_all add: close_operation_def update_operation_def)

lemma advanced_closes_one:
  assumes "native_inv s" "open_operation i s" "advanced s s'" "no_native_panic (Inl e :: native_error + unit)"
  shows "closes_one i s (Inl e, s')"
  using advanced_keeps [OF assms(1,3)] advanced_same [OF assms(3)] assms(2,4)
  by (simp add: closes_one_def open_operation_def)

lemma end_operation_closes:
  assumes s: "native_inv s" and i: "open_operation i s" and adv: "advanced s s1"
    and c: "c = None \<and> s1 = s \<or> (\<exists>x. c = Some x \<and> completion_order x = ns_next_order s \<and> completion_time x = ns_next_time s \<and>
      completion_ok x \<and> ns_next_order s < ns_next_order s1 \<and> sint (ns_next_time s) < sint (ns_next_time s1))"
  shows "closes_one i s (end_operation i c (completion_status c) s1)"
proof -
  have s1: "native_inv s1" using advanced_keeps [OF s adv] keeps_inv by blast
  then show ?thesis
  proof (cases rule: tick_cases)
    case 1
    then show ?thesis
      using advanced_closes_one [OF s i adv] by (simp add: end_operation_def act_bind_def no_native_panic_def clock_overflow_def config_error_def)
  next
    case (2 t)
    let ?s2 = "s1\<lparr>ns_next_time := t\<rparr>"
    have adv2: "advanced s ?s2" using advanced_trans [OF adv] tick_advanced [OF s1] 2(1) by simp
    have le: "sint (ns_next_time s) \<le> sint (ns_next_time s1)" using adv by (auto simp: advanced_def)
    let ?s3 = "close_operation i c (ns_next_time s1) (completion_status c) ?s2"
    have len: "i < length (ns_operations s)" using i by (simp add: open_operation_def)
    have ops: "ns_operations s1 = ns_operations s" using advanced_same [OF adv] by blast
    have k: "keeps {i} s ?s3"
      using s i c adv2 le 2(2) by (intro close_keeps) (auto simp: open_operation_def)
    have "keeps {i} s (release_operation i ?s3)"
      using k release_keeps [OF keeps_inv [OF k], of i] keeps_trans len ops by fastforce
    moreover have "pend_status (ns_operations ?s3 ! i) \<noteq> None"
      using len ops by (simp add: close_operation_def update_operation_def)
    ultimately show ?thesis
      using 2(1) advanced_same [OF adv] by (simp add: closes_one_def end_operation_def act_bind_def no_native_panic_def)
  qed
qed

lemma stamped_end_closes:
  assumes s: "native_inv s" and i: "open_operation i s" and f: "is_stamp f" and st: "\<And>n t. completion_status (Some (f n t)) = st"
  shows "closes_one i s (act_bind (stamped f) (\<lambda>c. end_operation i (Some c) st) s)"
  using s
proof (cases rule: stamped_cases [where f = f])
  case (1 kind diagnostic s')
  then show ?thesis using advanced_closes_one [OF s i 1(2)] by (simp add: act_bind_def no_native_panic_def)
next
  case (2 t)
  let ?s1 = "s\<lparr>ns_next_order := ns_next_order s + 1, ns_next_time := t\<rparr>"
  have "advanced s ?s1"
    unfolding advanced_def using 2(2,3) by (intro exI [of _ "ns_next_order s + 1"] exI [of _ t]) simp
  then have "closes_one i s (end_operation i (Some (f (ns_next_order s) (ns_next_time s)))
      (completion_status (Some (f (ns_next_order s) (ns_next_time s)))) ?s1)"
    using 2 f by (intro end_operation_closes [OF s i]) (simp_all add: is_stamp_def)
  then show ?thesis using 2(1) st by (simp add: act_bind_def)
qed

lemmas stamp_defs = is_stamp_def completion_order_def completion_time_def completion_parts_def

definition terminal_ok :: "native_terminal \<Rightarrow> bool" where
  "terminal_ok t \<longleftrightarrow>
     (case t of TResult v \<Rightarrow> value_ok v | TError _ (Some v) \<Rightarrow> value_ok v | _ \<Rightarrow> True)"

lemma act_bind_assoc: "act_bind (act_bind m f) g s = act_bind m (\<lambda>x. act_bind (f x) g) s"
  by (simp add: act_bind_def split: prod.splits sum.splits)

lemma act_bind_return [simp]: "act_bind (act_return x) f = f x"
  by (simp add: act_bind_def act_return_def fun_eq_iff)

lemma complete_operation_closes:
  assumes s: "native_inv s" and i: "open_operation i s" and t: "terminal_ok t"
  shows "closes_one i s (complete_operation i t s)"
proof -
  have eq: "complete_operation i t s = act_bind (terminal_completion t) (\<lambda>(c, status). end_operation i c status) s"
    using i by (simp add: complete_operation_def open_operation_def end_operation_def)
  have unit: "closes_one i s (end_operation i None Ok s)"
    using end_operation_closes [OF s i advanced_refl, of None] by simp
  show ?thesis
    using t unit unfolding eq
    by (cases t)
       (auto simp: terminal_completion_def act_bind_assoc terminal_ok_def stamp_defs target_fault_def split: option.splits intro!: stamped_end_closes [OF s i])
qed

lemma complete_not_open:
  assumes "native_inv s" "\<not> open_operation i s"
  shows "snd (complete_operation i t s) = s"
  using assms by (auto simp: complete_operation_def open_operation_def)

lemma complete_operation_keeps: "terminal_ok t \<Longrightarrow> native_inv s \<Longrightarrow> keeps {i} s (snd (complete_operation i t s))"
  using complete_operation_closes [of s i t] complete_not_open [of s i t] keeps_refl [of s "{i}"]
  by (cases "open_operation i s") (auto simp: closes_one_def)

interpretation completion_action: session_action "complete_operation i t" "terminal_ok t" "{i}"
  by unfold_locales (rule complete_operation_keeps)

section \<open>Dropped scopes\<close>

lemma drop_close_keeps:
  assumes s: "native_inv s" and i: "open_operation i s" and f: "is_stamp f" and st: "\<And>n t. completion_status (Some (f n t)) = st"
  shows "keeps {i} s (drop_close i f st s) \<and> length (ns_operations (drop_close i f st s)) = length (ns_operations s)"
  using s
proof (cases rule: stamped_cases [where f = f])
  case (1 kind diagnostic s1)
  then have s1: "native_inv s1" using advanced_keeps [OF s] keeps_inv by blast
  let ?s2 = "snd (tick s1)"
  have adv: "advanced s ?s2" using advanced_trans [OF 1(2) tick_advanced [OF s1]] .
  have "drop_close i f st s = ?s2\<lparr>ns_terminal := Some (kind, diagnostic)\<rparr>"
    using 1(1) by (simp add: drop_close_def split: prod.splits)
  then show ?thesis
    using advanced_keeps [OF s adv, of "{i}"] advanced_same [OF adv] terminal_keeps keeps_trans keeps_inv by fastforce
next
  case (2 t)
  let ?s1 = "s\<lparr>ns_next_order := ns_next_order s + 1, ns_next_time := t\<rparr>"
  have adv: "advanced s ?s1"
    unfolding advanced_def using 2(2,3) by (intro exI [of _ "ns_next_order s + 1"] exI [of _ t]) simp
  have s1: "native_inv ?s1" using advanced_keeps [OF s adv] keeps_inv by blast
  from s1 show ?thesis
  proof (cases rule: tick_cases)
    case 1
    then have "drop_close i f st s = ?s1\<lparr>ns_terminal := Some (Configuration, ''native capture logical clock overflow'')\<rparr>"
      using 2(1) by (simp add: drop_close_def clock_overflow_def config_error_def)
    then show ?thesis
      using advanced_keeps [OF s adv, of "{i}"] advanced_same [OF adv] terminal_keeps [OF s1, of "{i}"] keeps_trans by fastforce
  next
    case (2 t')
    let ?c = "f (ns_next_order s) (ns_next_time s)"
    let ?s2 = "?s1\<lparr>ns_next_time := t'\<rparr>"
    have adv2: "advanced s ?s2" using advanced_trans [OF adv] tick_advanced [OF s1] 2(1) by simp
    have eq: "drop_close i f st s = close_operation i (Some ?c) t st ?s2"
      using \<open>stamped f s = _\<close> 2(1) by (simp add: drop_close_def)
    have "keeps {i} s (close_operation i (Some ?c) t (completion_status (Some ?c)) ?s2)"
      using s i adv2 \<open>sint (ns_next_time s) < sint t\<close> \<open>ns_next_order s < _\<close> 2(2) f
      by (intro close_keeps) (simp_all add: open_operation_def is_stamp_def)
    then show ?thesis unfolding eq using st by simp
  qed
qed

lemma drop_operation_keeps:
  assumes s: "native_inv s" and i: "open_operation i s"
  shows "keeps {i} s (drop_operation i abandonable panicking s)"
proof -
  have fault: "is_stamp target_fault" "is_stamp CompletedAbandoned" by (simp_all add: stamp_defs target_fault_def)
  define s' where "s' = (if panicking then drop_close i target_fault Error s
    else if abandonable then drop_close i CompletedAbandoned Unset s
    else s\<lparr>ns_terminal := Some (Configuration,
           ''native operation '' @ ticked (pend_name (ns_operations s ! i)) @ '' scope closed without completion'')\<rparr>)"
  have k: "keeps {i} s s'" "length (ns_operations s') = length (ns_operations s)"
    using drop_close_keeps [OF s i fault(1), of Error] drop_close_keeps [OF s i fault(2), of Unset] terminal_keeps [OF s, of "{i}"]
    unfolding s'_def by (simp_all add: target_fault_def)
  have "keeps {i} s' (release_operation i s')"
    using k i by (intro release_keeps keeps_inv [OF k(1)]) (simp add: open_operation_def)
  moreover have "drop_operation i abandonable panicking s = release_operation i s'"
    using i unfolding s'_def by (simp add: drop_operation_def open_operation_def)
  ultimately show ?thesis using keeps_trans [OF k(1)] by simp
qed

section \<open>Closing what is outstanding\<close>

lemma close_one_closes:
  assumes "native_inv s" "open_operation i s"
  shows "closes_one i s (close_one i s)"
  unfolding close_one_def end_operation_def [symmetric]
  using stamped_end_closes [OF assms] by (simp add: stamp_defs)

lemma close_all_closes:
  "native_inv s \<Longrightarrow> \<forall>i\<in>set is. open_operation i s \<Longrightarrow> distinct is \<Longrightarrow> close_all is s = (r, s') \<Longrightarrow>
   keeps (set is) s s' \<and> no_native_panic r \<and> ns_terminal s' = ns_terminal s \<and>
   length (ns_operations s') = length (ns_operations s) \<and>
   (r = Inr () \<longrightarrow> (\<forall>i\<in>set is. pend_status (ns_operations s' ! i) \<noteq> None))"
proof (induction "is" arbitrary: s)
  case Nil
  then show ?case by (auto simp: keeps_refl no_native_panic_def)
next
  case (Cons i "is")
  obtain r1 s1 where one: "close_one i s = (r1, s1)" by fastforce
  have c: "closes_one i s (r1, s1)" using close_one_closes [of s i] Cons.prems one by simp
  show ?case
  proof (cases r1)
    case (Inl e)
    then show ?thesis
      using c Cons.prems(4) one keeps_mono [of "{i}" s s1 "set (i # is)"]
      by (auto simp: act_bind_def closes_one_def no_native_panic_def)
  next
    case (Inr u)
    have k: "keeps {i} s s1" "length (ns_operations s1) = length (ns_operations s)" "ns_terminal s1 = ns_terminal s"
      "pend_status (ns_operations s1 ! i) \<noteq> None"
      using c Inr by (auto simp: closes_one_def)
    have rest: "close_all is s1 = (r, s')" using Cons.prems(4) one Inr by (simp add: act_bind_def)
    have opened: "\<forall>j\<in>set is. open_operation j s1"
      using Cons.prems(2,3) k by (auto simp: open_operation_def keeps_def)
    note IH = Cons.IH [OF keeps_inv [OF k(1)] opened _ rest]
    have all: "keeps (set (i # is)) s s'"
      using IH Cons.prems(3) k(1) keeps_mono keeps_trans by (metis distinct.simps(2) insert_is_Un list.simps(15) sup.cobounded1 set_subset_Cons)
    have "pend_status (ns_operations s' ! i) = pend_status (ns_operations s1 ! i)"
      using IH Cons.prems(2,3) k(2) by (auto simp: keeps_def open_operation_def)
    then show ?thesis using IH all Cons.prems(3) k by auto
  qed
qed

lemma outstanding_open: "i \<in> set (outstanding s) \<longleftrightarrow> open_operation i s"
  by (auto simp: outstanding_def open_operation_def)

lemma close_outstanding_closes:
  assumes "native_inv s" "close_outstanding s = (r, s')"
  shows "native_inv s'" "no_native_panic r" "ns_terminal s' = ns_terminal s"
    "r = Inr () \<Longrightarrow> \<forall>p\<in>set (ns_operations s'). pend_status p \<noteq> None"
proof -
  have "distinct (rev (outstanding s))" by (simp add: outstanding_def)
  note c = close_all_closes [OF assms(1) _ this assms(2) [unfolded close_outstanding_def]]
  then show "native_inv s'" "no_native_panic r" "ns_terminal s' = ns_terminal s"
    using outstanding_open keeps_inv by auto
  assume r: "r = Inr ()"
  have "pend_status (ns_operations s' ! i) \<noteq> None" if "i < length (ns_operations s')" for i
    using c r that outstanding_open by (cases "open_operation i s") (auto simp: open_operation_def keeps_def)
  then show "\<forall>p\<in>set (ns_operations s'). pend_status p \<noteq> None" by (metis in_set_conv_nth)
qed

lemma persist_provisional_keeps: "native_inv s \<Longrightarrow> keeps {} s (snd (persist_provisional write s))"
  by (auto simp: persist_provisional_def keeps_refl terminal_keeps split: option.splits sum.splits prod.splits)

interpretation persist_action: session_action "persist_provisional write" True "{}"
  by unfold_locales (simp add: persist_provisional_keeps)

section \<open>Span identifiers\<close>

text \<open>
  The search ends within its fuel: a session reserves two identifiers and those of its operations, and
  the candidates are distinct.
\<close>

lemma span_search_None:
  "span_search s n c = None \<Longrightarrow> k < n \<Longrightarrow> reserved_span s (hex_pad 16 (c + int k)) \<and> (0 < k \<longrightarrow> c + int k < 2 ^ 64)"
proof (induction n arbitrary: c k)
  case (Suc n)
  have here: "reserved_span s (hex_pad 16 c)" "0 < n \<longrightarrow> c + 1 < 2 ^ 64" "span_search s n (c + 1) = None"
    using Suc.prems(1) by (auto simp: Let_def split: if_splits)
  show ?case
  proof (cases k)
    case (Suc j)
    then show ?thesis
      using Suc.IH [OF here(3), of j] Suc.prems(2) here(2) by (cases "j = 0") (auto simp: algebra_simps)
  qed (use here in simp)
qed simp

lemma reserved_span_iff:
  "reserved_span s x \<longleftrightarrow> x \<in> insert (cfg_run (ns_config s)) (insert (cfg_scenario (ns_config s)) (pend_id ` set (ns_operations s)))"
  by (auto simp: reserved_span_def)

lemma span_search_returns:
  assumes "0 < c" "c < 2 ^ 64"
  shows "span_search s (length (ns_operations s) + 3) c \<noteq> None"
proof
  let ?n = "length (ns_operations s) + 3"
  let ?reserved = "insert (cfg_run (ns_config s)) (insert (cfg_scenario (ns_config s)) (pend_id ` set (ns_operations s)))"
  assume none: "span_search s ?n c = None"
  have "set (ids_from c ?n) \<subseteq> ?reserved"
    using span_search_None [OF none] unfolding reserved_span_iff by (fastforce simp: ids_from_def)
  then have "card (set (ids_from c ?n)) \<le> card ?reserved" by (intro card_mono) auto
  also have "\<dots> \<le> length (ns_operations s) + 2"
    using card_length [of "cfg_run (ns_config s) # cfg_scenario (ns_config s) # map pend_id (ns_operations s)"] by simp
  finally have "card (set (ids_from c ?n)) < ?n" by simp
  moreover have "c + int (length (ns_operations s) + 2) < 2 ^ 64"
    using span_search_None [OF none, of "length (ns_operations s) + 2"] by simp
  then have "distinct (ids_from c ?n)" using assms(1) by (intro ids_from_distinct) simp_all
  then have "card (set (ids_from c ?n)) = ?n" by (simp only: distinct_card) (simp add: ids_from_def)
  ultimately show False by simp
qed

lemma span_search_result:
  "span_search s n c = Some r \<Longrightarrow> 0 < c \<Longrightarrow> c < 2 ^ 64 \<Longrightarrow> (\<exists>x. r = Inr x \<and> \<not> reserved_span s x) \<or> r = Inl span_overflow"
proof (induction n arbitrary: c)
  case (Suc n)
  have "id_ok 16 (hex_pad 16 c)" using Suc.prems by (intro hex_pad_id) simp_all
  then have "validate_hex_id ''span ID'' (hex_pad 16 c) 16 = None"
    by (auto simp: validate_hex_id_def id_ok_def list_all_iff list_ex_iff)
  then show ?case using Suc by (auto simp: Let_def split: if_splits)
qed simp

lemma next_span_cases:
  obtains "next_span s = Some (Inl span_overflow)"
  | x where "next_span s = Some (Inr x)" "length (cfg_operation_ids (ns_config s)) \<le> ns_next_op s" "\<not> reserved_span s x"
  | "next_span s = Some (Inr (cfg_operation_ids (ns_config s) ! ns_next_op s))" "ns_next_op s < length (cfg_operation_ids (ns_config s))"
proof -
  let ?c = "int (ns_next_op s) + 1"
  consider "ns_next_op s < length (cfg_operation_ids (ns_config s))"
    | "length (cfg_operation_ids (ns_config s)) \<le> ns_next_op s" "?c \<ge> 2 ^ 64"
    | r where "length (cfg_operation_ids (ns_config s)) \<le> ns_next_op s" "?c < 2 ^ 64"
        "span_search s (length (ns_operations s) + 3) ?c = Some r"
    using span_search_returns [of ?c s] by fastforce
  then show ?thesis
  proof cases
    case 3
    then show ?thesis
      using span_search_result [OF 3(3)] that(1,2) by (auto simp: next_span_def)
  qed (use that in \<open>auto simp: next_span_def\<close>)
qed

section \<open>Beginning an operation\<close>

lemma fresh_span:
  assumes "native_inv s" "next_span s = Some (Inr x)"
  shows "x \<notin> set (cfg_run (ns_config s) # cfg_scenario (ns_config s) # map pend_id (ns_operations s))"
    "ns_next_op s < length (cfg_operation_ids (ns_config s)) \<longrightarrow> x = cfg_operation_ids (ns_config s) ! ns_next_op s"
proof -
  let ?c = "ns_config s"
  have inv: "id_inv s" using assms(1) by (simp add: native_inv_def)
  have "x \<notin> set (cfg_run ?c # cfg_scenario ?c # map pend_id (ns_operations s)) \<and>
    (ns_next_op s < length (cfg_operation_ids ?c) \<longrightarrow> x = cfg_operation_ids ?c ! ns_next_op s)"
  proof (cases s rule: next_span_cases)
    case (2 y)
    then show ?thesis using assms(2) by (auto simp: reserved_span_def)
  next
    case 3
    let ?n = "length (ns_operations s)"
    have n: "ns_next_op s = ?n" using inv by (simp add: id_inv_def)
    have d: "distinct (cfg_run ?c # cfg_scenario ?c # cfg_operation_ids ?c)" using inv by (simp add: id_inv_def config_wf_def)
    have x: "x = cfg_operation_ids ?c ! ?n" "?n < length (cfg_operation_ids ?c)" using 3 assms(2) n by auto
    have "pend_id (ns_operations s ! j) \<noteq> x" if "j < ?n" for j
      using inv that d x by (auto simp: id_inv_def nth_eq_iff_index_eq)
    then have "x \<notin> pend_id ` set (ns_operations s)" by (metis imageE in_set_conv_nth)
    moreover have "x \<in> set (cfg_operation_ids ?c)" using x nth_mem by simp
    then have "x \<noteq> cfg_run ?c" "x \<noteq> cfg_scenario ?c" using d by auto
    ultimately show ?thesis using x n by simp
  qed (use assms(2) in simp)
  then show "x \<notin> set (cfg_run ?c # cfg_scenario ?c # map pend_id (ns_operations s))"
    "ns_next_op s < length (cfg_operation_ids ?c) \<longrightarrow> x = cfg_operation_ids ?c ! ns_next_op s" by blast+
qed

lemma append_keeps:
  assumes s: "native_inv s" and adv: "advanced s s'" "ns_next_order s < ns_next_order s'" "sint (ns_next_time s) < sint (ns_next_time s')"
    and id: "pend_id p \<notin> set (cfg_run (ns_config s) # cfg_scenario (ns_config s) # map pend_id (ns_operations s))"
      "ns_next_op s < length (cfg_operation_ids (ns_config s)) \<longrightarrow> pend_id p = cfg_operation_ids (ns_config s) ! ns_next_op s"
    and parent: "pend_parent p = ns_current s"
      "pend_parent_id p = (case ns_current s of None \<Rightarrow> cfg_scenario (ns_config s) | Some i \<Rightarrow> pend_id (ns_operations s ! i))"
    and stamps: "pending_stamps p = [(ns_next_order s, ns_next_time s)]"
    and wf: "pending_wf (ns_scenario_start s) (ns_next_time s') p"
  shows "keeps {} s (s'\<lparr>ns_operations := ns_operations s @ [p], ns_next_op := ns_next_op s + 1, ns_current := Some (length (ns_operations s))\<rparr>)"
proof -
  let ?ps = "ns_operations s"
  obtain n t where s': "s' = s\<lparr>ns_next_order := n, ns_next_time := t\<rparr>" using adv(1) by (auto simp: advanced_def)
  have inv: "clock_inv s" "id_inv s" using s by (auto simp: native_inv_def)
  have eq: "stamps (?ps @ [p]) = stamps ?ps @ [(ns_next_order s, ns_next_time s)]" using stamps by (simp add: stamps_def)
  have chron: "chronological (stamps (?ps @ [p]))"
    using chronological_insert [OF clock_inv_chronological [OF inv(1)] clock_inv_before [OF inv(1)]] eq by simp
  have before: "stamped_before n t (stamps (?ps @ [p]))"
    using clock_inv_before [OF inv(1)] adv(2,3) s' unfolding eq by (fastforce simp: stamped_before_def)
  have each: "pending_wf (ns_scenario_start s) t q" if "q \<in> set (?ps @ [p])" for q
    using that wf inv(1) pending_wf_later [of _ "ns_next_time s" q t] adv(3) s' by (auto simp: clock_inv_def)
  have parents: "parent_wf (cfg_scenario (ns_config s)) (?ps @ [p]) i" if "i < Suc (length ?ps)" for i
    using that inv(2) parent by (fastforce simp: id_inv_def parent_wf_def nth_append valid_operation_def less_Suc_eq split: option.splits)
  show ?thesis
    using chron before each parents inv id adv(3) s'
    by (auto simp: keeps_def native_inv_def clock_inv_def id_inv_def valid_operation_def nth_append less_Suc_eq)
qed

definition folded_ok :: "native_error + ((string \<times> capture_value) list \<times> string list) \<Rightarrow> bool" where
  "folded_ok folded \<longleftrightarrow> (\<forall>given filled. folded = Inr (given, filled) \<longrightarrow> value_ok (VMap given)) \<and> no_native_panic folded"

lemma push_operation_result:
  fixes component name :: string and filled :: "string list"
  assumes s: "native_inv s" and given: "value_ok (VMap given)" and span: "next_span s = Some (Inr span)"
  defines "new \<equiv> new_operation component name given filled span s"
  obtains kind diagnostic s' where "push_operation new s = (Inl (CaptureError kind diagnostic), s')" "keeps {} s s'"
  | s' where "push_operation new s = (Inr (length (ns_operations s)), s')" "keeps {} s s'" "open_operation (length (ns_operations s)) s'"
  using s
proof (cases rule: tick_cases)
  case 1
  then show ?thesis
    using that(1) keeps_refl [OF s] by (auto simp: push_operation_def act_bind_def clock_overflow_def config_error_def)
next
  case (2 t)
  let ?s1 = "s\<lparr>ns_next_time := t\<rparr>"
  have adv1: "advanced s ?s1" using tick_advanced [OF s] 2(1) by simp
  show ?thesis
  proof (cases "ns_next_order s = - 1")
    case True
    then have "take_order ?s1 = (Inl (config_error ''native capture event order overflow''), ?s1)" by (simp add: take_order_def)
    then show ?thesis
      using that(1) advanced_keeps [OF s adv1] 2(1) by (auto simp: push_operation_def act_bind_def config_error_def)
  next
    case False
    let ?s2 = "?s1\<lparr>ns_next_order := ns_next_order s + 1\<rparr>"
    let ?p = "new (ns_next_order s) (ns_next_time s)"
    have order: "take_order ?s1 = (Inr (ns_next_order s), ?s2)" "ns_next_order s < ns_next_order s + 1"
      using False by (simp_all add: take_order_def u64_less_Suc)
    have adv2: "advanced s ?s2"
      unfolding advanced_def using order(2) 2(2) by (intro exI [of _ "ns_next_order s + 1"] exI [of _ t]) simp
    have "sint (ns_scenario_start s) < sint (ns_next_time s)" using s by (simp add: native_inv_def clock_inv_def)
    then have "pending_wf (ns_scenario_start s) t ?p" using 2(2) given by (simp add: pending_wf_def new_def new_operation_def)
    then have "keeps {} s (?s2\<lparr>ns_operations := ns_operations s @ [?p], ns_next_op := ns_next_op s + 1,
        ns_current := Some (length (ns_operations s))\<rparr>)"
      using fresh_span [OF s span] order(2) 2(2)
      by (intro append_keeps [OF s adv2]) (simp_all add: new_def new_operation_def pending_stamps_def completion_stamps_def)
    then show ?thesis
      using that(2) 2(1) order(1) by (simp add: push_operation_def act_bind_def open_operation_def new_def new_operation_def)
  qed
qed

lemma begin_active_result:
  assumes s: "native_inv s" and f: "folded_ok folded"
  obtains kind diagnostic s' where "begin_active component name folded s = Some (Inl (CaptureError kind diagnostic), s')" "keeps {} s s'"
  | s' where "begin_active component name folded s = Some (Inr (length (ns_operations s)), s')" "keeps {} s s'"
      "open_operation (length (ns_operations s)) s'"
proof -
  consider kind diagnostic where "begin_active component name folded s = Some (Inl (CaptureError kind diagnostic), s)"
    | given filled span where "folded = Inr (given, filled)" "next_span s = Some (Inr span)"
        "begin_active component name folded s = Some (push_operation (new_operation component name given filled span s) s)"
  proof (cases "ns_terminal s")
    case none: None
    show ?thesis
    proof (cases folded)
      case (Inl e)
      then show ?thesis using that(1) none f by (cases e) (auto simp: begin_active_def folded_ok_def no_native_panic_def)
    next
      case (Inr p)
      then show ?thesis
        using that none by (cases s rule: next_span_cases; cases p) (auto simp: begin_active_def span_overflow_def config_error_def)
    qed
  qed (use that(1) in \<open>auto simp: begin_active_def\<close>)
  then show ?thesis
  proof cases
    case 1
    then show ?thesis using that(1) keeps_refl [OF s] by blast
  next
    case (2 given filled span)
    then have given: "value_ok (VMap given)" using f by (simp add: folded_ok_def)
    show ?thesis
      using that 2(3) by (cases rule: push_operation_result [OF s given 2(2), of component name filled]) auto
  qed
qed

end
