(* ===== verification/Ctsc_Captured.thy ===== *)
theory Ctsc_Captured
  imports Ctsc_Actions
begin

text \<open>
  From sessions to captures: a started session satisfies the session invariant, and what a finished
  session returns is well formed as recorded evidence.
\<close>

section \<open>Started sessions\<close>

lemma duplicate_operation_id_None:
  "duplicate_operation_id seen k xs = None \<longleftrightarrow> distinct xs \<and> set xs \<inter> seen = {}"
  by (induction seen k xs rule: duplicate_operation_id.induct) auto

lemma validate_config_None: "validate_config c = None \<longleftrightarrow> config_wf c"
proof -
  have "(case duplicate_operation_id seen k xs of None \<Rightarrow> None | Some i \<Rightarrow> Some (g i)) = None \<longleftrightarrow> distinct xs \<and> set xs \<inter> seen = {}"
    for seen k xs and g :: "nat \<Rightarrow> native_error"
    by (auto simp: duplicate_operation_id_None [symmetric, of _ seen k] split: option.splits)
  then show ?thesis by (auto simp: validate_config_def config_wf_def)
qed

lemma start_state_inv:
  assumes "start_state c sidecar setups active = Inr s"
  shows "native_inv s" "ns_operations s = []" "ns_config s = c"
proof -
  obtain t u where s: "s = \<lparr>ns_config = c, ns_sidecar = sidecar, ns_run_start = cfg_start c, ns_scenario_start = t,
      ns_next_time = u, ns_next_op = 0, ns_next_order = 0, ns_current = None, ns_operations = [], ns_terminal = None\<rparr>"
    and c: "config_wf c" and t: "sint t = sint (cfg_start c) + sint (cfg_step c)" "sint u = sint t + sint (cfg_step c)"
    using assms i64_checked_Some by (auto simp: start_state_def validate_config_None split: option.splits if_splits)
  show "native_inv s" "ns_operations s = []" "ns_config s = c"
    using c t
    by (auto simp: s native_inv_def clock_inv_def id_inv_def config_wf_def valid_operation_def chronological_def
          stamped_before_def stamps_def)
qed

section \<open>Recorded evidence\<close>

definition operation_stamps :: "operation \<Rightarrow> stamp list" where
  "operation_stamps op =
     (operation_order op, operation_start op) # map (\<lambda>obs. (obs_order obs, obs_time obs)) (observations op) @
     completion_stamps (completed op)"

definition recorded_operation :: "i64 \<Rightarrow> i64 \<Rightarrow> operation \<Rightarrow> bool" where
  "recorded_operation from until op \<longleftrightarrow>
     sint from < sint (operation_start op) \<and> sint (operation_end op) < sint until \<and>
     closed_properly (operation_start op) (operation_end op) (operation_status op) (completed op) \<and>
     value_ok (VMap (inputs op)) \<and>
     (\<forall>obs\<in>set (observations op). sint (operation_start op) < sint (obs_time obs) \<and> sint (obs_time obs) < sint until \<and>
        value_ok (obs_value obs))"

text \<open>Operations are listed parents first.\<close>

fun parents_first :: "string set \<Rightarrow> operation list \<Rightarrow> bool" where
  "parents_first seen [] \<longleftrightarrow> True"
| "parents_first seen (op # ops) \<longleftrightarrow> operation_parent op \<in> seen \<and> parents_first (insert (operation_id op) seen) ops"

lemma parents_first_nth:
  "parents_first seen ops \<longleftrightarrow> (\<forall>i<length ops. operation_parent (ops ! i) \<in> seen \<union> operation_id ` set (take i ops))"
proof (induction ops arbitrary: seen)
  case (Cons op ops)
  then show ?case by (auto simp: All_less_Suc2)
qed simp

definition recorded_tree :: "capture \<Rightarrow> bool" where
  "recorded_tree c \<longleftrightarrow>
     0 \<le> sint (boundary_start (scenario c)) \<and> sint (boundary_start (scenario c)) < sint (boundary_end (scenario c)) \<and>
     distinct (boundary_id (run_boundary c) # boundary_id (scenario c) # map operation_id (operations c)) \<and>
     parents_first {boundary_id (scenario c)} (operations c) \<and>
     chronological (concat (map operation_stamps (operations c))) \<and>
     (\<forall>op\<in>set (operations c). recorded_operation (boundary_start (scenario c)) (boundary_end (scenario c)) op)"

definition recorded :: "capture \<Rightarrow> bool" where
  "recorded c \<longleftrightarrow>
     recorded_tree c \<and>
     boundary_parent (run_boundary c) = None \<and> boundary_parent (scenario c) = Some (boundary_id (run_boundary c)) \<and>
     0 \<le> sint (boundary_start (run_boundary c)) \<and>
     sint (boundary_start (run_boundary c)) < sint (boundary_start (scenario c)) \<and>
     sint (boundary_end (scenario c)) < sint (boundary_end (run_boundary c)) \<and>
     boundary_status (run_boundary c) = boundary_status (scenario c) \<and>
     boundary_status (scenario c) = (if \<exists>op\<in>set (operations c). operation_status op = Error then Error else Ok)"

definition finished :: "pending_operation \<Rightarrow> operation" where
  "finished p =
     \<lparr>operation_order = pend_order p, operation_id = pend_id p, operation_parent = pend_parent_id p,
      component_id = pend_component p, operation_name = pend_name p, operation_start = pend_start p,
      operation_end = the (pend_end p), operation_status = the (pend_status p), inputs = pend_inputs p,
      observations = pend_observations p, completed = pend_completion p\<rparr>"

lemma pending_closed:
  assumes "pending_wf from now p" "pend_status p \<noteq> None"
  obtains e status where "pend_end p = Some e" "pend_status p = Some status" "sint e < sint now"
    "closed_properly (pend_start p) e status (pend_completion p)"
  using assms by (auto simp: pending_wf_def split: option.splits)

lemma finished_operation_closed: "pending_wf from now p \<Longrightarrow> pend_status p \<noteq> None \<Longrightarrow> finished_operation p = Inr (finished p)"
  by (erule (1) pending_closed) (simp add: finished_operation_def finished_def)

lemma finished_operations:
  "\<forall>p\<in>set ps. pending_wf from now p \<and> pend_status p \<noteq> None \<Longrightarrow> map_result finished_operation ps = Inr (map finished ps)"
  by (induction ps) (auto simp: finished_operation_closed)

lemma finished_recorded:
  assumes "pending_wf from now p" "pend_status p \<noteq> None" "stamped_before n now (pending_stamps p)"
  shows "recorded_operation from now (finished p)"
proof -
  from assms(1,2) obtain e status where e: "pend_end p = Some e" "pend_status p = Some status" "sint e < sint now"
    "closed_properly (pend_start p) e status (pend_completion p)" by (rule pending_closed)
  have "sint (obs_time obs) < sint now" if "obs \<in> set (pend_observations p)" for obs
    using that assms(3) by (auto simp: stamped_before_def pending_stamps_def ball_Un)
  with e assms(1) show ?thesis by (simp add: recorded_operation_def finished_def pending_wf_def)
qed

lemma finished_stamps: "operation_stamps (finished p) = pending_stamps p"
  by (simp add: operation_stamps_def finished_def pending_stamps_def)

lemma parents_first_finished:
  assumes "\<forall>i<length ps. parent_wf root ps i"
  shows "parents_first {root} (map finished ps)"
  unfolding parents_first_nth
proof (intro allI impI)
  fix i assume "i < length (map finished ps)"
  then have i: "i < length ps" by simp
  have "parent_wf root ps i" using assms i by blast
  then consider "pend_parent_id (ps ! i) = root" | j where "j < i" "pend_parent_id (ps ! i) = pend_id (ps ! j)"
    by (auto simp: parent_wf_def split: option.splits)
  then show "operation_parent (map finished ps ! i) \<in> {root} \<union> operation_id ` set (take i (map finished ps))"
  proof cases
    case 2
    then have "ps ! j \<in> set (take i ps)" using i by (auto simp: in_set_conv_nth)
    then show ?thesis using 2 i by (force simp: take_map finished_def)
  qed (use i in \<open>simp add: finished_def\<close>)
qed

lemma snapshot_recorded:
  assumes s: "native_inv s" and closed: "\<forall>p\<in>set (ns_operations s). pend_status p \<noteq> None" and c: "snapshot s = Inr c"
  shows "recorded c \<and> operations c = map finished (ns_operations s)"
proof -
  let ?ps = "ns_operations s"
  have inv: "clock_inv s" "id_inv s" using s by (auto simp: native_inv_def)
  have wf: "\<forall>p\<in>set ?ps. pending_wf (ns_scenario_start s) (ns_next_time s) p \<and> pend_status p \<noteq> None"
    using inv(1) closed by (simp add: clock_inv_def)
  note ops = finished_operations [OF wf]
  obtain e where e: "i64_checked (sint (ns_next_time s) + sint (cfg_step (ns_config s))) = Some e"
    using c by (auto simp: snapshot_def split: option.splits)
  have step: "sint (ns_next_time s) < sint e" using i64_checked_Some [OF e] native_step [OF s] by simp
  define status where "status = (if \<exists>p\<in>set ?ps. pend_status p = Some Error then Error else Ok)"
  have eq: "c = \<lparr>capture_trace = cfg_trace (ns_config s), scenario_name = cfg_name (ns_config s),
      run_boundary = \<lparr>boundary_id = cfg_run (ns_config s), boundary_parent = None,
        boundary_start = ns_run_start s, boundary_end = e, boundary_status = status\<rparr>,
      scenario = \<lparr>boundary_id = cfg_scenario (ns_config s), boundary_parent = Some (cfg_run (ns_config s)),
        boundary_start = ns_scenario_start s, boundary_end = ns_next_time s, boundary_status = status\<rparr>,
      operations = map finished ?ps\<rparr>"
    using c ops e by (auto simp: snapshot_def status_def Let_def split: option.splits)
  have st: "(\<exists>op\<in>set (map finished ?ps). operation_status op = Error) \<longleftrightarrow> (\<exists>p\<in>set ?ps. pend_status p = Some Error)"
    using closed by (simp add: finished_def) (metis option.collapse option.sel)
  have before: "stamped_before (ns_next_order s) (ns_next_time s) (pending_stamps p)" if "p \<in> set ?ps" for p
    using clock_inv_before [OF inv(1)] that by (auto simp: stamped_before_def stamps_def)
  have each: "\<forall>op\<in>set (map finished ?ps). recorded_operation (ns_scenario_start s) (ns_next_time s) op"
    using finished_recorded before wf by fastforce
  have chron: "chronological (concat (map operation_stamps (map finished ?ps)))"
    using clock_inv_chronological [OF inv(1)] by (simp add: stamps_def finished_stamps comp_def)
  have ids: "map operation_id (map finished ?ps) = map pend_id ?ps" by (simp add: finished_def)
  have parents: "parents_first {cfg_scenario (ns_config s)} (map finished ?ps)"
    using inv(2) by (intro parents_first_finished) (simp add: id_inv_def)
  have clock: "0 \<le> sint (ns_run_start s)" "sint (ns_run_start s) < sint (ns_scenario_start s)"
    "sint (ns_scenario_start s) < sint (ns_next_time s)"
    using inv by (auto simp: clock_inv_def id_inv_def config_wf_def)
  show ?thesis
    unfolding eq recorded_def recorded_tree_def using st each chron ids parents clock step inv(2)
    by (simp add: id_inv_def status_def del: list.map_comp map_map)
qed

lemma finish_state_recorded:
  assumes "native_inv s" "finish_state write s = Inr c"
  shows "recorded c \<and> operations c = map finished (ns_operations s)"
proof -
  have "outstanding s = []"
  proof (rule ccontr)
    assume "outstanding s \<noteq> []"
    then show False using assms(2) by (auto simp: finish_state_def and_then_def split: prod.splits sum.splits if_splits)
  qed
  then have "\<forall>p\<in>set (ns_operations s). pend_status p \<noteq> None"
    by (auto simp: outstanding_def filter_empty_conv in_set_conv_nth)
  moreover have "snapshot s = Inr c"
    using assms(2) \<open>outstanding s = []\<close>
    by (auto simp: finish_state_def and_then_def split: option.splits sum.splits if_splits prod.splits)
  ultimately show ?thesis using snapshot_recorded assms(1) by blast
qed

text \<open>Finishing never panics.\<close>

lemma snapshot_no_panic:
  assumes "native_inv s" "\<forall>p\<in>set (ns_operations s). pend_status p \<noteq> None"
  shows "no_native_panic (snapshot s)"
proof -
  have "\<forall>p\<in>set (ns_operations s). pending_wf (ns_scenario_start s) (ns_next_time s) p \<and> pend_status p \<noteq> None"
    using assms by (simp add: native_inv_def clock_inv_def)
  from finished_operations [OF this] show ?thesis
    by (auto simp: snapshot_def no_native_panic_def clock_overflow_def config_error_def Let_def and_then_def split: option.splits)
qed

lemma finish_state_no_panic:
  assumes s: "native_inv s"
  shows "no_native_panic (finish_state write s)"
proof (cases "outstanding s = []")
  case True
  then have "\<forall>p\<in>set (ns_operations s). pend_status p \<noteq> None"
    by (auto simp: outstanding_def filter_empty_conv in_set_conv_nth)
  from snapshot_no_panic [OF s this] True show ?thesis
    by (auto simp: finish_state_def no_native_panic_def and_then_def persist_state_def config_error_def split: option.splits sum.splits)
next
  case False
  obtain r s' where rs: "close_outstanding s = (r, s')" by fastforce
  note c = close_outstanding_closes [OF s rs]
  show ?thesis
  proof (cases r)
    case (Inl e)
    then show ?thesis using False rs c(2) by (simp add: finish_state_def no_native_panic_def)
  next
    case (Inr u)
    then have "no_native_panic (snapshot s')" using snapshot_no_panic [OF c(1)] c(4) by simp
    then show ?thesis
      using False rs Inr
      by (auto simp: finish_state_def no_native_panic_def and_then_def persist_state_def config_error_def split: option.splits sum.splits)
  qed
qed

lemma persist_provisional_no_panic:
  assumes s: "native_inv s"
  shows "no_native_panic (fst (persist_provisional write s))"
proof (cases "close_outstanding s")
  case (Pair r s')
  note c = close_outstanding_closes [OF s Pair]
  show ?thesis
  proof (cases r)
    case (Inl e)
    then show ?thesis
      using c(2) Pair by (auto simp: persist_provisional_def no_native_panic_def config_error_def split: option.splits)
  next
    case (Inr u)
    then have "no_native_panic (snapshot s')" using snapshot_no_panic [OF c(1)] c(4) by simp
    then show ?thesis
      using Inr Pair
      by (auto simp: persist_provisional_def no_native_panic_def config_error_def split: option.splits sum.splits)
  qed
qed

end
