(* ===== verification/Ctsc_Session.thy ===== *)
theory Ctsc_Session
  imports Ctsc_Captured
begin

text \<open>
  The handles of native capture: the session slot of every thread, the operation scopes the
  annotations hold, and the contexts that travel with futures
  (\<open>specgate-runtime/src/capture.rs\<close>, \<open>capture/async_context.rs\<close>).

  A collector handle is the index of a collector, so all handles to one collector share its state; a
  collector is \<open>None\<close> once its session was finished. A scope or context is the index it was given. A
  consumed scope is \<open>None\<close>. Threads are numbers. Every handler locks the collector once, so handlers
  are the atomic steps of \<open>session_step\<close>.
\<close>

section \<open>Handles\<close>

record operation_scope =
  scope_handle :: "(nat \<times> nat) option" \<comment> \<open>collector and operation\<close>
  scope_closed :: bool
  scope_abandonable :: bool

record capture_context =
  ctx_collector :: "nat option"
  ctx_operation :: "nat option"

record installed_context =
  ins_context :: nat
  ins_collector :: "nat option"
  ins_operation :: "nat option"

record world =
  collectors :: "native_state option list"
  sessions :: "nat \<Rightarrow> nat option"
  scopes :: "operation_scope option list"
  contexts :: "capture_context list"
  installed :: "nat \<Rightarrow> installed_context list"

definition empty_world :: world where
  "empty_world = \<lparr>collectors = [], sessions = (\<lambda>_. None), scopes = [], contexts = [], installed = (\<lambda>_. [])\<rparr>"

definition state_of :: "world \<Rightarrow> nat \<Rightarrow> native_state option" where
  "state_of w k = (if k < length (collectors w) then collectors w ! k else None)"

definition set_state :: "nat \<Rightarrow> native_state \<Rightarrow> world \<Rightarrow> world" where
  "set_state k s w = w\<lparr>collectors := (collectors w)[k := Some s]\<rparr>"

definition inactive :: operation_scope where
  "inactive = \<lparr>scope_handle = None, scope_closed = True, scope_abandonable = False\<rparr>"

definition add_scope :: "operation_scope \<Rightarrow> world \<Rightarrow> nat \<times> world" where
  "add_scope sc w = (length (scopes w), w\<lparr>scopes := scopes w @ [Some sc]\<rparr>)"

definition remove_scope :: "nat \<Rightarrow> world \<Rightarrow> world" where
  "remove_scope x w = w\<lparr>scopes := (scopes w)[x := None]\<rparr>"

text \<open>Run an action on the state behind a handle.\<close>

definition with_collector_mut :: "nat \<Rightarrow> 'a action \<Rightarrow> world \<Rightarrow> (native_error + 'a) \<times> world" where
  "with_collector_mut k f w =
     (case state_of w k of
        None \<Rightarrow> (Inl (config_error ''native capture session ended before operation scope''), w)
      | Some s \<Rightarrow> (case f s of (r, s') \<Rightarrow> (r, set_state k s' w)))"

section \<open>Sessions\<close>

definition start_with :: "nat \<Rightarrow> native_config \<Rightarrow> string option \<Rightarrow> native_error option \<Rightarrow> world \<Rightarrow> (native_error + unit) \<times> world" where
  "start_with t c sidecar setups w =
     (case start_state c sidecar setups (sessions w t \<noteq> None) of
        Inl e \<Rightarrow> (Inl e, w)
      | Inr s \<Rightarrow> (Inr (), w\<lparr>collectors := collectors w @ [Some s], sessions := (sessions w)(t := Some (length (collectors w)))\<rparr>))"

definition mark_error :: "nat \<Rightarrow> capture_error_kind \<Rightarrow> string \<Rightarrow> world \<Rightarrow> world" where
  "mark_error t kind diagnostic w =
     (case sessions w t of
        None \<Rightarrow> w
      | Some k \<Rightarrow>
          (case state_of w k of None \<Rightarrow> w | Some s \<Rightarrow> set_state k (s\<lparr>ns_terminal := Some (kind, diagnostic)\<rparr>) w))"

definition no_session :: native_error where
  "no_session = NativePanic ''cannot finish native capture without an active session''"

definition finish :: "nat \<Rightarrow> persistence \<Rightarrow> world \<Rightarrow> (native_error + capture) \<times> world" where
  "finish t write w =
     (case sessions w t of
        None \<Rightarrow> (Inl no_session, w)
      | Some k \<Rightarrow>
          let w' = w\<lparr>sessions := (sessions w)(t := None)\<rparr> in
          (case state_of w k of
             None \<Rightarrow> (Inl no_session, w')
           | Some s \<Rightarrow> (finish_state write s, w'\<lparr>collectors := (collectors w)[k := None]\<rparr>)))"

section \<open>Operation scopes\<close>

text \<open>The outer option is the fuel of the identifier search.\<close>

definition begin_scope ::
    "nat \<Rightarrow> string \<Rightarrow> string \<Rightarrow> bool \<Rightarrow> native_error + ((string \<times> capture_value) list \<times> string list) \<Rightarrow>
     world \<Rightarrow> ((native_error + nat) \<times> world) option" where
  "begin_scope t component name abandonable folded w =
     (case sessions w t of
        None \<Rightarrow> Some (apfst Inr (add_scope inactive w))
      | Some k \<Rightarrow>
          (case state_of w k of
             None \<Rightarrow> Some (apfst Inr (add_scope inactive w))
           | Some s \<Rightarrow>
               map_option (\<lambda>(r, s').
                 case r of
                   Inl e \<Rightarrow> (Inl e, set_state k s' w)
                 | Inr i \<Rightarrow> apfst Inr (add_scope \<lparr>scope_handle = Some (k, i), scope_closed = False,
                                scope_abandonable = abandonable\<rparr> (set_state k s' w)))
                 (begin_active component name folded s)))"

definition scope_at :: "world \<Rightarrow> nat \<Rightarrow> operation_scope option" where
  "scope_at w x = (if x < length (scopes w) then scopes w ! x else None)"

definition handle_of :: "world \<Rightarrow> nat \<Rightarrow> (nat \<times> nat) option" where
  "handle_of w x = Option.bind (scope_at w x) scope_handle"

definition scope_input :: "nat \<Rightarrow> string \<Rightarrow> native_error + (string \<times> capture_value) list \<Rightarrow> world \<Rightarrow> (native_error + unit) \<times> world" where
  "scope_input x name folded w =
     (case handle_of w x of
        None \<Rightarrow> (Inr (), w)
      | Some (k, i) \<Rightarrow> with_collector_mut k (record_input i name folded) w)"

definition persist_collector :: "nat \<Rightarrow> persistence \<Rightarrow> world \<Rightarrow> (native_error + unit) \<times> world" where
  "persist_collector k write w =
     (case state_of w k of
        None \<Rightarrow> (Inl (config_error ''native capture session ended before snapshot persistence''), w)
      | Some s \<Rightarrow> (case persist_provisional write s of (r, s') \<Rightarrow> (r, set_state k s' w)))"

definition has_sidecar :: "bool action" where
  "has_sidecar s = (Inr (ns_sidecar s \<noteq> None), s)"

definition inputs_recorded :: "nat \<Rightarrow> persistence \<Rightarrow> world \<Rightarrow> (native_error + unit) \<times> world" where
  "inputs_recorded x write w =
     (case handle_of w x of
        None \<Rightarrow> (Inr (), w)
      | Some (k, i) \<Rightarrow>
          (case with_collector_mut k has_sidecar w of
             (Inl e, w') \<Rightarrow> (Inl e, w')
           | (Inr sidecar, w') \<Rightarrow> if sidecar then persist_collector k write w' else (Inr (), w')))"

text \<open>\<open>Drop\<close> of a scope; \<open>panicking\<close> is the state of the thread.\<close>

definition drop_scope :: "nat \<Rightarrow> bool \<Rightarrow> world \<Rightarrow> world" where
  "drop_scope x panicking w =
     (case scope_at w x of
        None \<Rightarrow> w
      | Some sc \<Rightarrow>
          remove_scope x
            (if scope_closed sc then w
             else case scope_handle sc of
                    None \<Rightarrow> w
                  | Some (k, i) \<Rightarrow>
                      (case state_of w k of
                         None \<Rightarrow> w
                       | Some s \<Rightarrow> set_state k (drop_operation i (scope_abandonable sc) panicking s) w)))"

text \<open>Completing consumes the scope: it is dropped whatever the result, and a failed completion leaves it open.\<close>

definition complete_scope :: "nat \<Rightarrow> native_terminal \<Rightarrow> persistence \<Rightarrow> bool \<Rightarrow> world \<Rightarrow> (native_error + unit) \<times> world" where
  "complete_scope x t write panicking w =
     (case handle_of w x of
        None \<Rightarrow> (Inr (), drop_scope x panicking w)
      | Some (k, i) \<Rightarrow>
          (case with_collector_mut k (act_bind (complete_operation i t) (\<lambda>_. has_sidecar)) w of
             (Inl (CaptureError kind diagnostic), w') \<Rightarrow> (Inl (CaptureError kind diagnostic), drop_scope x panicking w')
           | (Inl (NativePanic message), w') \<Rightarrow> (Inl (NativePanic message), drop_scope x True w')
           | (Inr sidecar, w') \<Rightarrow>
               apsnd (remove_scope x) (if sidecar then persist_collector k write w' else (Inr (), w'))))"

definition error_scope ::
    "nat \<Rightarrow> string \<Rightarrow> capture_value option \<Rightarrow> persistence \<Rightarrow> bool \<Rightarrow> world \<Rightarrow> (native_error + unit) \<times> world" where
  "error_scope x name v write panicking w =
     (if name = [] then (Inl (config_error ''native declared error name must not be empty''), drop_scope x panicking w)
      else complete_scope x (TError name v) write panicking w)"

definition record_observation :: "nat \<Rightarrow> string \<Rightarrow> capture_value \<Rightarrow> world \<Rightarrow> (native_error + unit) \<times> world" where
  "record_observation t name v w =
     (case sessions w t of None \<Rightarrow> (Inr (), w) | Some k \<Rightarrow> with_collector_mut k (observe name v) w)"

section \<open>Contexts of futures\<close>

definition capture_async_context :: "nat \<Rightarrow> world \<Rightarrow> nat \<times> world" where
  "capture_async_context t w =
     (length (contexts w),
      w\<lparr>contexts := contexts w @ [\<lparr>ctx_collector = sessions w t,
          ctx_operation = Option.bind (Option.bind (sessions w t) (state_of w)) ns_current\<rparr>]\<rparr>)"

definition swap_operation :: "nat option \<Rightarrow> nat option \<Rightarrow> world \<Rightarrow> nat option \<times> world" where
  "swap_operation collector v w =
     (case collector of
        None \<Rightarrow> (None, w)
      | Some k \<Rightarrow>
          (case state_of w k of
             None \<Rightarrow> (None, w)
           | Some s \<Rightarrow> (ns_current s, set_state k (s\<lparr>ns_current := v\<rparr>) w)))"

text \<open>Polling a future of a captured session installs its context; the end of the poll uninstalls it.\<close>

definition install :: "nat \<Rightarrow> nat \<Rightarrow> world \<Rightarrow> world" where
  "install t x w =
     (let c = contexts w ! x;
          w1 = w\<lparr>sessions := (sessions w)(t := ctx_collector c)\<rparr>;
          (previous, w2) = swap_operation (ctx_collector c) (ctx_operation c) w1
      in w2\<lparr>installed := (installed w2)(t := \<lparr>ins_context = x, ins_collector = sessions w t, ins_operation = previous\<rparr> # installed w2 t)\<rparr>)"

definition uninstall :: "nat \<Rightarrow> world \<Rightarrow> world" where
  "uninstall t w =
     (case installed w t of
        [] \<Rightarrow> w
      | ins # outer \<Rightarrow>
          let c = contexts w ! ins_context ins;
              (current, w1) = swap_operation (ctx_collector c) (ins_operation ins) w
          in w1\<lparr>contexts := (contexts w1)[ins_context ins := c\<lparr>ctx_operation := current\<rparr>],
                 sessions := (sessions w1)(t := ins_collector ins),
                 installed := (installed w1)(t := outer)\<rparr>)"

section \<open>Interleavings\<close>

text \<open>
  Any thread may take any step at any time, as far as ownership allows: a scope is used by its owner
  until it is consumed, and a context is installed at most once at a time. Values and folded inputs are
  ordered maps, as their types say.
\<close>

inductive session_step :: "world \<Rightarrow> world \<Rightarrow> bool" where
  step_start: "start_with t c sidecar setups w = (r, w') \<Longrightarrow> session_step w w'"
| step_mark: "session_step w (mark_error t kind diagnostic w)"
| step_finish: "finish t write w = (r, w') \<Longrightarrow> session_step w w'"
| step_begin: "folded_ok folded \<Longrightarrow> begin_scope t component name abandonable folded w = Some (r, w') \<Longrightarrow> session_step w w'"
| step_input: "\<forall>vals. folded = Inr vals \<longrightarrow> (\<forall>kv\<in>set vals. value_ok (snd kv)) \<Longrightarrow>
    scope_input x name folded w = (r, w') \<Longrightarrow> session_step w w'"
| step_inputs: "inputs_recorded x write w = (r, w') \<Longrightarrow> session_step w w'"
| step_drop: "session_step w (drop_scope x panicking w)"
| step_complete: "terminal_ok end_state \<Longrightarrow> complete_scope x end_state write panicking w = (r, w') \<Longrightarrow> session_step w w'"
| step_error: "terminal_ok (TError name v) \<Longrightarrow> error_scope x name v write panicking w = (r, w') \<Longrightarrow> session_step w w'"
| step_observe: "value_ok v \<Longrightarrow> record_observation t name v w = (r, w') \<Longrightarrow> session_step w w'"
| step_context: "capture_async_context t w = (x, w') \<Longrightarrow> session_step w w'"
| step_install: "x < length (contexts w) \<Longrightarrow> ctx_collector (contexts w ! x) \<noteq> None \<Longrightarrow>
    \<forall>t'. \<forall>ins\<in>set (installed w t'). ins_context ins \<noteq> x \<Longrightarrow> session_step w (install t x w)"
| step_uninstall: "session_step w (uninstall t w)"

inductive session_reach :: "world \<Rightarrow> bool" where
  reach_empty: "session_reach empty_world"
| reach_step: "session_reach w \<Longrightarrow> session_step w w' \<Longrightarrow> session_reach w'"

section \<open>Invariant of the handles\<close>

definition valid_index :: "world \<Rightarrow> nat option \<Rightarrow> bool" where
  "valid_index w k \<longleftrightarrow> (\<forall>n. k = Some n \<longrightarrow> n < length (collectors w))"

text \<open>An operation index that is valid for the collector behind a handle, while its session lasts.\<close>

definition valid_pointer :: "world \<Rightarrow> nat option \<Rightarrow> nat option \<Rightarrow> bool" where
  "valid_pointer w k r \<longleftrightarrow> valid_index w k \<and> (\<forall>n s. k = Some n \<longrightarrow> state_of w n = Some s \<longrightarrow> valid_operation s r)"

definition scope_wf :: "world \<Rightarrow> operation_scope \<Rightarrow> bool" where
  "scope_wf w sc \<longleftrightarrow>
     (case scope_handle sc of
        None \<Rightarrow> True
      | Some (k, i) \<Rightarrow> k < length (collectors w) \<and> (\<forall>s. state_of w k = Some s \<longrightarrow> open_operation i s))"

definition installed_wf :: "world \<Rightarrow> installed_context \<Rightarrow> bool" where
  "installed_wf w ins \<longleftrightarrow>
     ins_context ins < length (contexts w) \<and> valid_index w (ins_collector ins) \<and>
     valid_pointer w (ctx_collector (contexts w ! ins_context ins)) (ins_operation ins)"

definition world_inv :: "world \<Rightarrow> bool" where
  "world_inv w \<longleftrightarrow>
     (\<forall>k s. state_of w k = Some s \<longrightarrow> native_inv s) \<and>
     (\<forall>t. valid_index w (sessions w t)) \<and>
     (\<forall>x sc. scope_at w x = Some sc \<longrightarrow> scope_wf w sc) \<and>
     (\<forall>x y h. handle_of w x = Some h \<longrightarrow> handle_of w y = Some h \<longrightarrow> x = y) \<and>
     (\<forall>c\<in>set (contexts w). valid_pointer w (ctx_collector c) (ctx_operation c)) \<and>
     (\<forall>t. \<forall>ins\<in>set (installed w t). installed_wf w ins)"

text \<open>
  A change of the states that the handles do not notice: no collector disappears, finished sessions
  stay finished, and no open operation of a live scope is closed.
\<close>

definition undisturbed :: "(nat \<times> nat) set \<Rightarrow> world \<Rightarrow> world \<Rightarrow> bool" where
  "undisturbed H w w' \<longleftrightarrow>
     length (collectors w) \<le> length (collectors w') \<and>
     (\<forall>k s'. k < length (collectors w) \<longrightarrow> state_of w' k = Some s' \<longrightarrow>
        (\<exists>s. state_of w k = Some s \<and> keeps {i. (k, i) \<in> H} s s'))"

lemma state_of_set [simp]: "state_of (set_state k s w) j = (if j = k \<and> k < length (collectors w) then Some s else state_of w j)"
  by (auto simp: state_of_def set_state_def nth_list_update)

lemma state_of_Some: "state_of w k = Some s \<Longrightarrow> k < length (collectors w)"
  by (auto simp: state_of_def split: if_splits)

lemma set_state_fields [simp]:
  "sessions (set_state k s w) = sessions w" "scopes (set_state k s w) = scopes w" "contexts (set_state k s w) = contexts w"
  "installed (set_state k s w) = installed w" "length (collectors (set_state k s w)) = length (collectors w)"
  by (simp_all add: set_state_def)

lemma keeps_open: "keeps I s s' \<Longrightarrow> open_operation i s \<Longrightarrow> i \<notin> I \<Longrightarrow> open_operation i s'"
  by (auto simp: keeps_def open_operation_def)

lemma keeps_valid: "keeps I s s' \<Longrightarrow> valid_operation s r \<Longrightarrow> valid_operation s' r"
  by (fastforce simp: keeps_def valid_operation_def)

lemma undisturbed_state:
  "undisturbed H w w' \<Longrightarrow> k < length (collectors w) \<Longrightarrow> state_of w' k = Some s' \<Longrightarrow>
   \<exists>s. state_of w k = Some s \<and> keeps {i. (k, i) \<in> H} s s'"
  by (simp add: undisturbed_def)

lemma undisturbed_index: "undisturbed H w w' \<Longrightarrow> valid_index w k \<Longrightarrow> valid_index w' k"
  by (fastforce simp: undisturbed_def valid_index_def)

lemma undisturbed_pointer: "undisturbed H w w' \<Longrightarrow> valid_pointer w k r \<Longrightarrow> valid_pointer w' k r"
  using undisturbed_index [of H w w' k] keeps_valid unfolding valid_pointer_def undisturbed_def valid_index_def by blast

lemma undisturbed_scope:
  assumes "undisturbed H w w'" "scope_wf w sc" "\<And>h. scope_handle sc = Some h \<Longrightarrow> h \<notin> H"
  shows "scope_wf w' sc"
proof (cases "scope_handle sc")
  case (Some h)
  then obtain k i where h: "scope_handle sc = Some (k, i)" by (cases h) simp
  have "k < length (collectors w)" "\<And>s. state_of w k = Some s \<Longrightarrow> open_operation i s" "(k, i) \<notin> H"
    using assms(2,3) h by (auto simp: scope_wf_def)
  moreover have "open_operation i s'" if "state_of w' k = Some s'" for s'
    using undisturbed_state [OF assms(1) calculation(1) that] calculation(2,3) keeps_open by blast
  moreover have "length (collectors w) \<le> length (collectors w')" using assms(1) by (simp add: undisturbed_def)
  ultimately show ?thesis using h by (simp add: scope_wf_def)
qed (simp add: scope_wf_def)

text \<open>The handlers that change states only, or also consume scopes whose operation they close.\<close>

lemma undisturbed_inv:
  assumes w: "world_inv w" and u: "undisturbed H w w'"
    and states: "\<And>k s. state_of w' k = Some s \<Longrightarrow> length (collectors w) \<le> k \<Longrightarrow> native_inv s"
    and same: "contexts w' = contexts w" "installed w' = installed w"
    and sess: "\<And>t. valid_index w' (sessions w' t)"
    and scs: "\<And>x sc. scope_at w' x = Some sc \<Longrightarrow> (scope_at w x = Some sc \<or> scope_at w x = None \<and> scope_wf w' sc)"
    and inj: "\<And>x y h. handle_of w' x = Some h \<Longrightarrow> handle_of w' y = Some h \<Longrightarrow> x = y"
    and gone: "\<And>x h. scope_at w' x \<noteq> None \<Longrightarrow> handle_of w x = Some h \<Longrightarrow> h \<notin> H"
  shows "world_inv w'"
proof -
  have "native_inv s" if "state_of w' k = Some s" for k s
    using that states undisturbed_state [OF u _ that] keeps_inv by (cases "k < length (collectors w)") (auto simp: not_less)
  moreover have "scope_wf w' sc" if sc: "scope_at w' x = Some sc" for x sc
  proof (cases "scope_at w x = Some sc")
    case True
    then have "scope_wf w sc" using w by (auto simp: world_inv_def)
    moreover have "h \<notin> H" if "scope_handle sc = Some h" for h using gone [of x h] sc True that by (simp add: handle_of_def)
    ultimately show ?thesis using undisturbed_scope [OF u] by blast
  qed (use scs sc in blast)
  moreover have "installed_wf w' ins" if "ins \<in> set (installed w' t)" for t ins
    using that w undisturbed_pointer [OF u] undisturbed_index [OF u] same unfolding world_inv_def installed_wf_def by metis
  moreover have "valid_pointer w' (ctx_collector c) (ctx_operation c)" if "c \<in> set (contexts w')" for c
    using that w undisturbed_pointer [OF u] same(1) by (auto simp: world_inv_def)
  ultimately show ?thesis using sess inj unfolding world_inv_def by blast
qed

text \<open>States alone: one collector moves on and closes nothing.\<close>

lemma world_state_inv: "world_inv w \<Longrightarrow> state_of w k = Some s \<Longrightarrow> native_inv s"
  by (auto simp: world_inv_def)

lemma world_handle_unique: "world_inv w \<Longrightarrow> handle_of w x = Some h \<Longrightarrow> handle_of w y = Some h \<Longrightarrow> x = y"
  unfolding world_inv_def by blast

lemma world_handle_open:
  assumes "world_inv w" "handle_of w x = Some (k, i)"
  shows "k < length (collectors w)" "state_of w k = Some s \<Longrightarrow> open_operation i s"
proof -
  obtain sc where "scope_at w x = Some sc" "scope_handle sc = Some (k, i)"
    using assms(2) by (auto simp: handle_of_def bind_eq_Some_conv)
  then have "scope_wf w sc" "scope_handle sc = Some (k, i)" using assms(1) by (auto simp: world_inv_def)
  then show "k < length (collectors w)" "state_of w k = Some s \<Longrightarrow> open_operation i s" by (auto simp: scope_wf_def)
qed

lemma set_state_undisturbed:
  assumes w: "world_inv w" and k: "state_of w k = Some s" "keeps I s s'" and I: "I \<subseteq> {i. (k, i) \<in> H}"
  shows "undisturbed H w (set_state k s' w)"
  unfolding undisturbed_def
proof (intro conjI allI impI)
  fix j s'' assume j: "j < length (collectors w)" "state_of (set_state k s' w) j = Some s''"
  show "\<exists>s. state_of w j = Some s \<and> keeps {i. (j, i) \<in> H} s s''"
  proof (cases "j = k")
    case True
    then show ?thesis using j k keeps_mono [OF k(2) I] by auto
  next
    case False
    then show ?thesis using j keeps_refl world_state_inv [OF w] by auto
  qed
qed simp

lemma set_state_scopes [simp]: "scope_at (set_state k s w) = scope_at w" "handle_of (set_state k s w) = handle_of w"
  by (simp_all add: scope_at_def handle_of_def fun_eq_iff)

lemma set_state_inv:
  assumes w: "world_inv w" and k: "state_of w k = Some s" "keeps {} s s'"
  shows "world_inv (set_state k s' w)"
proof -
  let ?w = "set_state k s' w"
  have u: "undisturbed {} w ?w" using set_state_undisturbed [OF w k] by simp
  show ?thesis
  proof (rule undisturbed_inv [OF w u])
    show "valid_index ?w (sessions ?w t)" for t using w undisturbed_index [OF u] by (simp add: world_inv_def)
    show "x = y" if "handle_of ?w x = Some h" "handle_of ?w y = Some h" for x y h
      using that world_handle_unique [OF w] by simp
    show "native_inv s''" if "state_of ?w j = Some s''" "length (collectors w) \<le> j" for j s''
      using that state_of_Some [of ?w j] by simp
  qed simp_all
qed

lemma remove_scope_at: "scope_at (remove_scope x w) y = (if y = x then None else scope_at w y)"
  by (auto simp: scope_at_def remove_scope_def nth_list_update)

lemma remove_handle_of: "handle_of (remove_scope x w) y = (if y = x then None else handle_of w y)"
  by (simp add: handle_of_def remove_scope_at)

lemma remove_fields [simp]:
  "sessions (remove_scope x w) = sessions w" "contexts (remove_scope x w) = contexts w"
  "installed (remove_scope x w) = installed w" "collectors (remove_scope x w) = collectors w"
  "state_of (remove_scope x w) = state_of w"
  by (simp_all add: remove_scope_def state_of_def fun_eq_iff)

lemma close_scope_inv:
  assumes w: "world_inv w" and h: "handle_of w x = Some (k, i)" and k: "state_of w k = Some s" "keeps {i} s s'"
  shows "world_inv (remove_scope x (set_state k s' w))"
proof -
  let ?w = "remove_scope x (set_state k s' w)"
  have "undisturbed {(k, i)} w (set_state k s' w)" using set_state_undisturbed [OF w k] by simp
  then have u: "undisturbed {(k, i)} w ?w" by (simp add: undisturbed_def)
  have sc: "scope_at ?w y = (if y = x then None else scope_at w y)" for y
    by (simp add: remove_scope_at)
  have hd: "handle_of ?w y = (if y = x then None else handle_of w y)" for y
    by (simp add: remove_handle_of)
  show ?thesis
  proof (rule undisturbed_inv [OF w u])
    show "valid_index ?w (sessions ?w t)" for t using w undisturbed_index [OF u] by (simp add: world_inv_def)
    show "a = b" if "handle_of ?w a = Some j" "handle_of ?w b = Some j" for a b j
      using that world_handle_unique [OF w] unfolding hd by (auto split: if_splits)
    show "native_inv s''" if "state_of ?w j = Some s''" "length (collectors w) \<le> j" for j s''
      using that state_of_Some [of ?w j] by simp
    show "j \<notin> {(k, i)}" if "scope_at ?w y \<noteq> None" "handle_of w y = Some j" for y j
      using that h w unfolding sc world_inv_def by (metis singletonD)
  qed (auto simp: sc split: if_splits)
qed

lemma remove_scope_inv:
  assumes w: "world_inv w"
  shows "world_inv (remove_scope x w)"
proof -
  have "scope_wf (remove_scope x w) sc = scope_wf w sc" for sc by (simp add: scope_wf_def split: option.splits prod.splits)
  with w show ?thesis
    by (auto simp: world_inv_def remove_scope_at remove_handle_of valid_index_def valid_pointer_def installed_wf_def split: if_splits)
qed

section \<open>Every handler keeps the invariant\<close>

context session_action
begin

lemma with_collector_inv:
  assumes "ok" "closes = {}" "world_inv w"
  shows "world_inv (snd (with_collector_mut k act w))"
proof (cases "state_of w k")
  case (Some s)
  then have "keeps {} s (snd (act s))" using act_keeps [OF assms(1) world_state_inv [OF assms(3) Some]] assms(2) by simp
  then show ?thesis
    using set_state_inv [OF assms(3) Some] Some by (cases "act s") (simp add: with_collector_mut_def)
qed (use assms in \<open>simp add: with_collector_mut_def\<close>)

end

interpretation sidecar_action: session_action has_sidecar True "{}"
  by unfold_locales (simp add: has_sidecar_def keeps_refl)

lemma start_with_inv:
  assumes w: "world_inv w" and r: "start_with t c sidecar setups w = (r, w')"
  shows "world_inv w'"
proof (cases "start_state c sidecar setups (sessions w t \<noteq> None)")
  case (Inr s)
  let ?n = "length (collectors w)"
  have w': "w' = w\<lparr>collectors := collectors w @ [Some s], sessions := (sessions w)(t := Some ?n)\<rparr>"
    using r Inr by (simp add: start_with_def)
  have st: "state_of w' k = (if k = ?n then Some s else state_of w k)" for k
    by (auto simp: w' state_of_def nth_append)
  have u: "undisturbed {} w w'"
    unfolding undisturbed_def st using keeps_refl world_state_inv [OF w] by (simp add: w')
  have sc: "scope_at w' = scope_at w" "handle_of w' = handle_of w" by (simp_all add: w' scope_at_def handle_of_def fun_eq_iff)
  show ?thesis
  proof (rule undisturbed_inv [OF w u])
    show "valid_index w' (sessions w' t')" for t'
      using w by (simp add: w' world_inv_def valid_index_def less_Suc_eq)
    show "native_inv s'" if "state_of w' k = Some s'" "length (collectors w) \<le> k" for k s'
      using that start_state_inv(1) [OF Inr] state_of_Some [of w k] by (auto simp: st split: if_splits)
    show "x = y" if "handle_of w' x = Some h" "handle_of w' y = Some h" for x y h
      using that world_handle_unique [OF w] by (simp add: sc)
  qed (simp_all add: sc, simp_all add: w')
qed (use w r in \<open>simp add: start_with_def\<close>)

lemma mark_error_inv: "world_inv w \<Longrightarrow> world_inv (mark_error t kind diagnostic w)"
  using set_state_inv terminal_keeps world_state_inv by (fastforce simp: mark_error_def split: option.splits)

lemma finish_inv:
  assumes w: "world_inv w" and r: "finish t write w = (r, w')"
  shows "world_inv w'"
proof (cases "sessions w t")
  case (Some k)
  have w': "w' = w\<lparr>sessions := (sessions w)(t := None)\<rparr> \<or>
      w' = w\<lparr>sessions := (sessions w)(t := None), collectors := (collectors w)[k := None]\<rparr>"
    using r Some by (auto simp: finish_def Let_def split: option.splits)
  have st: "state_of w j = Some s" if "state_of w' j = Some s" for j s
    using that w' by (cases "k = j") (auto simp: state_of_def split: if_splits)
  have len: "length (collectors w') = length (collectors w)" using w' by auto
  have u: "undisturbed {} w w'"
    unfolding undisturbed_def using st keeps_refl world_state_inv [OF w] len by fastforce
  have rest: "contexts w' = contexts w" "installed w' = installed w" "scopes w' = scopes w" using w' by auto
  then have sc: "scope_at w' = scope_at w" "handle_of w' = handle_of w" by (simp_all add: scope_at_def handle_of_def fun_eq_iff)
  show ?thesis
  proof (rule undisturbed_inv [OF w u])
    show "valid_index w' (sessions w' t')" for t'
      using w w' len by (auto simp: world_inv_def valid_index_def split: if_splits)
    show "native_inv s" if "state_of w' j = Some s" "length (collectors w) \<le> j" for j s
      using st [OF that(1)] world_state_inv [OF w] by blast
    show "x = y" if "handle_of w' x = Some h" "handle_of w' y = Some h" for x y h
      using that world_handle_unique [OF w] by (simp add: sc)
  qed (simp_all add: sc rest)
qed (use w r in \<open>simp add: finish_def\<close>)

lemma scope_input_inv:
  assumes "world_inv w" "\<forall>vals. folded = Inr vals \<longrightarrow> (\<forall>kv\<in>set vals. value_ok (snd kv))"
  shows "world_inv (snd (scope_input x name folded w))"
  using assms input_action.with_collector_inv [of folded w] by (auto simp: scope_input_def split: option.splits)

lemma persist_collector_inv: "world_inv w \<Longrightarrow> world_inv (snd (persist_collector k write w))"
proof (cases "state_of w k")
  case (Some s)
  assume w: "world_inv w"
  have "keeps {} s (snd (persist_provisional write s))" using persist_provisional_keeps world_state_inv [OF w Some] .
  then show ?thesis
    using set_state_inv [OF w Some] Some by (cases "persist_provisional write s") (simp add: persist_collector_def)
qed (simp add: persist_collector_def)

lemma inputs_recorded_inv:
  assumes w: "world_inv w"
  shows "world_inv (snd (inputs_recorded x write w))"
proof (cases "handle_of w x")
  case (Some h)
  obtain k i where h: "h = (k, i)" by fastforce
  obtain r w' where "with_collector_mut k has_sidecar w = (r, w')" by fastforce
  then have "world_inv w'" "with_collector_mut k has_sidecar w = (r, w')"
    using sidecar_action.with_collector_inv [OF _ _ w, of k] by auto
  then show ?thesis
    using Some h persist_collector_inv by (cases r) (auto simp: inputs_recorded_def)
qed (use w in \<open>simp add: inputs_recorded_def\<close>)

lemma record_observation_inv: "world_inv w \<Longrightarrow> value_ok v \<Longrightarrow> world_inv (snd (record_observation t name v w))"
  using observation_action.with_collector_inv [of v w] by (auto simp: record_observation_def split: option.splits)

lemma drop_scope_inv:
  assumes w: "world_inv w"
  shows "world_inv (drop_scope x panicking w)"
proof (cases "scope_at w x")
  case (Some sc)
  show ?thesis
  proof (cases "\<exists>k i s. scope_handle sc = Some (k, i) \<and> state_of w k = Some s \<and> \<not> scope_closed sc")
    case True
    then obtain k i s where ki: "scope_handle sc = Some (k, i)" "state_of w k = Some s" "\<not> scope_closed sc" by blast
    then have h: "handle_of w x = Some (k, i)" using Some by (simp add: handle_of_def)
    have "keeps {i} s (drop_operation i (scope_abandonable sc) panicking s)"
      using drop_operation_keeps [OF world_state_inv [OF w ki(2)] world_handle_open(2) [OF w h ki(2)]] .
    then show ?thesis
      using close_scope_inv [OF w h ki(2)] ki Some by (simp add: drop_scope_def)
  next
    case False
    then have "drop_scope x panicking w = remove_scope x w"
      using Some by (auto simp: drop_scope_def split: option.splits)
    then show ?thesis using remove_scope_inv [OF w] by simp
  qed
qed (use w in \<open>simp add: drop_scope_def\<close>)

lemma set_state_set [simp]: "set_state k s' (set_state k s w) = set_state k s' w"
  by (simp add: set_state_def)

lemma persist_collector_set:
  assumes "native_inv s" "k < length (collectors w)"
  obtains r s' where "persist_collector k write (set_state k s w) = (r, set_state k s' w)" "keeps {} s s'"
proof (cases "persist_provisional write s")
  case (Pair r s')
  then have "persist_collector k write (set_state k s w) = (r, set_state k s' w)"
    using assms(2) by (simp add: persist_collector_def)
  then show ?thesis using that persist_provisional_keeps [OF assms(1), of "write"] Pair by simp
qed

text \<open>
  Completing: the operation behind a live scope is open, so the attempt closes it or fails without
  panic and leaves it open for the drop.
\<close>

lemma live_scope_completes:
  assumes "world_inv w" "terminal_ok t" "handle_of w x = Some (k, i)" "state_of w k = Some s"
  shows "closes_one i s (complete_operation i t s)"
  using complete_operation_closes [OF world_state_inv [OF assms(1,4)] world_handle_open(2) [OF assms(1,3,4)] assms(2)] .

lemma complete_scope_inv:
  assumes w: "world_inv w" and t: "terminal_ok t"
  shows "world_inv (snd (complete_scope x t write panicking w))"
proof (cases "\<exists>k i s. handle_of w x = Some (k, i) \<and> state_of w k = Some s")
  case False
  then show ?thesis
    using drop_scope_inv [OF w] by (auto simp: complete_scope_def with_collector_mut_def config_error_def split: option.splits)
next
  case True
  then obtain k i s where h: "handle_of w x = Some (k, i)" and k: "state_of w k = Some s" by blast
  note c = live_scope_completes [OF w t h k]
  obtain r s' where rs: "complete_operation i t s = (r, s')" by fastforce
  show ?thesis
  proof (cases r)
    case (Inl e)
    have "keeps {} s s'"
      using c rs Inl world_handle_open(2) [OF w h k] by (auto simp: closes_one_def keeps_def open_operation_def)
    then have "world_inv (set_state k s' w)" using set_state_inv [OF w k] by blast
    then show ?thesis
      using h k rs Inl drop_scope_inv by (cases e) (simp_all add: complete_scope_def with_collector_mut_def act_bind_def)
  next
    case (Inr u)
    have s': "keeps {i} s s'" using c rs by (simp add: closes_one_def)
    obtain r2 s2 where p: "persist_collector k write (set_state k s' w) = (r2, set_state k s2 w)" "keeps {} s' s2"
      using persist_collector_set [OF keeps_inv [OF s'] state_of_Some [OF k]] by blast
    then have "keeps {i} s s2" using s' keeps_mono keeps_trans by blast
    then show ?thesis
      using h k rs Inr p s' close_scope_inv [OF w h k]
      by (auto simp: complete_scope_def with_collector_mut_def act_bind_def has_sidecar_def)
  qed
qed

lemma error_scope_inv:
  "world_inv w \<Longrightarrow> terminal_ok (TError name v) \<Longrightarrow> world_inv (snd (error_scope x name v write panicking w))"
  by (simp add: error_scope_def drop_scope_inv complete_scope_inv)

lemma add_scope_inv:
  assumes w: "world_inv w" and sc: "scope_wf w sc" "\<And>x h. scope_handle sc = Some h \<Longrightarrow> handle_of w x \<noteq> Some h"
  shows "world_inv (snd (add_scope sc w))"
proof -
  let ?w = "snd (add_scope sc w)"
  have at: "scope_at ?w x = (if x = length (scopes w) then Some sc else scope_at w x)" for x
    by (auto simp: scope_at_def add_scope_def nth_append)
  have hd: "handle_of ?w x = (if x = length (scopes w) then scope_handle sc else handle_of w x)" for x
    by (simp add: handle_of_def at)
  have st: "state_of ?w = state_of w" by (simp add: state_of_def add_scope_def fun_eq_iff)
  have wf: "scope_wf ?w sc" "scope_at w (length (scopes w)) = None"
    using sc(1) by (auto simp: scope_wf_def st scope_at_def split: option.splits) (simp add: add_scope_def)
  have u: "undisturbed {} w ?w"
    unfolding undisturbed_def st using keeps_refl world_state_inv [OF w] by (auto simp: add_scope_def)
  show ?thesis
  proof (rule undisturbed_inv [OF w u])
    show "valid_index ?w (sessions ?w t)" for t using w by (simp add: add_scope_def world_inv_def valid_index_def)
    show "native_inv s" if "state_of ?w k = Some s" "length (collectors w) \<le> k" for k s
      using that world_state_inv [OF w] by (simp add: st)
    show "x = y" if "handle_of ?w x = Some h" "handle_of ?w y = Some h" for x y h
      using that sc(2) world_handle_unique [OF w] unfolding hd by (auto split: if_splits)
    show "scope_at w x = Some sc' \<or> scope_at w x = None \<and> scope_wf ?w sc'" if "scope_at ?w x = Some sc'" for x sc'
      using that wf unfolding at by (auto split: if_splits)
  qed (simp_all add: add_scope_def)
qed

text \<open>Beginning returns within the fuel, never panics, and a new scope owns a new open operation.\<close>

lemma begin_scope_result:
  assumes w: "world_inv w" and f: "folded_ok folded"
  obtains r w' where "begin_scope t component name abandonable folded w = Some (r, w')" "world_inv w'" "no_native_panic r"
proof (cases "\<exists>k s. sessions w t = Some k \<and> state_of w k = Some s")
  case False
  have "world_inv (snd (add_scope inactive w))" by (rule add_scope_inv [OF w]) (simp_all add: scope_wf_def inactive_def)
  moreover have "begin_scope t component name abandonable folded w = Some (Inr (fst (add_scope inactive w)), snd (add_scope inactive w))"
    using False by (auto simp: begin_scope_def apfst_def map_prod_def split: option.splits prod.splits)
  ultimately show ?thesis using that by (simp add: no_native_panic_def)
next
  case True
  then obtain k s where k: "sessions w t = Some k" "state_of w k = Some s" by blast
  show ?thesis
  proof (cases rule: begin_active_result [OF world_state_inv [OF w k(2)] f, of component name])
    case (1 kind diagnostic s')
    then show ?thesis
      using that set_state_inv [OF w k(2) 1(2)] k by (auto simp: begin_scope_def no_native_panic_def)
  next
    case (2 s')
    let ?n = "length (ns_operations s)"
    let ?sc = "\<lparr>scope_handle = Some (k, ?n), scope_closed = False, scope_abandonable = abandonable\<rparr>"
    note w' = set_state_inv [OF w k(2) 2(2)]
    have "handle_of w x \<noteq> Some (k, ?n)" for x using world_handle_open(2) [OF w _ k(2), of x ?n] by (auto simp: open_operation_def)
    then have "world_inv (snd (add_scope ?sc (set_state k s' w)))"
      using 2(3) state_of_Some [OF k(2)] by (intro add_scope_inv [OF w']) (auto simp: scope_wf_def)
    then show ?thesis
      using that k 2(1) by (cases "add_scope ?sc (set_state k s' w)") (auto simp: begin_scope_def no_native_panic_def)
  qed
qed

text \<open>Contexts: the slots, contexts and installed contexts change, the scopes do not.\<close>

lemma handles_inv:
  assumes w: "world_inv w" and same: "collectors w' = collectors w" "scopes w' = scopes w"
    and sess: "\<And>t. valid_index w (sessions w' t)"
    and ctx: "\<And>c. c \<in> set (contexts w') \<Longrightarrow> valid_pointer w (ctx_collector c) (ctx_operation c)"
    and ins: "\<And>t ins. ins \<in> set (installed w' t) \<Longrightarrow> ins_context ins < length (contexts w') \<and> valid_index w (ins_collector ins) \<and>
      valid_pointer w (ctx_collector (contexts w' ! ins_context ins)) (ins_operation ins)"
  shows "world_inv w'"
proof -
  have eqs: "state_of w' = state_of w" "scope_at w' = scope_at w" "handle_of w' = handle_of w"
    using same by (simp_all add: state_of_def scope_at_def handle_of_def fun_eq_iff)
  then have "valid_index w' = valid_index w" "valid_pointer w' = valid_pointer w" "scope_wf w' = scope_wf w"
    using same by (simp_all add: valid_index_def valid_pointer_def scope_wf_def fun_eq_iff split: option.splits)
  with eqs w sess ctx ins show ?thesis unfolding world_inv_def installed_wf_def by metis
qed

lemma current_valid: "world_inv w \<Longrightarrow> state_of w k = Some s \<Longrightarrow> valid_operation s (ns_current s)"
  using world_state_inv by (auto simp: native_inv_def id_inv_def)

lemma world_pointers:
  assumes "world_inv w"
  shows "valid_index w (sessions w t)"
    "c \<in> set (contexts w) \<Longrightarrow> valid_pointer w (ctx_collector c) (ctx_operation c)"
    "ins \<in> set (installed w t) \<Longrightarrow> installed_wf w ins"
  using assms by (auto simp: world_inv_def)

lemma capture_async_context_inv:
  assumes w: "world_inv w"
  shows "world_inv (snd (capture_async_context t w))"
proof (rule handles_inv [OF w])
  let ?w = "snd (capture_async_context t w)"
  show "valid_pointer w (ctx_collector c) (ctx_operation c)" if "c \<in> set (contexts ?w)" for c
    using that world_pointers(1,2) [OF w] current_valid [OF w] by (auto simp: capture_async_context_def valid_pointer_def)
  show "ins_context ins < length (contexts ?w) \<and> valid_index w (ins_collector ins) \<and>
      valid_pointer w (ctx_collector (contexts ?w ! ins_context ins)) (ins_operation ins)" if "ins \<in> set (installed ?w t')" for t' ins
    using that world_pointers(3) [OF w, of ins t'] by (auto simp: capture_async_context_def installed_wf_def nth_append)
qed (use world_pointers(1) [OF w] in \<open>simp_all add: capture_async_context_def\<close>)

lemma swap_operation_result:
  assumes w: "world_inv w" and v: "valid_pointer w k v"
  obtains previous w' where "swap_operation k v w = (previous, w')" "world_inv w'" "undisturbed {} w w'"
    "contexts w' = contexts w" "installed w' = installed w" "sessions w' = sessions w" "valid_pointer w' k previous"
proof (cases "\<exists>n s. k = Some n \<and> state_of w n = Some s")
  case False
  then have "swap_operation k v w = (None, w)" by (auto simp: swap_operation_def split: option.splits)
  moreover have "undisturbed {} w w" using keeps_refl world_state_inv [OF w] by (simp add: undisturbed_def)
  moreover have "valid_pointer w k None" using v by (auto simp: valid_pointer_def valid_operation_def)
  ultimately show ?thesis using that [of None w] w by blast
next
  case True
  then obtain n s where n: "k = Some n" "state_of w n = Some s" by blast
  let ?s = "s\<lparr>ns_current := v\<rparr>"
  have keep: "keeps {} s ?s"
    using current_keeps [OF world_state_inv [OF w n(2)]] v n by (simp add: valid_pointer_def)
  have u: "undisturbed {} w (set_state n ?s w)" using set_state_undisturbed [OF w n(2) keep] by simp
  have "valid_pointer w k (ns_current s)"
    using v n current_valid [OF w n(2)] by (simp add: valid_pointer_def)
  then show ?thesis
    using that [of "ns_current s" "set_state n ?s w"] n set_state_inv [OF w n(2) keep] u undisturbed_pointer [OF u]
    by (simp add: swap_operation_def)
qed

lemma install_inv:
  assumes w: "world_inv w" and x: "x < length (contexts w)"
  shows "world_inv (install t x w)"
proof -
  let ?c = "contexts w ! x"
  let ?w1 = "w\<lparr>sessions := (sessions w)(t := ctx_collector ?c)\<rparr>"
  have c: "valid_pointer w (ctx_collector ?c) (ctx_operation ?c)" using world_pointers(2) [OF w] x by simp
  then have "valid_index w (ctx_collector ?c)" by (simp add: valid_pointer_def)
  then have w1: "world_inv ?w1"
    using world_pointers [OF w] by (intro handles_inv [OF w]) (auto simp: installed_wf_def)
  have "valid_pointer ?w1 (ctx_collector ?c) (ctx_operation ?c)"
    using c by (simp add: valid_pointer_def valid_index_def state_of_def)
  then obtain previous w2 where sw: "swap_operation (ctx_collector ?c) (ctx_operation ?c) ?w1 = (previous, w2)" "world_inv w2"
    "undisturbed {} ?w1 w2" "contexts w2 = contexts w" "installed w2 = installed w" "sessions w2 = sessions ?w1"
    "valid_pointer w2 (ctx_collector ?c) previous"
    by (rule swap_operation_result [OF w1]) auto
  have "valid_index ?w1 (sessions w t)" using world_pointers(1) [OF w, of t] by (simp add: valid_index_def)
  then have s: "valid_index w2 (sessions w t)" using undisturbed_index [OF sw(3)] by blast
  show ?thesis
    unfolding install_def Let_def sw(1) prod.case
    using world_pointers [OF sw(2)] sw(4-7) s x
    by (intro handles_inv [OF sw(2)]) (auto simp: installed_wf_def split: if_splits)
qed

lemma uninstall_inv:
  assumes w: "world_inv w"
  shows "world_inv (uninstall t w)"
proof (cases "installed w t")
  case (Cons ins outer)
  let ?x = "ins_context ins"
  let ?c = "contexts w ! ?x"
  have i: "?x < length (contexts w)" "valid_index w (ins_collector ins)" "valid_pointer w (ctx_collector ?c) (ins_operation ins)"
    using world_pointers(3) [OF w, of ins t] Cons by (simp_all add: installed_wf_def)
  obtain current w1 where sw: "swap_operation (ctx_collector ?c) (ins_operation ins) w = (current, w1)" "world_inv w1"
    "undisturbed {} w w1" "contexts w1 = contexts w" "installed w1 = installed w" "sessions w1 = sessions w"
    "valid_pointer w1 (ctx_collector ?c) current"
    using i(3) by (rule swap_operation_result [OF w])
  let ?cs = "(contexts w)[?x := ?c\<lparr>ctx_operation := current\<rparr>]"
  have cs: "ctx_collector (?cs ! y) = ctx_collector (contexts w ! y)" if "y < length (contexts w)" for y
    using that i(1) by (cases "y = ?x") auto
  have "valid_pointer w1 (ctx_collector d) (ctx_operation d)" if "d \<in> set ?cs" for d
    using that set_update_subset_insert [of "contexts w" ?x] world_pointers(2) [OF sw(2)] sw(4,7) by fastforce
  moreover have "set (installed w1 t') \<supseteq> set (((installed w1)(t := outer)) t')" for t' using Cons sw(5) by auto
  ultimately show ?thesis
    using Cons sw(1,4-6) undisturbed_index [OF sw(3) i(2)] world_pointers(1,3) [OF sw(2)] cs
    unfolding uninstall_def Cons list.case Let_def sw(1) prod.case
    by (intro handles_inv [OF sw(2)]) (fastforce simp: installed_wf_def)+
qed (use w in \<open>simp add: uninstall_def\<close>)

lemma empty_world_inv: "world_inv empty_world"
  by (simp add: world_inv_def empty_world_def state_of_def scope_at_def handle_of_def valid_index_def)

lemma session_step_inv: "session_step w w' \<Longrightarrow> world_inv w \<Longrightarrow> world_inv w'"
proof (induction rule: session_step.induct)
  case (step_start t c sidecar setups w r w')
  then show ?case using start_with_inv by blast
next
  case (step_finish t "write" w r w')
  then show ?case using finish_inv by blast
next
  case (step_begin folded t component name abandonable w r w')
  then show ?case by (metis begin_scope_result option.inject prod.inject)
next
  case (step_input folded x name w r w')
  then show ?case using scope_input_inv [of w folded x name] by simp
next
  case (step_inputs x "write" w r w')
  then show ?case using inputs_recorded_inv [of w x "write"] by simp
next
  case (step_complete end_state x "write" panicking w r w')
  then show ?case using complete_scope_inv [of w end_state x "write" panicking] by simp
next
  case (step_error name v x "write" panicking w r w')
  then show ?case using error_scope_inv [of w name v x "write" panicking] by simp
next
  case (step_observe v t name w r w')
  then show ?case using record_observation_inv [of w v t name] by simp
next
  case (step_context t w x w')
  then show ?case using capture_async_context_inv [of w t] by simp
qed (auto intro: mark_error_inv drop_scope_inv install_inv uninstall_inv)

lemma session_reach_inv: "session_reach w \<Longrightarrow> world_inv w"
  by (induction rule: session_reach.induct) (auto intro: empty_world_inv session_step_inv)

section \<open>No panics\<close>

lemma persist_collector_no_panic:
  "world_inv w \<Longrightarrow> no_native_panic (fst (persist_collector k write w))"
proof (cases "state_of w k")
  case (Some s)
  assume "world_inv w"
  from persist_provisional_no_panic [OF world_state_inv [OF this Some], of "write"] Some show ?thesis
    by (cases "persist_provisional write s") (simp add: persist_collector_def)
qed (simp add: persist_collector_def no_native_panic_def config_error_def)

lemma complete_scope_no_panic:
  assumes w: "world_inv w" and t: "terminal_ok t"
  shows "no_native_panic (fst (complete_scope x t write panicking w))"
proof (cases "\<exists>k i s. handle_of w x = Some (k, i) \<and> state_of w k = Some s")
  case False
  then show ?thesis
    by (auto simp: complete_scope_def with_collector_mut_def config_error_def no_native_panic_def split: option.splits)
next
  case True
  then obtain k i s where h: "handle_of w x = Some (k, i)" and k: "state_of w k = Some s" by blast
  note c = live_scope_completes [OF w t h k]
  obtain r s' where rs: "complete_operation i t s = (r, s')" by fastforce
  show ?thesis
  proof (cases r)
    case (Inl e)
    then show ?thesis
      using h k rs c by (cases e) (simp_all add: complete_scope_def with_collector_mut_def act_bind_def closes_one_def no_native_panic_def)
  next
    case (Inr u)
    have s': "native_inv s'" using c rs keeps_inv by (auto simp: closes_one_def)
    from persist_provisional_no_panic [OF s', of "write"] h k rs Inr state_of_Some [OF k] show ?thesis
      by (cases "persist_provisional write s'")
         (auto simp: complete_scope_def with_collector_mut_def act_bind_def has_sidecar_def persist_collector_def no_native_panic_def)
  qed
qed

lemma finish_no_panic:
  "world_inv w \<Longrightarrow> sessions w t = Some k \<Longrightarrow> state_of w k = Some s \<Longrightarrow> no_native_panic (fst (finish t write w))"
  using finish_state_no_panic world_state_inv by (simp add: finish_def)

lemma finish_recorded:
  assumes "world_inv w" "fst (finish t write w) = Inr c"
  shows "recorded c"
proof -
  obtain k s where "sessions w t = Some k" "state_of w k = Some s" "finish_state write s = Inr c"
    using assms(2) by (auto simp: finish_def Let_def split: option.splits)
  then show ?thesis using finish_state_recorded world_state_inv [OF assms(1)] by blast
qed

end
