(* ===== verification/Ctsc_Selected.thy ===== *)
theory Ctsc_Selected
  imports Ctsc_Captured
begin

text \<open>
  Selecting the scenarios of a component (\<open>specgate-cli/src/capture/filter.rs\<close>) and encoding what was
  selected. The selection of recorded captures is the set of whole subtrees under the component's
  top-level operations, it is recorded evidence again, and the encoder accepts it within the bounds of
  its integers.
\<close>

section \<open>Selection\<close>

definition top_level :: "string \<Rightarrow> capture \<Rightarrow> operation list" where
  "top_level component c =
     filter (\<lambda>op. operation_parent op = boundary_id (scenario c) \<and> component_id op = component) (operations c)"

fun retain_children :: "string set \<Rightarrow> operation list \<Rightarrow> string set" where
  "retain_children retained [] = retained"
| "retain_children retained (op # ops) =
     retain_children (if operation_parent op \<in> retained then insert (operation_id op) retained else retained) ops"

definition filter_capture :: "string \<Rightarrow> capture \<Rightarrow> capture option" where
  "filter_capture component c =
     (let retained = operation_id ` set (top_level component c) in
      if retained = {} then None
      else let all = retain_children retained (operations c) in
           Some (c\<lparr>operations := filter (\<lambda>op. operation_id op \<in> all) (operations c)\<rparr>))"

definition filter_captures :: "capture list \<Rightarrow> string \<Rightarrow> capture list" where
  "filter_captures captures component = List.map_filter (filter_capture component) captures"

section \<open>The retained subtrees\<close>

definition parent_links :: "operation list \<Rightarrow> (string \<times> string) set" where
  "parent_links ops = {(operation_id op, operation_parent op) | op. op \<in> set ops}"

lemma retain_mono: "retained \<subseteq> retain_children retained ops"
  by (induction retained ops rule: retain_children.induct) (auto split: if_splits)

lemma retain_range: "retain_children retained ops \<subseteq> retained \<union> operation_id ` set ops"
  by (induction retained ops rule: retain_children.induct) (auto split: if_splits)

lemma retain_reaches:
  "set ops \<subseteq> set all \<Longrightarrow> x \<in> retain_children retained ops \<Longrightarrow> \<exists>y\<in>retained. (x, y) \<in> (parent_links all)\<^sup>*"
proof (induction retained ops arbitrary: x rule: retain_children.induct)
  case (2 retained op ops)
  from 2 obtain y where y: "y \<in> (if operation_parent op \<in> retained then insert (operation_id op) retained else retained)"
    "(x, y) \<in> (parent_links all)\<^sup>*" by auto
  moreover have "(operation_id op, operation_parent op) \<in> parent_links all"
    using 2(2) by (auto simp: parent_links_def)
  ultimately show ?case by (metis insertE rtrancl.rtrancl_into_rtrancl)
qed auto

text \<open>An identifier that is settled before the pass reaches it stays as it is.\<close>

lemma retain_settled: "x \<notin> operation_id ` set ops \<Longrightarrow> x \<in> retain_children retained ops \<longleftrightarrow> x \<in> retained"
  using retain_range [of retained ops] retain_mono [of retained ops] by auto

lemma retain_closed:
  "parents_first seen ops \<Longrightarrow> distinct (map operation_id ops) \<Longrightarrow> seen \<inter> operation_id ` set ops = {} \<Longrightarrow>
   op \<in> set ops \<Longrightarrow> operation_parent op \<in> retain_children retained ops \<Longrightarrow> operation_id op \<in> retain_children retained ops"
proof (induction retained ops arbitrary: seen rule: retain_children.induct)
  case (2 retained first ops)
  let ?r = "if operation_parent first \<in> retained then insert (operation_id first) retained else retained"
  show ?case
  proof (cases "op = first")
    case True
    then have "operation_parent op \<in> seen" using 2(2) by simp
    then have "operation_parent op \<notin> operation_id ` set ops" "operation_parent op \<noteq> operation_id first" using 2(4) by auto
    then have "operation_parent op \<in> retained" using 2(6) retain_settled [of _ ops ?r] by (auto split: if_splits)
    then show ?thesis using True retain_mono [of ?r ops] by auto
  next
    case False
    then show ?thesis using 2(1) [of "insert (operation_id first) seen"] 2(2-6) by auto
  qed
qed simp

lemma retain_exact:
  assumes "parents_first {root} ops" "distinct (map operation_id ops)" "root \<notin> operation_id ` set ops"
  shows "retain_children retained ops = {x. \<exists>y\<in>retained. (x, y) \<in> (parent_links ops)\<^sup>*}"
proof (intro equalityI subsetI)
  fix x assume "x \<in> {x. \<exists>y\<in>retained. (x, y) \<in> (parent_links ops)\<^sup>*}"
  then obtain y where y: "y \<in> retained" "(x, y) \<in> (parent_links ops)\<^sup>*" by blast
  from y(2) show "x \<in> retain_children retained ops"
  proof (induction rule: converse_rtrancl_induct)
    case base
    then show ?case using y(1) retain_mono by blast
  next
    case (step x z)
    then show ?case using retain_closed [OF assms(1,2)] assms(3) by (auto simp: parent_links_def)
  qed
qed (use retain_reaches [of ops ops] in blast)

lemma retain_parent:
  assumes "distinct (map operation_id ops)" "op \<in> set ops" "operation_id op \<in> retain_children retained ops"
  shows "operation_id op \<in> retained \<or> operation_parent op \<in> retain_children retained ops"
  using assms
proof (induction retained ops rule: retain_children.induct)
  case (2 retained first ops)
  let ?r = "if operation_parent first \<in> retained then insert (operation_id first) retained else retained"
  show ?case
  proof (cases "op = first")
    case True
    then have "operation_id op \<notin> operation_id ` set ops" using 2(2) by auto
    then have "operation_id op \<in> ?r" using 2(4) retain_settled [of _ ops ?r] by simp
    then show ?thesis using True retain_mono [of ?r ops] by (auto split: if_splits)
  next
    case False
    then have "operation_id op \<in> ?r \<or> operation_parent op \<in> retain_children ?r ops" using 2 by auto
    moreover have "operation_id op \<noteq> operation_id first" using 2(2,3) False by (auto intro: rev_image_eqI)
    ultimately show ?thesis by (auto split: if_splits)
  qed
qed simp

section \<open>Selected evidence is recorded evidence\<close>

lemma parents_first_filter:
  "parents_first seen ops \<Longrightarrow> \<forall>op\<in>set ops. operation_id op \<in> kept \<longrightarrow> operation_parent op \<in> insert root kept \<Longrightarrow>
   parents_first (insert root (seen \<inter> kept)) (filter (\<lambda>op. operation_id op \<in> kept) ops)"
proof (induction ops arbitrary: seen)
  case (Cons op ops)
  have eq: "operation_id op \<in> kept \<Longrightarrow> insert (operation_id op) (insert root (seen \<inter> kept)) = insert root (insert (operation_id op) seen \<inter> kept)"
    "operation_id op \<notin> kept \<Longrightarrow> insert (operation_id op) seen \<inter> kept = seen \<inter> kept" by auto
  have "parents_first (insert root (insert (operation_id op) seen \<inter> kept)) (filter (\<lambda>op. operation_id op \<in> kept) ops)"
    using Cons by simp
  then show ?case using Cons.prems eq by auto
qed simp

lemma chronological_filter:
  assumes "chronological (concat (map f xs))"
  shows "chronological (concat (map f (filter P xs)))"
proof -
  have "distinct (map fst (concat (map f ys))) \<Longrightarrow> distinct (map fst (concat (map f (filter P ys))))" for ys
    by (induction ys) auto
  moreover have "set (concat (map f (filter P xs))) \<subseteq> set (concat (map f xs))" by auto
  ultimately show ?thesis using assms unfolding chronological_def by blast
qed

lemma filter_capture_Some:
  assumes "filter_capture component c = Some c'"
  shows "c' = c\<lparr>operations := filter (\<lambda>op. operation_id op \<in> retain_children (operation_id ` set (top_level component c)) (operations c))
      (operations c)\<rparr>"
    "top_level component c \<noteq> []"
  using assms by (auto simp: filter_capture_def Let_def split: if_splits)

lemma filter_capture_recorded:
  assumes c: "recorded_tree c" and f: "filter_capture component c = Some c'"
  shows "recorded_tree c'" "scenario c' = scenario c" "length (operations c') \<le> length (operations c)"
proof -
  let ?top = "operation_id ` set (top_level component c)"
  let ?kept = "retain_children ?top (operations c)"
  let ?root = "boundary_id (scenario c)"
  note c' = filter_capture_Some(1) [OF f]
  have d: "distinct (map operation_id (operations c))" "?root \<notin> operation_id ` set (operations c)"
    "parents_first {?root} (operations c)"
    using c by (auto simp: recorded_tree_def)
  have "operation_parent op \<in> insert ?root ?kept" if "op \<in> set (operations c)" "operation_id op \<in> ?kept" for op
  proof (cases "operation_id op \<in> ?top")
    case True
    then obtain op' where "op' \<in> set (operations c)" "operation_id op' = operation_id op" "operation_parent op' = ?root"
      by (auto simp: top_level_def)
    then show ?thesis using d(1) that(1) by (auto simp: distinct_map inj_on_def)
  next
    case False
    then show ?thesis using retain_parent [OF d(1) that] by blast
  qed
  then have "parents_first (insert ?root ({?root} \<inter> ?kept)) (filter (\<lambda>op. operation_id op \<in> ?kept) (operations c))"
    using parents_first_filter [OF d(3)] by blast
  moreover have "insert ?root ({?root} \<inter> ?kept) = {?root}" by auto
  ultimately have "parents_first {?root} (filter (\<lambda>op. operation_id op \<in> ?kept) (operations c))" by simp
  then show "recorded_tree c'"
    using c chronological_filter distinct_filter d
    by (auto simp: c' recorded_tree_def distinct_map inj_on_def)
  show "scenario c' = scenario c" "length (operations c') \<le> length (operations c)" by (simp_all add: c')
qed

section \<open>The encoder accepts recorded evidence\<close>

definition succeeds :: "'e + 'a \<Rightarrow> bool" where
  "succeeds r \<longleftrightarrow> (\<exists>x. r = Inr x)"

lemma succeeds_Inr [simp]: "succeeds (Inr x)"
  by (simp add: succeeds_def)

lemma succeeds_and_then: "succeeds r \<Longrightarrow> (\<And>x. r = Inr x \<Longrightarrow> succeeds (f x)) \<Longrightarrow> succeeds (and_then r f)"
  by (auto simp: succeeds_def)

lemma succeeds_map_result: "(\<And>x. x \<in> set xs \<Longrightarrow> succeeds (f x)) \<Longrightarrow> succeeds (map_result f xs)"
  by (induction xs) (auto intro!: succeeds_and_then)

lemma succeeds_i64: "- (2 ^ 63) \<le> i \<Longrightarrow> i < 2 ^ 63 \<Longrightarrow> succeeds (or_error msg (i64_checked i))"
  by (simp add: succeeds_def or_error_Inr i64_checked_def)

lemma succeeds_nanos: "0 \<le> sint t \<Longrightarrow> succeeds (unix_nanos t)"
  by (simp add: succeeds_def unix_nanos_Inr)

lemma succeeds_offset: "0 \<le> sint t + sint offset \<Longrightarrow> sint t + sint offset < 2 ^ 63 \<Longrightarrow> succeeds (offset_nanos t offset)"
  unfolding offset_nanos_def
proof (intro succeeds_and_then)
  assume b: "0 \<le> sint t + sint offset" "sint t + sint offset < 2 ^ 63"
  then show "succeeds (offset_time t offset)" unfolding offset_time_def by (intro succeeds_i64) auto
  show "succeeds (unix_nanos x)" if "offset_time t offset = Inr x" for x
    using offset_time_Inr [OF that] b by (intro succeeds_nanos) simp
qed

lemma hex_wire_id: "id_ok 32 trace \<Longrightarrow> hex_wire 32 trace = Inr trace"
  using lower_hex_normal by (auto simp: id_ok_def hex_wire_def list_all_iff)

lemma operation_span_succeeds:
  assumes "\<forall>t\<in>set (times_of op). 0 \<le> sint t + sint (place_offset place) \<and> sint t + sint (place_offset place) < 2 ^ 63"
    "id_ok 32 trace"
  shows "succeeds (operation_span trace op place)"
proof -
  have "succeeds (observation_event (place_offset place) obs)" if "obs \<in> set (observations op)" for obs
    unfolding observation_event_def
    using that assms(1) by (intro succeeds_and_then succeeds_offset) (auto simp: times_of_def)
  moreover have "succeeds (completion_event (place_offset place) c)" if "completed op = Some c" for c
  proof -
    obtain order t name attrs where c: "completion_parts c = (order, t, name, attrs)" by (metis prod_cases4)
    then have "t \<in> set (times_of op)" using that by (simp add: times_of_def completion_time_def)
    then show ?thesis
      unfolding completion_event_def c prod.case using assms(1) by (intro succeeds_and_then succeeds_offset) auto
  qed
  ultimately have "succeeds (operation_events (place_offset place) op)"
    unfolding operation_events_def by (intro succeeds_and_then succeeds_map_result) (auto split: option.splits)
  then show ?thesis
    unfolding operation_span_def hex_wire_id [OF assms(2)] using assms(1)
    by (intro succeeds_and_then succeeds_offset) (auto simp: times_of_def)
qed

lemma next_id_succeeds: "uint n + 1 < 2 ^ 64 \<Longrightarrow> succeeds (next_id n)"
  by (simp add: succeeds_def next_id_def)

lemma allocate_ids_succeeds:
  "n \<noteq> 0 \<Longrightarrow> uint n + int (length ops) < 2 ^ 64 \<Longrightarrow> distinct (map operation_id ops) \<Longrightarrow>
   dom (map_of ids) \<inter> operation_id ` set ops = {} \<Longrightarrow> succeeds (allocate_ids name n ids ops)"
proof (induction ops arbitrary: n ids)
  case (Cons op ops)
  have new: "map_of ids (operation_id op) = None" using Cons.prems(4) by auto
  have "succeeds (allocate_ids name m (bt_insert (operation_id op) s ids) ops)" if "next_id n = Inr m" for s m
  proof -
    have "dom (map_of (bt_insert (operation_id op) s ids)) = insert (operation_id op) (dom (map_of ids))"
      by (simp add: map_of_bt_insert)
    then show ?thesis using Cons.prems next_id_uint [OF that] next_id_nonzero [OF that] by (intro Cons.IH) simp_all
  qed
  moreover have "succeeds (checked_id n)" using Cons.prems(1) by (simp add: succeeds_def checked_id_Inr)
  moreover have "succeeds (next_id n)" using Cons.prems(2) by (intro next_id_succeeds) simp
  ultimately show ?case using new by (auto intro!: succeeds_and_then)
qed simp

text \<open>The length of a scenario on the encoder's clock.\<close>

definition duration :: "capture \<Rightarrow> int" where
  "duration c = sint (boundary_end (scenario c)) - sint (boundary_start (scenario c))"

lemma recorded_duration: "recorded_tree c \<Longrightarrow> 0 < duration c"
  by (simp add: recorded_tree_def duration_def)

lemma recorded_times:
  assumes "recorded_tree c" "op \<in> set (operations c)" "t \<in> set (times_of op)"
  shows "sint (boundary_start (scenario c)) < sint t \<and> sint t < sint (boundary_end (scenario c))"
proof -
  let ?from = "boundary_start (scenario c)"
  let ?until = "boundary_end (scenario c)"
  have r: "recorded_operation ?from ?until op" using assms(1,2) by (simp add: recorded_tree_def)
  then have ends: "sint ?from < sint (operation_start op)" "sint (operation_start op) < sint (operation_end op)"
    "sint (operation_end op) < sint ?until"
    by (simp_all add: recorded_operation_def closed_properly_def)
  consider "t = operation_start op \<or> t = operation_end op" | obs where "obs \<in> set (observations op)" "t = obs_time obs"
    | x where "completed op = Some x" "t = completion_time x"
    using assms(3) by (cases "completed op") (auto simp: times_of_def)
  then show ?thesis
  proof cases
    case 2
    then have "sint (operation_start op) < sint t \<and> sint t < sint ?until" using r by (simp add: recorded_operation_def)
    then show ?thesis using ends by simp
  next
    case 3
    then have "sint (operation_start op) < sint t \<and> sint t < sint (operation_end op)"
      using r by (simp add: recorded_operation_def closed_properly_def)
    then show ?thesis using ends by simp
  qed (use ends in auto)
qed

lemma recorded_parent_known:
  assumes "recorded_tree c" "op \<in> set (operations c)"
  shows "operation_parent op = boundary_id (scenario c) \<or> operation_parent op \<in> operation_id ` set (operations c)"
proof -
  obtain i where i: "i < length (operations c)" "op = operations c ! i" using assms(2) by (metis in_set_conv_nth)
  then have "operation_parent op \<in> {boundary_id (scenario c)} \<union> operation_id ` set (take i (operations c))"
    using assms(1) by (simp add: recorded_tree_def parents_first_nth)
  then show ?thesis using set_take_subset by fastforce
qed

lemma place_operation_succeeds:
  assumes c: "recorded_tree c" and op: "op \<in> set (operations c)" and ids: "dom (map_of ids) = operation_id ` set (operations c)"
    and t: "0 \<le> sint starts" "sint starts + duration c < 2 ^ 63" "sint offset = sint starts - sint (boundary_start (scenario c))"
    and trace: "id_ok 32 trace"
  shows "succeeds (place_operation c sid ids trace offset op)"
proof -
  obtain own where own: "map_of ids (operation_id op) = Some own" using ids op by blast
  have "succeeds (if operation_parent op = boundary_id (scenario c) then Inr sid else or_error msg (map_of ids (operation_parent op)))" for msg
    using recorded_parent_known [OF c op] ids by (auto simp: succeeds_def or_error_Inr)
  moreover have "\<forall>t\<in>set (times_of op). 0 \<le> sint t + sint offset \<and> sint t + sint offset < 2 ^ 63"
    using recorded_times [OF c op] t unfolding duration_def by fastforce
  ultimately show ?thesis
    unfolding place_operation_def own using operation_span_succeeds [OF _ trace] by (auto intro!: succeeds_and_then)
qed

lemma encode_scenario_succeeds:
  assumes c: "recorded_tree c" and n: "n \<noteq> 0" "uint n + 1 + int (length (operations c)) < 2 ^ 64"
    and t: "0 \<le> sint starts" "sint starts + duration c + 1 < 2 ^ 63" and i: "int index < 2 ^ 63" and trace: "id_ok 32 trace"
  shows "succeeds (encode_scenario trace run_id n starts index c)"
  unfolding encode_scenario_def
proof (intro succeeds_and_then, goal_cases)
  case (3 sid n1)
  then show ?case
    using next_id_uint [OF 3(2)] next_id_nonzero [OF 3(2)] n(2) c
    by (intro allocate_ids_succeeds) (auto simp: recorded_tree_def)
next
  case (4 sid n1 p)
  obtain n2 ids where p: "p = (n2, ids)" by fastforce
  have ids: "dom (map_of ids) = operation_id ` set (operations c)"
    using allocate_ids_known [of "scenario_name c" n1 "[]" "operations c" n2 ids] 4(3) p by simp
  have start: "0 \<le> sint (boundary_start (scenario c))" "sint (boundary_start (scenario c)) < 2 ^ 63" "sint starts < 2 ^ 63"
    using c sint_bounds [of "boundary_start (scenario c)"] sint_bounds [of starts] by (auto simp: recorded_tree_def)
  have span: "0 < duration c" using c by (simp add: recorded_tree_def duration_def)
  show ?case
    unfolding p prod.case
  proof (intro succeeds_and_then, goal_cases)
    case 1
    then show ?case using start t(1) by (intro succeeds_i64) simp_all
  next
    case (2 offset)
    then show ?case
      using scenario_offset [OF 2] t span unfolding offset_time_def duration_def by (intro succeeds_i64) simp_all
  next
    case (3 offset ends)
    then have "0 \<le> sint ends" using scenario_offset [OF 3(1)] offset_time_Inr [OF 3(2)] t(1) span by (simp add: duration_def)
    then show ?case
      unfolding scenario_span_def hex_wire_id [OF trace] using t(1) i by (intro succeeds_and_then succeeds_nanos succeeds_i64) simp_all
  next
    case (4 offset ends span)
    then show ?case
      using place_operation_succeeds [OF c _ ids t(1) _ scenario_offset [OF 4(1)] trace] t(2) by (intro succeeds_map_result) simp
  next
    case (5 offset ends span spans)
    then show ?case
      using scenario_offset [OF 5(1)] offset_time_Inr [OF 5(2)] t span unfolding duration_def by (intro succeeds_i64) simp_all
  qed simp_all
qed (use n in \<open>auto simp: succeeds_def checked_id_Inr next_id_def\<close>)

lemma encode_scenarios_succeeds:
  "\<forall>c\<in>set cs. recorded_tree c \<Longrightarrow> n \<noteq> 0 \<Longrightarrow> uint n + int (length cs + sum_list (map (\<lambda>c. length (operations c)) cs)) < 2 ^ 64 \<Longrightarrow>
   0 \<le> sint starts \<Longrightarrow> sint starts + sum_list (map (\<lambda>c. duration c + 1) cs) < 2 ^ 63 \<Longrightarrow> int (index + length cs) < 2 ^ 63 \<Longrightarrow>
   id_ok 32 trace \<Longrightarrow> \<exists>spans t. encode_scenarios trace run_id n starts index cs = Inr (spans, t) \<and> 0 \<le> sint t"
proof (induction cs arbitrary: n starts index)
  case (Cons c cs)
  have dur: "0 < duration d" if "d \<in> set (c # cs)" for d using that Cons.prems(1) recorded_duration by auto
  then have rest: "0 \<le> sum_list (map (\<lambda>c. duration c + 1) cs)" by (intro sum_list_nonneg) force
  have "succeeds (encode_scenario trace run_id n starts index c)"
    using Cons.prems rest by (intro encode_scenario_succeeds) simp_all
  then obtain spans n' t where s: "encode_scenario trace run_id n starts index c = Inr (spans, n', t)" by (auto simp: succeeds_def)
  have n': "n' \<noteq> 0" "uint n' = uint n + 1 + int (length (operations c))"
    using encode_scenario_next(1) [OF s] encode_scenario_ids [OF s] by auto
  have t: "sint t = sint starts + duration c + 1" using encode_scenario_next(2) [OF s] by (simp add: duration_def)
  obtain more u where "encode_scenarios trace run_id n' t (Suc index) cs = Inr (more, u) \<and> 0 \<le> sint u"
    using Cons.IH [of n' t "Suc index"] Cons.prems n' t dur [of c] by force
  with s show ?case by simp
qed simp

lemma encode_succeeds:
  assumes "captures \<noteq> []" "\<forall>c\<in>set captures. recorded_tree c" "idn \<in> {reference_identity, candidate_identity}"
    and count: "1 + length captures + sum_list (map (\<lambda>c. length (operations c)) captures) < 2 ^ 31"
    and clock: "2 + sum_list (map (\<lambda>c. duration c + 1) captures) < 2 ^ 63"
  shows "succeeds (encode captures m idn)"
proof -
  have id: "id_ok 32 (identity_trace idn)" "first_id idn \<noteq> 0" "uint (first_id idn) \<le> 2 ^ 63 + 1"
    using assms(3) identities_ok by (auto simp: reference_identity_def candidate_identity_def)
  obtain n where n: "next_id (first_id idn) = Inr n" using next_id_succeeds [of "first_id idn"] id(3) by (auto simp: succeeds_def)
  have count': "int (length captures + sum_list (map (\<lambda>c. length (operations c)) captures)) + 1 < 2 ^ 31" using count by simp
  have "uint n + int (length captures + sum_list (map (\<lambda>c. length (operations c)) captures)) < 2 ^ 64"
    using next_id_uint [OF n] id(3) count' by simp
  moreover have "int (0 + length captures) < 2 ^ 63" using count' by simp
  ultimately obtain spans t where "encode_scenarios (identity_trace idn) (hex_pad 16 (uint (first_id idn))) n 2 0 captures = Inr (spans, t)"
    "0 \<le> sint t"
    using encode_scenarios_succeeds [OF assms(2) next_id_nonzero [OF n] _ _ _ _ id(1), where starts = 2 and index = 0
        and run_id = "hex_pad 16 (uint (first_id idn))"] clock by auto
  then obtain d where "encode_document captures m idn = Inr d"
    using assms(1) n id by (auto simp: encode_document_def u64_hex hex_wire_id unix_nanos_Inr)
  then show ?thesis using count' by (simp add: encode_def Let_def succeeds_def)
qed

lemma recorded_ok: "recorded_tree c \<Longrightarrow> capture_ok c"
  by (auto simp: recorded_tree_def recorded_operation_def closed_properly_def capture_ok_def operation_ok_def)

end
