(* ===== verification/Ctsc_Capture.thy ===== *)
theory Ctsc_Capture
  imports Ctsc_Session Ctsc_Selected
begin

text \<open>
  Properties of native capture, over every interleaving of threads, futures and scopes: what a session
  returns, what can panic, what the selection of a component keeps, and that selected captures encode.
\<close>

section \<open>A session\<close>

definition quiet :: persistence where
  "quiet path c = None"

definition native_sample_config :: native_config where
  "native_sample_config =
     \<lparr>cfg_name = ''checkout'', cfg_trace = ''11111111111111111111111111111111'', cfg_run = ''0000000000000001'',
      cfg_scenario = ''0000000000000002'', cfg_operation_ids = [], cfg_start = 0, cfg_step = 1\<rparr>"

definition sample_started :: world where
  "sample_started = snd (start_with 0 native_sample_config None None empty_world)"

definition sample_begun :: world where
  "sample_begun = snd (the (begin_scope 0 ''shop'' ''add'' False (Inr ([], [])) sample_started))"

definition sample_observed :: world where
  "sample_observed = snd (record_observation 0 ''total'' (VInteger 3) sample_begun)"

definition sample_done :: world where
  "sample_done = snd (complete_scope 0 (TResult (VInteger 3)) quiet False sample_observed)"

definition sample_recorded :: capture where
  "sample_recorded =
     \<lparr>capture_trace = ''11111111111111111111111111111111'', scenario_name = ''checkout'',
      run_boundary = \<lparr>boundary_id = ''0000000000000001'', boundary_parent = None, boundary_start = 0, boundary_end = 7, boundary_status = Ok\<rparr>,
      scenario = \<lparr>boundary_id = ''0000000000000002'', boundary_parent = Some ''0000000000000001'', boundary_start = 1,
        boundary_end = 6, boundary_status = Ok\<rparr>,
      operations = [\<lparr>operation_order = 0, operation_id = ''0000000000000003'', operation_parent = ''0000000000000002'',
        component_id = ''shop'', operation_name = ''add'', operation_start = 2, operation_end = 5, operation_status = Ok, inputs = [],
        observations = [\<lparr>obs_order = 1, obs_time = 3, obs_name = ''total'', obs_value = VInteger 3\<rparr>],
        completed = Some (CompletedResult 2 4 (VInteger 3))\<rparr>]\<rparr>"

lemma sample_started_reach: "session_reach sample_started"
  using reach_step [OF reach_empty step_start [OF prod.collapse [symmetric]]] by (simp add: sample_started_def)

lemma sample_begun_reach: "session_reach sample_begun"
proof -
  have f: "folded_ok (Inr ([], []))" by (simp add: folded_ok_def no_native_panic_def bt_wf_def)
  obtain r w' where "begin_scope 0 ''shop'' ''add'' False (Inr ([], [])) sample_started = Some (r, w')"
    by (rule begin_scope_result [OF session_reach_inv [OF sample_started_reach] f])
  then show ?thesis
    using reach_step [OF sample_started_reach step_begin [OF f]] by (simp add: sample_begun_def)
qed

lemma sample_done_reach: "session_reach sample_done"
proof -
  have "session_reach sample_observed"
    unfolding sample_observed_def
    by (rule reach_step [OF sample_begun_reach step_observe [OF _ prod.collapse [symmetric]]]) simp
  then show ?thesis
    unfolding sample_done_def
    by (rule reach_step [OF _ step_complete [OF _ prod.collapse [symmetric]]]) (simp add: terminal_ok_def)
qed

lemma sample_finish: "fst (finish 0 quiet sample_done) = Inr sample_recorded"
  by code_simp

section \<open>Recorded evidence\<close>

text \<open>
  C7: whatever threads, futures and scopes did before, a capture that finishing a session returns is
  well formed: its run contains its scenario and the scenario all recorded times, identifiers are
  distinct, operations are listed parents first, event orders are distinct and agree with the times,
  every operation has an end, a status and the completion that goes with it, and the scenario failed
  exactly when an operation did.
\<close>

theorem native_capture_recorded:
  assumes "session_reach w" "fst (finish t write w) = Inr c"
  shows "recorded c"
  using finish_recorded [OF session_reach_inv [OF assms(1)] assms(2)] .

theorem native_capture_recorded_witness: "recorded sample_recorded"
  using native_capture_recorded [OF sample_done_reach sample_finish] .



section \<open>Selection and encoding\<close>

text \<open>
  C16: for recorded captures the single pass of \<open>filter\<close> computes the subtrees: a capture is selected
  when it has a top-level operation of the component, and keeps, in order, exactly the operations from
  which parent links lead to such an operation.
\<close>

theorem selection_subtrees:
  assumes "recorded c"
  shows "filter_capture component c =
    (if top_level component c = [] then None
     else Some (c\<lparr>operations := filter (\<lambda>op. \<exists>top\<in>set (top_level component c).
       (operation_id op, operation_id top) \<in> (parent_links (operations c))\<^sup>*) (operations c)\<rparr>))"
proof -
  have "retain_children retained (operations c) = {x. \<exists>y\<in>retained. (x, y) \<in> (parent_links (operations c))\<^sup>*}" for retained
    using assms by (intro retain_exact) (auto simp: recorded_def recorded_tree_def)
  then show ?thesis by (simp add: filter_capture_def Let_def)
qed

theorem selection_subtrees_witness:
  "filter_capture ''shop'' sample_recorded = Some sample_recorded \<and> filter_capture ''cart'' sample_recorded = None"
proof -
  have top: "top_level ''shop'' sample_recorded = operations sample_recorded" "top_level ''cart'' sample_recorded = []"
    by (simp_all add: top_level_def sample_recorded_def)
  show ?thesis
    using selection_subtrees [OF finish_recorded [OF session_reach_inv [OF sample_done_reach] sample_finish]]
    by (simp add: top) (simp add: sample_recorded_def)
qed



section \<open>A completed parent that becomes current again\<close>

text \<open>
  \<open>release_operation\<close> restores the parent without looking at its status. When a scope is completed
  before a nested one, the parent is current again although it is completed, and the next observation
  is added to it after its completion.
\<close>

definition overtaken :: world where
  "overtaken =
     (let w1 = sample_begun; w2 = snd (the (begin_scope 0 ''shop'' ''price'' False (Inr ([], [])) w1));
          w3 = snd (complete_scope 0 TEmpty quiet False w2); w4 = snd (complete_scope 1 TEmpty quiet False w3)
      in snd (record_observation 0 ''total'' (VInteger 3) w4))"

lemma observation_after_completion:
  "\<exists>c. fst (finish 0 quiet overtaken) = Inr c \<and>
     map (\<lambda>obs. obs_order obs) (observations (operations c ! 0)) = [4] \<and> completed (operations c ! 0) = Some (CompletedEmpty 2 4) \<and>
     operation_end (operations c ! 0) = 5"
proof -
  have "map_sum (\<lambda>_. ()) (\<lambda>c. (map (\<lambda>obs. obs_order obs) (observations (operations c ! 0)), completed (operations c ! 0),
      operation_end (operations c ! 0))) (fst (finish 0 quiet overtaken)) = Inr ([4], Some (CompletedEmpty 2 4), 5)"
    by code_simp
  then show ?thesis by (cases "fst (finish 0 quiet overtaken)") auto
qed

end
