(* ===== verification/Ctsc_Text.thy ===== *)
theory Ctsc_Text
  imports Ctsc_Loading
begin

text \<open>White space in UTF-8 text (\<open>str::trim\<close>), shared by the setups and the type expressions of schemas.\<close>

definition ascii_space :: "char \<Rightarrow> bool" where
  "ascii_space a \<longleftrightarrow> 9 \<le> (of_char a :: nat) \<and> (of_char a :: nat) \<le> 13 \<or> (of_char a :: nat) = 32"

text \<open>The rest after a leading white space character (of one, two or three bytes).\<close>

definition space_rest :: "string \<Rightarrow> string option" where
  "space_rest s =
     (case s of
        [] \<Rightarrow> None
      | a # r \<Rightarrow>
          if ascii_space a then Some r
          else case r of
                 [] \<Rightarrow> None
               | b # r2 \<Rightarrow>
                   if (of_char a :: nat) = 194 \<and> (of_char b :: nat) \<in> {133, 160} then Some r2
                   else case r2 of
                          [] \<Rightarrow> None
                        | c # r3 \<Rightarrow> if wide_space (of_char a) (of_char b) (of_char c) then Some r3 else None)"

lemma space_rest_shorter: "space_rest s = Some r \<Longrightarrow> length r < length s"
  by (auto simp: space_rest_def split: list.splits if_splits)

function trim_start :: "string \<Rightarrow> string" where
  "trim_start s = (case space_rest s of None \<Rightarrow> s | Some r \<Rightarrow> trim_start r)"
  by pat_completeness auto
termination
  by (relation "measure length") (auto simp: space_rest_shorter)

declare trim_start.simps [simp del]

fun trim_end :: "string \<Rightarrow> string" where
  "trim_end [] = []"
| "trim_end (c # cs) = (if blank (c # cs) then [] else c # trim_end cs)"

definition trim :: "string \<Rightarrow> string" where
  "trim s = trim_end (trim_start s)"

end
