(* ===== verification/Ctsc_Setup.thy ===== *)
theory Ctsc_Setup
  imports Ctsc_Native Ctsc_Text
begin

text \<open>
  Setups (\<open>specgate-runtime/src/capture/setup.rs\<close> and the folding of \<open>specgate-runtime/src/registry.rs\<close>).
  A setup constructs the receiver or a parameter of an operation; its own inputs replace what it
  constructs in the inputs of the operation. The link-time registry is an argument, with the metadata
  folding reads. A semantic type that opted into property setup is replaced by its fields.

  Types are compared by address in the source; here by their index in the registry. \<open>render\<close> is the
  \<open>Debug\<close> text of a value, which only error texts use.
\<close>

section \<open>Link-time metadata\<close>

type_synonym field_meta = "string \<times> string" \<comment> \<open>name and Rust type\<close>

record op_meta =
  om_name :: string
  om_module :: string
  om_fn :: string
  om_setup :: bool
  om_params :: "field_meta list"
  om_return :: string
  om_fills :: "string option"
  om_component :: string

record type_meta =
  tm_name :: string
  tm_module :: string
  tm_fields :: "field_meta list"
  tm_component :: string
  tm_property :: "string option"

record link_registry =
  lr_operations :: "op_meta list"
  lr_types :: "type_meta list"

section \<open>Text of types\<close>

text \<open>\<open>split_once(char::is_whitespace)\<close>: what follows the first white space character.\<close>

fun after_space :: "string \<Rightarrow> string option" where
  "after_space [] = None"
| "after_space (c # cs) = (case space_rest (c # cs) of Some r \<Rightarrow> Some r | None \<Rightarrow> after_space cs)"

function without_spaces :: "string \<Rightarrow> string" where
  "without_spaces [] = []"
| "without_spaces (c # cs) = (case space_rest (c # cs) of Some r \<Rightarrow> without_spaces r | None \<Rightarrow> c # without_spaces cs)"
  by pat_completeness auto
termination
  by (relation "measure length") (auto simp: less_le_trans dest!: space_rest_shorter)

definition types_match :: "string \<Rightarrow> string \<Rightarrow> bool" where
  "types_match left right \<longleftrightarrow> without_spaces left = without_spaces right"

definition strip_prefix :: "string \<Rightarrow> string \<Rightarrow> string option" where
  "strip_prefix p s = (if starts_with p s then Some (drop (length p) s) else None)"

text \<open>\<open>split("::")\<close>.\<close>

fun split_path :: "string \<Rightarrow> string list" where
  "split_path [] = [[]]"
| "split_path [c] = [[c]]"
| "split_path (c # d # cs) =
     (if c = CHR '':'' \<and> d = CHR '':'' then [] # split_path cs
      else case split_path (d # cs) of [] \<Rightarrow> [[c]] | seg # segs \<Rightarrow> (c # seg) # segs)"

lemma strip_prefix_shorter: "strip_prefix p s = Some r \<Longrightarrow> p \<noteq> [] \<Longrightarrow> length r < length s"
  by (cases s) (auto simp: strip_prefix_def starts_with_def split: if_splits)

function climb :: "string list \<Rightarrow> string \<Rightarrow> string list \<times> string" where
  "climb scope suffix =
     (case strip_prefix ''super::'' suffix of
        None \<Rightarrow> (scope, suffix)
      | Some parent \<Rightarrow> climb (butlast scope) parent)"
  by pat_completeness auto
termination
  by (relation "measure (length \<circ> snd)") (auto split: if_splits dest: strip_prefix_shorter)

declare climb.simps [simp del]

section \<open>Property types\<close>

definition setup_collision :: "string \<Rightarrow> string \<Rightarrow> string \<Rightarrow> native_error" where
  "setup_collision component operation detail =
     CaptureError SetupAmbiguity (''native capture for '' @ ticked (component @ ''::'' @ operation) @
       '' cannot fold its #[spec_setup] declarations: '' @ detail @
       ''. Capture records the registry's folded surface and cannot choose between colliding setups; '' @
       ''correct the declarations so each one contributes exactly one receiver or parameter'')"

definition setup_missing :: "string \<Rightarrow> string \<Rightarrow> string \<Rightarrow> native_error" where
  "setup_missing component operation setup =
     CaptureError SetupMissing (''native capture for '' @ ticked (component @ ''::'' @ operation) @
       '' requires successful provenance from '' @ setup @ ''; invoke that #[spec_setup] during this capture and let it '' @
       ''return successfully before calling '' @ ticked operation)"

text \<open>The native name of a source type: no reference, no spaces, and an absolute path where it is relative.\<close>

definition unreferenced :: "string \<Rightarrow> string" where
  "unreferenced source =
     (case strip_prefix ''&'' (trim source) of
        None \<Rightarrow> trim source
      | Some reference \<Rightarrow>
          let native = trim_start reference;
              owned = (if starts_with [CHR 0x27] native then (case after_space native of None \<Rightarrow> [] | Some ty \<Rightarrow> trim_start ty) else native)
          in trim_start (case strip_prefix ''mut '' owned of None \<Rightarrow> owned | Some r \<Rightarrow> r))"

definition native_name :: "op_meta \<Rightarrow> string \<Rightarrow> string" where
  "native_name op source =
     (let native = filter (\<lambda>c. c \<noteq> CHR '' '') (unreferenced source) in
      case strip_prefix ''crate::'' native of
        Some suffix \<Rightarrow> hd (split_path (om_module op)) @ ''::'' @ suffix
      | None \<Rightarrow>
          (case strip_prefix ''self::'' native of
             Some suffix \<Rightarrow> om_module op @ ''::'' @ suffix
           | None \<Rightarrow>
               if starts_with ''super::'' native then
                 (case climb (split_path (om_module op)) native of
                    (scope, suffix) \<Rightarrow> join ''::'' scope @ ''::'' @ suffix)
               else native))"

definition property_matches :: "op_meta \<Rightarrow> string \<Rightarrow> type_meta \<Rightarrow> bool" where
  "property_matches op native ty \<longleftrightarrow>
     tm_component ty = om_component op \<and>
     (case tm_property ty of None \<Rightarrow> False | Some name \<Rightarrow> name = native \<or> tm_module ty @ ''::'' @ name = native)"

definition property_type :: "type_meta list \<Rightarrow> op_meta \<Rightarrow> string \<Rightarrow> native_error + nat option" where
  "property_type types op source =
     (let native = native_name op source in
      case filter (\<lambda>i. property_matches op native (types ! i)) [0..<length types] of
        [] \<Rightarrow> Inr None
      | [i] \<Rightarrow> Inr (Some i)
      | _ \<Rightarrow> Inl (setup_collision (om_component op) (om_name op) (''ambiguous property setup type '' @ ticked native)))"

lemma property_type_index: "property_type types op source = Inr (Some i) \<Longrightarrow> i < length types"
proof -
  assume found: "property_type types op source = Inr (Some i)"
  define found_at where "found_at = filter (\<lambda>i. property_matches op (native_name op source) (types ! i)) [0..<length types]"
  have "found_at = [i]" using found by (simp add: property_type_def Let_def found_at_def [symmetric] split: list.splits)
  then have "i \<in> set found_at" by simp
  then show ?thesis by (simp add: found_at_def)
qed

fun concat_result :: "('a \<Rightarrow> 'e + 'b list) \<Rightarrow> 'a list \<Rightarrow> 'e + 'b list" where
  "concat_result f [] = Inr []"
| "concat_result f (x # xs) = and_then (f x) (\<lambda>ys. and_then (concat_result f xs) (\<lambda>zs. Inr (ys @ zs)))"

lemma concat_result_cong [fundef_cong]:
  "xs = ys \<Longrightarrow> (\<And>x. x \<in> set ys \<Longrightarrow> f x = g x) \<Longrightarrow> concat_result f xs = concat_result g ys"
  by (induction ys arbitrary: xs) auto

text \<open>The inputs a field stands for, each with the path to it; \<open>visiting\<close> are the enclosing types.\<close>

function visit_field ::
    "type_meta list \<Rightarrow> op_meta \<Rightarrow> field_meta \<Rightarrow> string list \<Rightarrow> nat list \<Rightarrow> native_error + (field_meta \<times> string list) list" where
  "visit_field types op field path visiting =
     (case property_type types op (snd field) of
        Inl e \<Rightarrow> Inl e
      | Inr None \<Rightarrow> Inr [(field, path)]
      | Inr (Some i) \<Rightarrow>
          if i \<in> set visiting
          then Inl (setup_collision (om_component op) (om_name op) (''recursive property setup type '' @ ticked (tm_name (types ! i))))
          else concat_result (\<lambda>child. visit_field types (op\<lparr>om_module := tm_module (types ! i)\<rparr>) child (path @ [fst child]) (visiting @ [i]))
                 (tm_fields (types ! i)))"
  by pat_completeness auto
termination
proof (relation "measure (\<lambda>(types, _, _, _, visiting). card ({..<length types} - set visiting))")
  fix types op field path visiting r i child
  assume "property_type types op (snd field) = Inr r" "r = Some i" "i \<notin> set visiting"
  then have "i < length types" "{..<length types} - set (visiting @ [i]) \<subset> {..<length types} - set visiting"
    using property_type_index by auto
  then show "((types, op\<lparr>om_module := tm_module (types ! i)\<rparr>, child, path @ [fst child], visiting @ [i]), types, op, field, path, visiting)
      \<in> measure (\<lambda>(types, _, _, _, visiting). card ({..<length types} - set visiting))"
    by (simp add: psubset_card_mono)
qed simp

declare visit_field.simps [simp del]

definition input_fields :: "type_meta list \<Rightarrow> op_meta \<Rightarrow> field_meta \<Rightarrow> native_error + (field_meta \<times> string list) list" where
  "input_fields types op parameter = visit_field types op parameter [] []"

section \<open>Folding one input\<close>

text \<open>Taking a member out of a value leaves an empty map in its place.\<close>

fun take_member :: "string list \<Rightarrow> capture_value \<Rightarrow> native_error + (capture_value \<times> capture_value)" where
  "take_member [] v = Inr (v, VMap [])"
| "take_member (m # ms) (VMap kvs) =
     (case map_of kvs m of
        None \<Rightarrow> Inl (config_error (''property setup omitted field '' @ ticked m))
      | Some v \<Rightarrow> and_then (take_member ms v) (\<lambda>(x, v'). Inr (x, VMap (bt_insert m v' kvs))))"
| "take_member (m # ms) v = Inl (config_error ''property setup did not project named fields'')"

fun project_fields :: "(field_meta \<times> string list) list \<Rightarrow> capture_value \<Rightarrow> native_error + (string \<times> capture_value) list" where
  "project_fields [] v = Inr []"
| "project_fields ((field, path) # fs) v =
     and_then (take_member path v) (\<lambda>(x, v').
     and_then (project_fields fs v') (\<lambda>rest. Inr ((fst field, x) # rest)))"

definition fold_input :: "type_meta list \<Rightarrow> op_meta \<Rightarrow> string \<Rightarrow> capture_value \<Rightarrow> native_error + (string \<times> capture_value) list" where
  "fold_input types op name v =
     (case find (\<lambda>field. fst field = name) (om_params op) of
        None \<Rightarrow> Inr [(name, v)]
      | Some parameter \<Rightarrow> and_then (input_fields types op parameter) (\<lambda>fs. project_fields fs v))"

section \<open>Recorded setups\<close>

text \<open>Component, operation, module, function and filled parameter, in the order of the derived \<open>Ord\<close>.\<close>

type_synonym setup_key = "string \<times> string \<times> string \<times> string \<times> string option"

type_synonym setup_inputs = "(string \<times> capture_value) list"

type_synonym pending_setups = "(setup_key \<times> setup_inputs) list"

definition key_of :: "op_meta \<Rightarrow> setup_key" where
  "key_of m = (om_component m, om_name m, om_module m, om_fn m, om_fills m)"

lemma zip_size [termination_simp]:
  "(x, y) \<in> set (zip xs ys) \<Longrightarrow> size x < Suc (size_list size xs)"
  by (auto dest!: set_zip_leftD intro: size_list_estimation' [of _ _ "size _" size] simp: less_Suc_eq_le)

lemma zip_snd_size [termination_simp]:
  "((k, x), l, y) \<in> set (zip xs ys) \<Longrightarrow> size x < Suc (size_list (\<lambda>p. Suc (size (snd p))) xs)"
  by (drule set_zip_leftD, drule size_list_estimation' [of _ _ "size x" "\<lambda>p. Suc (size (snd p))"]) auto

fun values_match :: "capture_value \<Rightarrow> capture_value \<Rightarrow> bool" where
  "values_match (VString a) (VString b) \<longleftrightarrow> a = b"
| "values_match (VInteger a) (VInteger b) \<longleftrightarrow> a = b"
| "values_match (VUnsigned a) (VUnsigned b) \<longleftrightarrow> a = b"
| "values_match (VFloat a) (VFloat b) \<longleftrightarrow> a = b"
| "values_match (VBool a) (VBool b) \<longleftrightarrow> a = b"
| "values_match (VList xs) (VList ys) \<longleftrightarrow> length xs = length ys \<and> list_all (\<lambda>(x, y). values_match x y) (zip xs ys)"
| "values_match (VSet xs) (VSet ys) \<longleftrightarrow> length xs = length ys \<and> list_all (\<lambda>(x, y). values_match x y) (zip xs ys)"
| "values_match (VMap xs) (VMap ys) \<longleftrightarrow>
     length xs = length ys \<and> list_all (\<lambda>((k, x), (l, y)). k = l \<and> values_match x y) (zip xs ys)"
| "values_match _ _ \<longleftrightarrow> False"

definition inputs_match :: "setup_inputs \<Rightarrow> setup_inputs \<Rightarrow> bool" where
  "inputs_match left right \<longleftrightarrow>
     length left = length right \<and> list_all (\<lambda>((k, x), (l, y)). k = l \<and> values_match x y) (zip left right)"

definition describe_inputs :: "(capture_value \<Rightarrow> string) \<Rightarrow> setup_inputs \<Rightarrow> string" where
  "describe_inputs render kvs =
     (if kvs = [] then ''no inputs'' else join '', '' (map (\<lambda>(name, v). name @ ''='' @ render v) kvs))"

text \<open>Insert inputs that must be new; \<open>message\<close> is the text of the failed assertion.\<close>

fun insert_new :: "(string \<Rightarrow> string) \<Rightarrow> setup_inputs \<Rightarrow> (string \<times> capture_value) list \<Rightarrow> native_error + setup_inputs" where
  "insert_new message merged [] = Inr merged"
| "insert_new message merged ((name, v) # rest) =
     (if map_of merged name \<noteq> None then Inl (NativePanic (message name)) else insert_new message (bt_insert name v merged) rest)"

definition qualified_op :: "string \<Rightarrow> string \<Rightarrow> string" where
  "qualified_op component operation = ticked (component @ ''::'' @ operation)"

fun record_fields ::
    "(string \<Rightarrow> string) \<Rightarrow> (string \<Rightarrow> capture_value \<Rightarrow> native_error + (string \<times> capture_value) list) \<Rightarrow>
     setup_inputs \<Rightarrow> (string \<times> capture_value) list \<Rightarrow> native_error + setup_inputs" where
  "record_fields message fold_one recorded [] = Inr recorded"
| "record_fields message fold_one recorded ((name, v) # rest) =
     and_then (fold_one name v) (\<lambda>vals.
     and_then (insert_new message recorded vals) (\<lambda>recorded'. record_fields message fold_one recorded' rest))"

definition setup_declaration :: "link_registry \<Rightarrow> setup_key \<Rightarrow> op_meta option" where
  "setup_declaration reg key = find (\<lambda>m. om_setup m \<and> key_of m = key) (lr_operations reg)"

definition fold_declared ::
    "link_registry \<Rightarrow> op_meta option \<Rightarrow> string \<Rightarrow> capture_value \<Rightarrow> native_error + (string \<times> capture_value) list" where
  "fold_declared reg declared name v =
     (case declared of None \<Rightarrow> Inr [(name, v)] | Some m \<Rightarrow> fold_input (lr_types reg) m name v)"

definition record_values ::
    "(capture_value \<Rightarrow> string) \<Rightarrow> link_registry \<Rightarrow> bool \<Rightarrow> setup_key \<Rightarrow> (string \<times> capture_value) list \<Rightarrow> pending_setups \<Rightarrow>
     (native_error + unit) \<times> pending_setups" where
  "record_values render reg requested key vals pending =
     (if \<not> requested then (Inr (), pending)
      else case key of (component, operation, module, fn, fills) \<Rightarrow>
        (case record_fields (\<lambda>name. ''generated setup invariant violated: setup '' @ ticked fn @ '' for '' @
                qualified_op component operation @ '' records input '' @ ticked name @ '' twice'')
              (fold_declared reg (setup_declaration reg key)) [] vals of
           Inl e \<Rightarrow> (Inl e, pending)
         | Inr recorded \<Rightarrow>
             (case map_of pending key of
                Some existing \<Rightarrow>
                  (if inputs_match existing recorded then (Inr (), pending)
                   else (Inl (CaptureError SetupAmbiguity (''setup '' @ ticked fn @ '' for '' @ qualified_op component operation @
                     '' ran twice in one capture with different inputs ('' @ describe_inputs render existing @ '' then '' @
                     describe_inputs render recorded @
                     ''); capture attributes construction inputs by declaration and cannot tell which instance a later '' @
                     ticked operation @ '' invocation used. Capture one construction per scenario, or record identical inputs.'')), pending))
              | None \<Rightarrow> (Inr (), bt_insert key recorded pending))))"

text \<open>A setup defers its inputs, evaluated only when a capture is requested, until it returned successfully.\<close>

record deferred_setup =
  deferred_key :: setup_key
  deferred_inputs :: "(string \<times> capture_value) list option"

definition defer_setup :: "bool \<Rightarrow> setup_key \<Rightarrow> (string \<times> capture_value) list \<Rightarrow> deferred_setup" where
  "defer_setup requested key vals = \<lparr>deferred_key = key, deferred_inputs = (if requested then Some vals else None)\<rparr>"

definition commit ::
    "(capture_value \<Rightarrow> string) \<Rightarrow> link_registry \<Rightarrow> bool \<Rightarrow> deferred_setup \<Rightarrow> pending_setups \<Rightarrow> (native_error + unit) \<times> pending_setups" where
  "commit render reg requested d pending =
     (case deferred_inputs d of
        None \<Rightarrow> (Inr (), pending)
      | Some vals \<Rightarrow> record_values render reg requested (deferred_key d) vals pending)"

definition collides :: "string \<Rightarrow> string \<Rightarrow> string \<Rightarrow> string \<Rightarrow> string" where
  "collides component operation fn name =
     ''capture registry invariant violated: setups for '' @ qualified_op component operation @ '' record input '' @ ticked name @
     '' twice; setup '' @ ticked fn @ '' collides with an earlier producer''"

fun merge_recorded :: "string \<Rightarrow> string \<Rightarrow> setup_inputs \<Rightarrow> pending_setups \<Rightarrow> native_error + setup_inputs" where
  "merge_recorded component operation merged [] = Inr merged"
| "merge_recorded component operation merged (((c, o', module, fn, fills), vals) # rest) =
     (if c = component \<and> o' = operation
      then and_then (insert_new (collides component operation fn) merged vals) (\<lambda>merged'. merge_recorded component operation merged' rest)
      else merge_recorded component operation merged rest)"

definition recorded_inputs :: "string \<Rightarrow> string \<Rightarrow> pending_setups \<Rightarrow> native_error + setup_inputs" where
  "recorded_inputs component operation pending = merge_recorded component operation [] pending"

section \<open>Planning\<close>

datatype contribution = Receiver | Parameter string

record plan_state =
  plan_filled :: "string list" \<comment> \<open>a set\<close>
  plan_required :: "(setup_key \<times> contribution) list"
  plan_receiver :: bool

definition producer_name :: "op_meta \<Rightarrow> string" where
  "producer_name m = om_module m @ ''::'' @ om_fn m"

definition plan_contribution :: "op_meta \<Rightarrow> op_meta \<Rightarrow> plan_state \<Rightarrow> native_error + contribution" where
  "plan_contribution op setup s =
     (let fail = setup_collision (om_component op) (om_name op); producer = ticked (producer_name setup) in
      case om_fills setup of
        Some param \<Rightarrow>
          (if \<not> (\<exists>field\<in>set (om_params op). fst field = param)
           then Inl (fail (''setup '' @ producer @ '' fills unknown parameter '' @ ticked param))
           else Inr (Parameter param))
      | None \<Rightarrow>
          (case map fst (filter (\<lambda>field. fst field \<notin> set (plan_filled s) \<and> types_match (snd field) (om_return setup)) (om_params op)) of
             [only] \<Rightarrow> Inr (Parameter only)
           | [] \<Rightarrow>
               (if plan_receiver s then Inl (fail (''setup '' @ producer @ '' constructs a second receiver'')) else Inr Receiver)
           | several \<Rightarrow>
               Inl (fail (''setup '' @ producer @ '' ambiguously matches parameters '' @ join '', '' several @
                 '' by its return type '' @ ticked (om_return setup) @ ''; declare fills explicitly''))))"

definition plan_one :: "op_meta \<Rightarrow> op_meta \<Rightarrow> plan_state \<Rightarrow> native_error + plan_state" where
  "plan_one op setup s =
     and_then (plan_contribution op setup s) (\<lambda>c.
       let required = plan_required s @ [(key_of setup, c)] in
       case c of
         Receiver \<Rightarrow> Inr (s\<lparr>plan_required := required, plan_receiver := True\<rparr>)
       | Parameter name \<Rightarrow>
           if name \<in> set (plan_filled s)
           then Inl (setup_collision (om_component op) (om_name op) (''setup '' @ ticked (producer_name setup) @ '' fills parameter '' @
                  ticked name @ '', which an earlier setup already fills''))
           else Inr (s\<lparr>plan_required := required, plan_filled := plan_filled s @ [name]\<rparr>))"

fun plan_all :: "op_meta \<Rightarrow> op_meta list \<Rightarrow> plan_state \<Rightarrow> native_error + plan_state" where
  "plan_all op [] s = Inr s"
| "plan_all op (setup # setups) s = and_then (plan_one op setup s) (plan_all op setups)"

definition plan_declared_setups :: "op_meta \<Rightarrow> op_meta list \<Rightarrow> native_error + plan_state" where
  "plan_declared_setups op setups = plan_all op setups \<lparr>plan_filled = [], plan_required = [], plan_receiver = False\<rparr>"

definition setups_for :: "op_meta list \<Rightarrow> string \<Rightarrow> string \<Rightarrow> op_meta list" where
  "setups_for ops component operation = filter (\<lambda>m. om_setup m \<and> om_component m = component \<and> om_name m = operation) ops"

definition operation_declaration :: "link_registry \<Rightarrow> string \<Rightarrow> string \<Rightarrow> op_meta option" where
  "operation_declaration reg component operation =
     find (\<lambda>m. \<not> om_setup m \<and> om_component m = component \<and> om_name m = operation) (lr_operations reg)"

definition describe_setup :: "setup_key \<times> contribution \<Rightarrow> string" where
  "describe_setup req =
     (case req of ((_, _, module, fn, fills), c) \<Rightarrow>
        let function_name = ticked (module @ ''::'' @ fn) in
        case c of
          Receiver \<Rightarrow> ''setup '' @ function_name @ '' constructing the receiver''
        | Parameter name \<Rightarrow>
            if fills = None then ''setup '' @ function_name @ '' inferring folded parameter '' @ ticked name
            else ''setup '' @ function_name @ '' filling parameter '' @ ticked name)"

fun merge_required ::
    "string \<Rightarrow> string \<Rightarrow> pending_setups \<Rightarrow> setup_inputs \<Rightarrow> (setup_key \<times> contribution) list \<Rightarrow> native_error + setup_inputs" where
  "merge_required component operation pending merged [] = Inr merged"
| "merge_required component operation pending merged (req # reqs) =
     (case map_of pending (fst req) of
        None \<Rightarrow> Inl (setup_missing component operation (describe_setup req))
      | Some vals \<Rightarrow>
          and_then (insert_new (collides component operation (fst (snd (snd (snd (fst req)))))) merged vals)
            (\<lambda>merged'. merge_required component operation pending merged' reqs))"

definition folded_inputs ::
    "link_registry \<Rightarrow> pending_setups \<Rightarrow> string \<Rightarrow> string \<Rightarrow> native_error + (setup_inputs \<times> string list)" where
  "folded_inputs reg pending component operation =
     (case operation_declaration reg component operation of
        None \<Rightarrow> and_then (recorded_inputs component operation pending) (\<lambda>merged. Inr (merged, []))
      | Some op \<Rightarrow>
          and_then (plan_declared_setups op (setups_for (lr_operations reg) component operation)) (\<lambda>plan.
          and_then (merge_required component operation pending [] (plan_required plan)) (\<lambda>merged.
            Inr (merged, plan_filled plan))))"

section \<open>Checking the declarations\<close>

text \<open>Names are collected in a set; a second insertion of a name is a collision.\<close>

fun claim_names :: "op_meta \<Rightarrow> string list \<Rightarrow> string list \<Rightarrow> native_error + string list" where
  "claim_names op names [] = Inr names"
| "claim_names op names (x # xs) =
     (if x \<in> set names
      then Inl (setup_collision (om_component op) (om_name op) (''setup folding produces duplicate input name '' @ ticked x))
      else claim_names op (names @ [x]) xs)"

fun claim_params :: "type_meta list \<Rightarrow> op_meta \<Rightarrow> op_meta \<Rightarrow> string list \<Rightarrow> field_meta list \<Rightarrow> native_error + string list" where
  "claim_params types op owner names [] = Inr names"
| "claim_params types op owner names (p # ps) =
     and_then (input_fields types owner p) (\<lambda>fs.
     and_then (claim_names op names (map (fst \<circ> fst) fs)) (\<lambda>names'. claim_params types op owner names' ps))"

text \<open>The producer is looked up without the filled parameter.\<close>

definition producer_of :: "op_meta list \<Rightarrow> setup_key \<Rightarrow> op_meta option" where
  "producer_of ops key =
     (case key of (component, operation, module, fn, _) \<Rightarrow>
        find (\<lambda>m. om_setup m \<and> om_component m = component \<and> om_name m = operation \<and> om_module m = module \<and> om_fn m = fn) ops)"

fun claim_setups ::
    "link_registry \<Rightarrow> op_meta \<Rightarrow> string list \<Rightarrow> (setup_key \<times> contribution) list \<Rightarrow> native_error + string list" where
  "claim_setups reg op names [] = Inr names"
| "claim_setups reg op names (req # reqs) =
     (case producer_of (lr_operations reg) (fst req) of
        None \<Rightarrow> Inl (NativePanic ''planned setup belongs to declaration set'')
      | Some producer \<Rightarrow>
          and_then (claim_params (lr_types reg) op producer names (om_params producer)) (\<lambda>names'. claim_setups reg op names' reqs))"

definition validate_operation_folding :: "link_registry \<Rightarrow> op_meta \<Rightarrow> native_error + unit" where
  "validate_operation_folding reg op =
     and_then (plan_declared_setups op (setups_for (lr_operations reg) (om_component op) (om_name op))) (\<lambda>plan.
     and_then (claim_setups reg op [] (plan_required plan)) (\<lambda>names.
     and_then (claim_params (lr_types reg) op op names (filter (\<lambda>p. fst p \<notin> set (plan_filled plan)) (om_params op))) (\<lambda>_.
       Inr ())))"

definition validate_declared_folding :: "link_registry \<Rightarrow> native_error + unit" where
  "validate_declared_folding reg =
     and_then (map_result (validate_operation_folding reg) (filter (\<lambda>m. \<not> om_setup m) (lr_operations reg))) (\<lambda>_. Inr ())"

text \<open>What \<open>OperationScope::input\<close> records for one parameter of a begun operation.\<close>

definition scope_fold ::
    "link_registry \<Rightarrow> pending_operation \<Rightarrow> string \<Rightarrow> capture_value \<Rightarrow> native_error + (string \<times> capture_value) list" where
  "scope_fold reg p name v = fold_declared reg (operation_declaration reg (pend_component p) (pend_name p)) name v"

end
