(* ===== verification/Ctsc_Folding.thy ===== *)
theory Ctsc_Folding
  imports Ctsc_Setup Ctsc_Actions
begin

text \<open>
  What the check of the declared setups promises (\<open>specgate-runtime/src/capture/setup.rs\<close>): the names
  an operation records are distinct, so that neither folding the recorded setups into a new operation
  nor recording its own arguments meets a name twice.
\<close>

section \<open>Values and their identity\<close>

lemma zip_identity:
  assumes "\<And>z. z \<in> set (zip xs ys) \<Longrightarrow> P z \<longleftrightarrow> fst z = snd z"
  shows "length xs = length ys \<and> list_all P (zip xs ys) \<longleftrightarrow> xs = ys"
proof -
  have "list_all P (zip xs ys) \<longleftrightarrow> (\<forall>(x, y)\<in>set (zip xs ys). x = y)" using assms by (fastforce simp: list_all_iff)
  then show ?thesis by (simp add: list_eq_iff_zip_eq)
qed

lemma values_match_eq: "values_match x y \<longleftrightarrow> x = y"
proof (induction x y rule: values_match.induct)
  case (6 xs ys)
  show ?case by (simp, rule zip_identity) (use 6 in auto)
next
  case (7 xs ys)
  show ?case by (simp, rule zip_identity) (use 7 in auto)
next
  case (8 xs ys)
  show ?case by (simp, rule zip_identity) (use 8 in fastforce)
qed simp_all

lemma inputs_match_eq: "inputs_match left right \<longleftrightarrow> left = right"
  unfolding inputs_match_def values_match_eq by (rule zip_identity) auto

section \<open>Field names\<close>

lemma property_type_same:
  assumes "om_module a = om_module b" "om_component a = om_component b" "om_name a = om_name b"
  shows "property_type types a source = property_type types b source"
proof -
  have n: "native_name a source = native_name b source" unfolding native_name_def assms ..
  have p: "property_matches a = property_matches b" by (simp add: fun_eq_iff property_matches_def assms)
  show ?thesis unfolding property_type_def n p assms ..
qed

lemma visit_field_cong:
  "om_module a = om_module b \<Longrightarrow> om_component a = om_component b \<Longrightarrow> om_name a = om_name b \<Longrightarrow>
   visit_field types a field path visiting = visit_field types b field path visiting"
proof (induction types a field path visiting arbitrary: b rule: visit_field.induct)
  case (1 types a field path visiting)
  have same: "property_type types b (snd field) = property_type types a (snd field)"
    using "1.prems" by (intro property_type_same) simp_all
  show ?case
  proof (cases "property_type types a (snd field)")
    case (Inl e)
    then show ?thesis using same by (simp add: visit_field.simps)
  next
    case (Inr r)
    show ?thesis
    proof (cases r)
      case None
      then show ?thesis using same Inr by (simp add: visit_field.simps)
    next
      case (Some i)
      have "i \<notin> set visiting \<Longrightarrow>
        visit_field types (a\<lparr>om_module := tm_module (types ! i)\<rparr>) child (path @ [fst child]) (visiting @ [i]) =
        visit_field types (b\<lparr>om_module := tm_module (types ! i)\<rparr>) child (path @ [fst child]) (visiting @ [i])"
        if "child \<in> set (tm_fields (types ! i))" for child
        by (rule 1(1) [OF Inr Some _ that]) (use "1.prems" in simp_all)
      then show ?thesis
        using same Inr Some "1.prems" visit_field.simps [of types a field path visiting] visit_field.simps [of types b field path visiting]
        by (simp cong: concat_result_cong)
    qed
  qed
qed

definition names_of :: "native_error + (field_meta \<times> string list) list \<Rightarrow> string list" where
  "names_of r = (case r of Inl _ \<Rightarrow> [] | Inr fs \<Rightarrow> map (fst \<circ> fst) fs)"

definition field_names :: "type_meta list \<Rightarrow> op_meta \<Rightarrow> field_meta list \<Rightarrow> string list" where
  "field_names types op ps = concat (map (\<lambda>p. names_of (input_fields types op p)) ps)"

lemma claim_names_result:
  "claim_names op names xs = Inr names' \<Longrightarrow> distinct names \<Longrightarrow> names' = names @ xs \<and> distinct (names @ xs)"
  by (induction op names xs rule: claim_names.induct) (auto split: if_splits)

lemma claim_params_result:
  "claim_params types op owner names ps = Inr names' \<Longrightarrow> distinct names \<Longrightarrow>
   names' = names @ field_names types owner ps \<and> distinct names'"
proof (induction types op owner names ps rule: claim_params.induct)
  case (2 types op owner names p ps)
  obtain fs where fs: "input_fields types owner p = Inr fs" using "2.prems" by (cases "input_fields types owner p") (auto simp: and_then_def)
  obtain mid where mid: "claim_names op names (map (fst \<circ> fst) fs) = Inr mid"
    using "2.prems" fs by (cases "claim_names op names (map (fst \<circ> fst) fs)") (auto simp: and_then_def)
  from claim_names_result [OF mid "2.prems"(2)] have m: "mid = names @ map (fst \<circ> fst) fs" "distinct mid" by simp_all
  have "names' = mid @ field_names types owner ps \<and> distinct names'"
    by (rule "2.IH" [OF fs mid _ m(2)]) (use "2.prems"(1) fs mid in \<open>simp add: and_then_def\<close>)
  moreover have "field_names types owner (p # ps) = map (fst \<circ> fst) fs @ field_names types owner ps"
    using fs by (simp add: field_names_def names_of_def)
  ultimately show ?case using m(1) by (metis append_assoc)
qed (simp add: field_names_def)

text \<open>Setups that agree on their identity, the filled parameter aside, have the same parameters.\<close>

definition identified :: "op_meta list \<Rightarrow> bool" where
  "identified ops \<longleftrightarrow>
     (\<forall>a\<in>set ops. \<forall>b\<in>set ops. om_setup a \<and> om_setup b \<and> om_component a = om_component b \<and> om_name a = om_name b \<and>
        om_module a = om_module b \<and> om_fn a = om_fn b \<longrightarrow> om_params a = om_params b)"

definition setup_names :: "link_registry \<Rightarrow> setup_key \<Rightarrow> string list" where
  "setup_names reg key =
     (case setup_declaration reg key of None \<Rightarrow> [] | Some m \<Rightarrow> field_names (lr_types reg) m (om_params m))"

lemma field_names_cong:
  assumes "om_module a = om_module b" "om_component a = om_component b" "om_name a = om_name b"
  shows "field_names types a = field_names types b"
  using visit_field_cong [OF assms] by (simp add: fun_eq_iff field_names_def input_fields_def)

lemma producer_names:
  assumes "identified (lr_operations reg)" "m \<in> set (lr_operations reg)" "om_setup m" "producer_of (lr_operations reg) (key_of m) = Some producer"
  shows "field_names (lr_types reg) producer (om_params producer) = setup_names reg (key_of m)"
proof -
  obtain d where d: "setup_declaration reg (key_of m) = Some d" "om_setup d" "key_of d = key_of m" "d \<in> set (lr_operations reg)"
    using assms(2,3) unfolding setup_declaration_def
    by (cases "find (\<lambda>d. om_setup d \<and> key_of d = key_of m) (lr_operations reg)") (auto simp: find_None_iff find_Some_iff)
  have p: "producer \<in> set (lr_operations reg)" "om_setup producer" "om_component producer = om_component m" "om_name producer = om_name m"
    "om_module producer = om_module m" "om_fn producer = om_fn m"
    using assms(4) by (auto simp: producer_of_def key_of_def find_Some_iff)
  have same: "om_component d = om_component m" "om_name d = om_name m" "om_module d = om_module m" "om_fn d = om_fn m"
    using d(3) by (simp_all add: key_of_def)
  have "om_params producer = om_params d"
    using assms(1) p d(2,4) same unfolding identified_def by metis
  moreover have "field_names (lr_types reg) producer = field_names (lr_types reg) d"
    using p same by (intro field_names_cong) simp_all
  ultimately show ?thesis using d by (simp add: setup_names_def)
qed

lemma claim_setups_result:
  "claim_setups reg op names reqs = Inr names' \<Longrightarrow> distinct names \<Longrightarrow> identified (lr_operations reg) \<Longrightarrow>
   \<forall>req\<in>set reqs. \<exists>m\<in>set (lr_operations reg). om_setup m \<and> fst req = key_of m \<Longrightarrow>
   names' = names @ concat (map (setup_names reg \<circ> fst) reqs) \<and> distinct names'"
proof (induction reg op names reqs rule: claim_setups.induct)
  case (2 reg op names req reqs)
  then obtain m where m: "m \<in> set (lr_operations reg)" "om_setup m" "fst req = key_of m" by auto
  obtain producer where p: "producer_of (lr_operations reg) (fst req) = Some producer"
    using "2.prems"(1) by (auto split: option.splits)
  obtain mid where mid: "claim_params (lr_types reg) op producer names (om_params producer) = Inr mid"
    using "2.prems"(1) p by (auto simp: and_then_def split: sum.splits)
  have s: "mid = names @ setup_names reg (fst req)" "distinct mid"
    using claim_params_result [OF mid "2.prems"(2)] producer_names [OF "2.prems"(3) m(1,2)] p m(3) by metis+
  have "names' = mid @ concat (map (setup_names reg \<circ> fst) reqs) \<and> distinct names'"
    by (rule "2.IH" [OF p mid _ s(2) "2.prems"(3)]) (use "2.prems"(1,4) p mid in \<open>simp_all add: and_then_def\<close>)
  moreover have "concat (map (setup_names reg \<circ> fst) (req # reqs)) = setup_names reg (fst req) @ concat (map (setup_names reg \<circ> fst) reqs)"
    by simp
  ultimately show ?case using s(1) by (metis append_assoc)
qed simp

lemma plan_all_keys:
  "plan_all op setups s = Inr s' \<Longrightarrow> map fst (plan_required s') = map fst (plan_required s) @ map key_of setups"
proof (induction op setups s rule: plan_all.induct)
  case (2 op first setups s)
  then obtain mid where mid: "plan_one op first s = Inr mid" "plan_all op setups mid = Inr s'" by (auto simp: and_then_def split: sum.splits)
  then have "map fst (plan_required mid) = map fst (plan_required s) @ [key_of first]"
    by (auto simp: plan_one_def and_then_def Let_def split: sum.splits contribution.splits if_splits)
  then show ?case using 2 mid by simp
qed simp

section \<open>Accepted declarations\<close>

definition unfilled :: "plan_state \<Rightarrow> op_meta \<Rightarrow> field_meta list" where
  "unfilled plan op = filter (\<lambda>p. fst p \<notin> set (plan_filled plan)) (om_params op)"

lemma accepted_operation:
  assumes "validate_operation_folding reg op = Inr ()" "identified (lr_operations reg)"
    and setups: "setups = setups_for (lr_operations reg) (om_component op) (om_name op)"
  obtains plan where "plan_declared_setups op setups = Inr plan" "map fst (plan_required plan) = map key_of setups"
    "distinct (concat (map (setup_names reg) (map key_of setups)) @ field_names (lr_types reg) op (unfilled plan op))"
proof -
  obtain plan where plan: "plan_declared_setups op setups = Inr plan"
    using assms(1) by (auto simp: validate_operation_folding_def and_then_def setups split: sum.splits)
  obtain names where names: "claim_setups reg op [] (plan_required plan) = Inr names"
    using assms(1) plan by (auto simp: validate_operation_folding_def and_then_def setups split: sum.splits)
  obtain all where all: "claim_params (lr_types reg) op op names (unfilled plan op) = Inr all"
    using assms(1) plan names by (auto simp: validate_operation_folding_def and_then_def setups unfilled_def split: sum.splits)
  have keys: "map fst (plan_required plan) = map key_of setups"
    using plan_all_keys [OF plan [unfolded plan_declared_setups_def]] by simp
  have known: "\<forall>req\<in>set (plan_required plan). \<exists>m\<in>set (lr_operations reg). om_setup m \<and> fst req = key_of m"
  proof
    fix req assume "req \<in> set (plan_required plan)"
    then have "fst req \<in> set (map key_of setups)" using keys by (metis image_eqI set_map)
    then show "\<exists>m\<in>set (lr_operations reg). om_setup m \<and> fst req = key_of m" by (auto simp: setups setups_for_def)
  qed
  have n: "names = concat (map (setup_names reg) (map key_of setups)) \<and> distinct names"
    using claim_setups_result [OF names _ assms(2) known] unfolding keys [symmetric] map_map by auto
  with claim_params_result [OF all] that [OF plan keys] show thesis by metis
qed

lemma accepted_registry:
  assumes "validate_declared_folding reg = Inr ()" "op \<in> set (lr_operations reg)" "\<not> om_setup op"
  shows "validate_operation_folding reg op = Inr ()"
proof -
  have "validate_operation_folding reg op = Inr ()"
    if "map_result (validate_operation_folding reg) ops = Inr r" "op \<in> set ops" for ops r
    using that by (induction ops arbitrary: r) (auto simp: and_then_def split: sum.splits)
  then show ?thesis using assms by (auto simp: validate_declared_folding_def and_then_def split: sum.splits)
qed

section \<open>Recorded setups\<close>

definition pending_ok :: "link_registry \<Rightarrow> pending_setups \<Rightarrow> bool" where
  "pending_ok reg pending \<longleftrightarrow>
     (\<forall>(key, vals)\<in>set pending. value_ok (VMap vals) \<and>
        (setup_declaration reg key \<noteq> None \<longrightarrow> fst ` set vals \<subseteq> set (setup_names reg key)))"

lemma pending_okD:
  assumes "pending_ok reg pending" "map_of pending key = Some vals"
  shows "value_ok (VMap vals)" "setup_declaration reg key \<noteq> None \<Longrightarrow> fst ` set vals \<subseteq> set (setup_names reg key)"
  using assms(1) map_of_SomeD [OF assms(2)] unfolding pending_ok_def by fast+

lemma insert_new_result:
  assumes "value_ok (VMap merged)" "\<forall>kv\<in>set vals. value_ok (snd kv)" "distinct (map fst vals)" "fst ` set merged \<inter> fst ` set vals = {}"
  shows "\<exists>r. insert_new message merged vals = Inr r \<and> value_ok (VMap r) \<and> map_of r = map_of merged ++ map_of vals"
  using assms
proof (induction message merged vals rule: insert_new.induct)
  case (2 message merged name v rest)
  have new: "map_of merged name = None" using "2.prems"(4) by (auto simp: map_of_eq_None_iff)
  have "value_ok (VMap (bt_insert name v merged))" using "2.prems"(1,2) by (intro value_ok_insert) simp_all
  moreover have "fst ` set (bt_insert name v merged) \<inter> fst ` set rest = {}"
    using "2.prems"(3,4) by (auto simp: fst_set_bt_insert)
  ultimately obtain r where r: "insert_new message (bt_insert name v merged) rest = Inr r" "value_ok (VMap r)"
    "map_of r = map_of (bt_insert name v merged) ++ map_of rest"
    using "2.IH" new "2.prems"(2,3) by fastforce
  have "map_of rest name = None" using "2.prems"(3) by (auto simp: map_of_eq_None_iff)
  then have "map_of r = map_of merged ++ map_of ((name, v) # rest)"
    unfolding r(3) by (auto simp: map_of_bt_insert fun_eq_iff map_add_def split: option.splits)
  with r(1,2) show ?case unfolding insert_new.simps using new by (simp only: not_None_eq if_False) (metis option.distinct(1))
qed simp

lemma insert_new_names:
  assumes "insert_new message merged vals = Inr r"
  shows "distinct (map fst vals) \<and> fst ` set merged \<inter> fst ` set vals = {} \<and> fst ` set r = fst ` set merged \<union> fst ` set vals"
  using assms
  by (induction message merged vals rule: insert_new.induct)
     (auto simp: fst_set_bt_insert map_of_eq_None_iff split: if_splits)

definition describes_missing :: "link_registry \<Rightarrow> pending_setups \<Rightarrow> string \<Rightarrow> string \<Rightarrow> bool" where
  "describes_missing reg pending component operation \<longleftrightarrow>
     (\<exists>m\<in>set (setups_for (lr_operations reg) component operation). map_of pending (key_of m) = None)"

lemma merge_required_result:
  assumes "pending_ok reg pending" "value_ok (VMap merged)" "\<forall>req\<in>set reqs. setup_declaration reg (fst req) \<noteq> None"
    "distinct (concat (map (setup_names reg) (map fst reqs)))" "fst ` set merged \<inter> (\<Union>req\<in>set reqs. set (setup_names reg (fst req))) = {}"
  shows "if \<exists>req\<in>set reqs. map_of pending (fst req) = None
    then \<exists>m. merge_required component operation pending merged reqs = Inl (CaptureError SetupMissing m)
    else \<exists>r. merge_required component operation pending merged reqs = Inr r \<and> value_ok (VMap r) \<and>
      fst ` set r \<subseteq> fst ` set merged \<union> (\<Union>req\<in>set reqs. set (setup_names reg (fst req))) \<and>
      map_of merged \<subseteq>\<^sub>m map_of r \<and> (\<forall>req\<in>set reqs. map_of (the (map_of pending (fst req))) \<subseteq>\<^sub>m map_of r)"
  using assms
proof (induction component operation pending merged reqs rule: merge_required.induct)
  case (2 component operation pending merged req reqs)
  show ?case
  proof (cases "map_of pending (fst req)")
    case None
    then show ?thesis by (simp add: setup_missing_def)
  next
    case (Some vals)
    have vals: "value_ok (VMap vals)" "fst ` set vals \<subseteq> set (setup_names reg (fst req))"
      using pending_okD [OF "2.prems"(1) Some] "2.prems"(3) by auto
    have "distinct (map fst vals)" "\<forall>kv\<in>set vals. value_ok (snd kv)" using vals(1) by (simp_all add: bt_wf_def strict_sorted_iff)
    moreover have apart: "fst ` set merged \<inter> fst ` set vals = {}" using vals(2) "2.prems"(5) by fastforce
    ultimately obtain mid where mid: "insert_new (collides component operation (fst (snd (snd (snd (fst req)))))) merged vals = Inr mid"
      "value_ok (VMap mid)" "map_of mid = map_of merged ++ map_of vals"
      using insert_new_result [OF "2.prems"(2)] by blast
    have names: "fst ` set mid = fst ` set merged \<union> fst ` set vals" using insert_new_names [OF mid(1)] by simp
    have sub: "map_of merged \<subseteq>\<^sub>m map_of mid" "map_of vals \<subseteq>\<^sub>m map_of mid"
      using apart map_add_comm [of "map_of merged" "map_of vals"] unfolding mid(3)
      by (auto simp: dom_map_of_conv_image_fst map_le_map_add) (metis map_le_map_add)
    have IH: "if \<exists>req\<in>set reqs. map_of pending (fst req) = None
      then \<exists>m. merge_required component operation pending mid reqs = Inl (CaptureError SetupMissing m)
      else \<exists>r. merge_required component operation pending mid reqs = Inr r \<and> value_ok (VMap r) \<and>
        fst ` set r \<subseteq> fst ` set mid \<union> (\<Union>req\<in>set reqs. set (setup_names reg (fst req))) \<and>
        map_of mid \<subseteq>\<^sub>m map_of r \<and> (\<forall>req\<in>set reqs. map_of (the (map_of pending (fst req))) \<subseteq>\<^sub>m map_of r)"
    proof (rule "2.IH" [OF Some mid(1) "2.prems"(1) mid(2)])
      show "\<forall>req\<in>set reqs. setup_declaration reg (fst req) \<noteq> None" "distinct (concat (map (setup_names reg) (map fst reqs)))"
        using "2.prems"(3,4) by simp_all
      have "set (setup_names reg (fst req)) \<inter> (\<Union>req\<in>set reqs. set (setup_names reg (fst req))) = {}"
        using "2.prems"(4) by auto
      then show "fst ` set mid \<inter> (\<Union>req\<in>set reqs. set (setup_names reg (fst req))) = {}"
        using "2.prems"(5) vals(2) unfolding names by fastforce
    qed
    show ?thesis
    proof (cases "\<exists>req\<in>set reqs. map_of pending (fst req) = None")
      case True
      then show ?thesis using IH Some mid(1) by (simp add: and_then_def)
    next
      case False
      then obtain r where r: "merge_required component operation pending mid reqs = Inr r" "value_ok (VMap r)"
        "fst ` set r \<subseteq> fst ` set mid \<union> (\<Union>req\<in>set reqs. set (setup_names reg (fst req)))" "map_of mid \<subseteq>\<^sub>m map_of r"
        "\<forall>req\<in>set reqs. map_of (the (map_of pending (fst req))) \<subseteq>\<^sub>m map_of r"
        using IH unfolding if_not_P [OF False] by blast
      have "fst ` set r \<subseteq> fst ` set merged \<union> (\<Union>req\<in>set (req # reqs). set (setup_names reg (fst req)))"
        using r(3) vals(2) unfolding names by auto
      moreover have "map_of merged \<subseteq>\<^sub>m map_of r" "map_of vals \<subseteq>\<^sub>m map_of r" using sub r(4) map_le_trans by blast+
      ultimately show ?thesis using False Some mid(1) r by (simp add: and_then_def)
    qed
  qed
qed simp

lemma setup_declared: "m \<in> set (lr_operations reg) \<Longrightarrow> om_setup m \<Longrightarrow> setup_declaration reg (key_of m) \<noteq> None"
  by (auto simp: setup_declaration_def find_None_iff)

lemma declared_operation:
  "operation_declaration reg component operation = Some op \<Longrightarrow>
   op \<in> set (lr_operations reg) \<and> \<not> om_setup op \<and> om_component op = component \<and> om_name op = operation"
  unfolding operation_declaration_def find_Some_iff by force

text \<open>Everything that folding a declared operation of an accepted registry can return.\<close>

lemma folded_inputs_result:
  assumes "validate_declared_folding reg = Inr ()" "identified (lr_operations reg)" "pending_ok reg pending"
    and op: "operation_declaration reg component operation = Some op"
  shows "if describes_missing reg pending component operation
    then \<exists>m. folded_inputs reg pending component operation = Inl (CaptureError SetupMissing m)
    else \<exists>merged plan. folded_inputs reg pending component operation = Inr (merged, plan_filled plan) \<and> value_ok (VMap merged) \<and>
      distinct (field_names (lr_types reg) op (unfilled plan op)) \<and>
      fst ` set merged \<inter> set (field_names (lr_types reg) op (unfilled plan op)) = {} \<and>
      (\<forall>m\<in>set (setups_for (lr_operations reg) component operation). map_of (the (map_of pending (key_of m))) \<subseteq>\<^sub>m map_of merged)"
proof -
  define setups where "setups = setups_for (lr_operations reg) component operation"
  note d = declared_operation [OF op]
  obtain plan where plan: "plan_declared_setups op setups = Inr plan" "map fst (plan_required plan) = map key_of setups"
    "distinct (concat (map (setup_names reg) (map key_of setups)) @ field_names (lr_types reg) op (unfilled plan op))"
    using accepted_operation [OF accepted_registry [OF assms(1)] assms(2)] d by (auto simp: setups_def)
  have reqs: "fst ` set (plan_required plan) = key_of ` set setups" using plan(2) by (metis set_map)
  have known: "setup_declaration reg (fst req) \<noteq> None" if "req \<in> set (plan_required plan)" for req
  proof -
    have "fst req \<in> key_of ` set setups" using that reqs by blast
    then show ?thesis using setup_declared by (fastforce simp: setups_def setups_for_def)
  qed
  have missing: "(\<exists>req\<in>set (plan_required plan). map_of pending (fst req) = None) \<longleftrightarrow> describes_missing reg pending component operation"
    unfolding describes_missing_def setups_def [symmetric] using reqs by (metis (no_types, lifting) imageE image_eqI)
  have names: "(\<Union>req\<in>set (plan_required plan). set (setup_names reg (fst req))) = set (concat (map (setup_names reg) (map key_of setups)))"
    unfolding plan(2) [symmetric] by simp
  have dist: "distinct (concat (map (setup_names reg) (map fst (plan_required plan))))"
    using plan(3) unfolding plan(2) distinct_append by blast
  have res: "if describes_missing reg pending component operation
    then \<exists>m. merge_required component operation pending [] (plan_required plan) = Inl (CaptureError SetupMissing m)
    else \<exists>r. merge_required component operation pending [] (plan_required plan) = Inr r \<and> value_ok (VMap r) \<and>
      fst ` set r \<subseteq> (\<Union>req\<in>set (plan_required plan). set (setup_names reg (fst req))) \<and>
      (\<forall>req\<in>set (plan_required plan). map_of (the (map_of pending (fst req))) \<subseteq>\<^sub>m map_of r)"
    using merge_required_result [OF assms(3) _ _ dist, of "[]" component operation] known missing by (simp add: bt_wf_def split: if_splits)
  have folded: "folded_inputs reg pending component operation =
    and_then (merge_required component operation pending [] (plan_required plan)) (\<lambda>merged. Inr (merged, plan_filled plan))"
    using plan(1) op by (simp add: folded_inputs_def and_then_def setups_def)
  show ?thesis
  proof (cases "describes_missing reg pending component operation")
    case True
    then show ?thesis using res folded by (auto simp: and_then_def)
  next
    case False
    then obtain r where r: "merge_required component operation pending [] (plan_required plan) = Inr r" "value_ok (VMap r)"
      "fst ` set r \<subseteq> set (concat (map (setup_names reg) (map key_of setups)))"
      "\<forall>req\<in>set (plan_required plan). map_of (the (map_of pending (fst req))) \<subseteq>\<^sub>m map_of r"
      using res unfolding if_not_P [OF False] names by blast
    have "\<forall>m\<in>set setups. map_of (the (map_of pending (key_of m))) \<subseteq>\<^sub>m map_of r"
    proof
      fix m assume "m \<in> set setups"
      then obtain req where "req \<in> set (plan_required plan)" "fst req = key_of m" using reqs by (metis imageE image_eqI)
      then show "map_of (the (map_of pending (key_of m))) \<subseteq>\<^sub>m map_of r" using r(4) by fastforce
    qed
    moreover have "fst ` set r \<inter> set (field_names (lr_types reg) op (unfilled plan op)) = {}"
      using r(3) plan(3) unfolding distinct_append by blast
    moreover have "folded_inputs reg pending component operation = Inr (r, plan_filled plan)" using folded r(1) by (simp add: and_then_def)
    moreover have "distinct (field_names (lr_types reg) op (unfilled plan op))" using plan(3) unfolding distinct_append by blast
    ultimately show ?thesis unfolding if_not_P [OF False] setups_def [symmetric] using r(2) by blast
  qed
qed

section \<open>Folding one input\<close>

lemma take_member_ok: "take_member path v = Inr (x, v') \<Longrightarrow> value_ok v \<Longrightarrow> value_ok x \<and> value_ok v'"
proof (induction path v arbitrary: x v' rule: take_member.induct)
  case (2 m ms kvs)
  obtain w where w: "map_of kvs m = Some w" using "2.prems"(1) by (auto split: option.splits)
  then obtain w' where w': "take_member ms w = Inr (x, w')" "v' = VMap (bt_insert m w' kvs)"
    using "2.prems"(1) by (auto simp: and_then_def split: sum.splits)
  have "value_ok w" using map_of_SomeD [OF w] "2.prems"(2) by auto
  from "2.IH" [OF w w'(1) this] have "value_ok x" "value_ok w'" by simp_all
  then show ?case using value_ok_insert [OF "2.prems"(2)] w'(2) by blast
qed (simp_all add: bt_wf_def)

lemma project_fields_result:
  "project_fields fs v = Inr vals \<Longrightarrow> map fst vals = map (fst \<circ> fst) fs \<and> (value_ok v \<longrightarrow> (\<forall>kv\<in>set vals. value_ok (snd kv)))"
proof (induction fs v arbitrary: vals rule: project_fields.induct)
  case (2 field path fs v)
  obtain x v' where xv: "take_member path v = Inr (x, v')" using "2.prems" by (auto simp: and_then_def split: sum.splits)
  then obtain rest where rest: "project_fields fs v' = Inr rest" "vals = (fst field, x) # rest"
    using "2.prems" by (auto simp: and_then_def split: sum.splits)
  show ?case using "2.IH" [OF xv refl rest(1)] rest(2) take_member_ok [OF xv] by simp
qed simp

lemma fold_input_result:
  assumes "fold_input types op name v = Inr vals"
  shows "map fst vals = (case find (\<lambda>p. fst p = name) (om_params op) of None \<Rightarrow> [name] | Some p \<Rightarrow> names_of (input_fields types op p))"
    "value_ok v \<Longrightarrow> \<forall>kv\<in>set vals. value_ok (snd kv)"
proof -
  consider "find (\<lambda>p. fst p = name) (om_params op) = None" "vals = [(name, v)]"
    | p fs where "find (\<lambda>p. fst p = name) (om_params op) = Some p" "input_fields types op p = Inr fs" "project_fields fs v = Inr vals"
    using assms by (auto simp: fold_input_def and_then_def split: option.splits sum.splits)
  then show "map fst vals = (case find (\<lambda>p. fst p = name) (om_params op) of None \<Rightarrow> [name] | Some p \<Rightarrow> names_of (input_fields types op p))"
    "value_ok v \<Longrightarrow> \<forall>kv\<in>set vals. value_ok (snd kv)"
    by (cases; simp add: names_of_def project_fields_result)+
qed

lemma native_and_then_no_panic:
  "no_native_panic r \<Longrightarrow> (\<And>x. r = Inr x \<Longrightarrow> no_native_panic (f x)) \<Longrightarrow> no_native_panic (and_then r f)"
  by (cases r) (simp_all add: no_native_panic_def and_then_def)

lemma no_panic_Inr: "no_native_panic (Inr x)"
  by (simp add: no_native_panic_def)

lemma no_panic_error: "no_native_panic (Inl (CaptureError kind m))"
  by (simp add: no_native_panic_def)

lemma concat_result_no_panic: "(\<And>x. x \<in> set xs \<Longrightarrow> no_native_panic (f x)) \<Longrightarrow> no_native_panic (concat_result f xs)"
  by (induction xs) (auto intro!: native_and_then_no_panic simp: no_panic_Inr)

lemma property_type_no_panic: "no_native_panic (property_type types op source)"
  by (simp add: property_type_def Let_def no_panic_Inr no_panic_error setup_collision_def split: list.split)

lemma visit_field_no_panic: "no_native_panic (visit_field types op field path visiting)"
proof (induction types op field path visiting rule: visit_field.induct)
  case (1 types op field path visiting)
  show ?case
  proof (cases "property_type types op (snd field)")
    case (Inl e)
    then show ?thesis using property_type_no_panic [of types op "snd field"] by (simp add: visit_field.simps no_native_panic_def)
  next
    case (Inr r)
    then show ?thesis
      using 1 [OF Inr]
      by (cases r) (auto simp: visit_field.simps no_panic_Inr no_panic_error setup_collision_def intro!: concat_result_no_panic)
  qed
qed

lemma take_member_no_panic: "no_native_panic (take_member path v)"
  by (induction path v rule: take_member.induct)
     (auto simp: no_panic_Inr no_panic_error config_error_def split: option.splits intro!: native_and_then_no_panic)

lemma project_fields_no_panic: "no_native_panic (project_fields fs v)"
  by (induction fs v rule: project_fields.induct)
     (auto simp: no_panic_Inr intro!: native_and_then_no_panic take_member_no_panic)

lemma fold_input_no_panic: "no_native_panic (fold_input types op name v)"
  by (auto simp: fold_input_def input_fields_def no_panic_Inr split: option.splits
      intro!: native_and_then_no_panic visit_field_no_panic project_fields_no_panic)

lemma field_names_apart:
  assumes "distinct (field_names types op ps)" "p \<in> set ps" "q \<in> set ps" "p \<noteq> q"
  shows "set (names_of (input_fields types op p)) \<inter> set (names_of (input_fields types op q)) = {}"
  using assms by (induction ps) (auto simp: field_names_def)

section \<open>Recording the arguments of an operation\<close>

text \<open>The generated code records each argument once, in some order, before the body runs.\<close>

fun record_arguments :: "link_registry \<Rightarrow> nat \<Rightarrow> (string \<times> capture_value) list \<Rightarrow> unit action" where
  "record_arguments reg i [] s = (Inr (), s)"
| "record_arguments reg i ((name, v) # args) s =
     act_bind (record_input i name (scope_fold reg (ns_operations s ! i) name v)) (\<lambda>_. record_arguments reg i args) s"

lemma record_inputs_names:
  assumes "i < length (ns_operations s)" "distinct (map fst vals)" "fst ` set (pend_inputs (ns_operations s ! i)) \<inter> fst ` set vals = {}"
  shows "\<exists>s'. record_inputs i vals s = (Inr (), s') \<and> i < length (ns_operations s') \<and>
    (\<exists>kvs. ns_operations s' ! i = (ns_operations s ! i)\<lparr>pend_inputs := kvs\<rparr> \<and>
       map_of kvs = map_of (pend_inputs (ns_operations s ! i)) ++ map_of vals)"
  using assms
proof (induction i vals s rule: record_inputs.induct)
  case (1 i s)
  then show ?case
    unfolding record_inputs.simps by (intro exI [of _ s] conjI exI [of _ "pend_inputs (ns_operations s ! i)"]) simp_all
next
  case (2 i name v vals s)
  define p where "p = ns_operations s ! i"
  define s' where "s' = update_operation i (\<lambda>p. p\<lparr>pend_inputs := bt_insert name v (pend_inputs p)\<rparr>) s"
  have s': "i < length (ns_operations s')" "ns_operations s' ! i = p\<lparr>pend_inputs := bt_insert name v (pend_inputs p)\<rparr>"
    using "2.prems"(1) by (simp_all add: s'_def update_operation_def p_def)
  have new: "map_of (pend_inputs p) name = None" using "2.prems"(3) by (auto simp: p_def map_of_eq_None_iff)
  have apart: "fst ` set (pend_inputs (ns_operations s' ! i)) \<inter> fst ` set vals = {}"
    using "2.prems"(2,3) by (auto simp: s' p_def fst_set_bt_insert)
  have "\<exists>t. record_inputs i vals s' = (Inr (), t) \<and> i < length (ns_operations t) \<and>
    (\<exists>kvs. ns_operations t ! i = (ns_operations s' ! i)\<lparr>pend_inputs := kvs\<rparr> \<and>
       map_of kvs = map_of (pend_inputs (ns_operations s' ! i)) ++ map_of vals)"
    by (rule "2.IH" [OF refl s'_def _ s'(1) _ apart]) (use new "2.prems"(2) in \<open>simp_all add: p_def\<close>)
  then obtain t kvs where t: "record_inputs i vals s' = (Inr (), t)" "i < length (ns_operations t)"
    "ns_operations t ! i = p\<lparr>pend_inputs := kvs\<rparr>" "map_of kvs = map_of (bt_insert name v (pend_inputs p)) ++ map_of vals"
    unfolding s'(2) by auto
  have "map_of vals name = None" using "2.prems"(2) by (auto simp: map_of_eq_None_iff)
  then have "map_of kvs = map_of (pend_inputs p) ++ map_of ((name, v) # vals)"
    unfolding t(4) by (auto simp: map_of_bt_insert fun_eq_iff map_add_def split: option.splits)
  moreover have "record_inputs i ((name, v) # vals) s = (Inr (), t)" using t(1) new by (simp add: s'_def [symmetric] p_def [symmetric] Let_def)
  ultimately show ?case using t(2,3) unfolding p_def by blast
qed

text \<open>The arguments still to record name parameters, and the unfilled ones fold to names not yet recorded.\<close>

definition recordable :: "link_registry \<Rightarrow> op_meta \<Rightarrow> (string \<times> capture_value) list \<Rightarrow> pending_operation \<Rightarrow> bool" where
  "recordable reg op args p \<longleftrightarrow>
     pend_status p = None \<and> pend_component p = om_component op \<and> pend_name p = om_name op \<and> distinct (map fst args) \<and>
     (\<forall>arg\<in>set args. fst arg \<notin> set (pend_filled p) \<longrightarrow>
        (\<exists>q\<in>set (om_params op). find (\<lambda>q. fst q = fst arg) (om_params op) = Some q \<and>
           fst ` set (pend_inputs p) \<inter> set (names_of (input_fields (lr_types reg) op q)) = {}))"

lemma find_fst: "find (\<lambda>q. fst q = name) ps = Some q \<Longrightarrow> fst q = name \<and> q \<in> set ps"
  by (auto simp: find_Some_iff)

lemma found_param:
  assumes "name \<in> fst ` set ps"
  obtains q where "find (\<lambda>q. fst q = name) ps = Some q" "fst q = name" "q \<in> set ps"
proof (cases "find (\<lambda>q. fst q = name) ps")
  case None
  then show thesis using assms by (auto simp: find_None_iff)
next
  case (Some q)
  then show thesis using that find_fst [OF Some] by blast
qed

lemma distinct_field_names: "distinct (field_names types op ps) \<Longrightarrow> q \<in> set ps \<Longrightarrow> distinct (names_of (input_fields types op q))"
  by (auto simp: field_names_def distinct_concat_iff)

text \<open>Recording one argument keeps the others recordable.\<close>

lemma recordable_next:
  assumes names: "distinct (field_names (lr_types reg) op (unfilled plan op))"
    and p: "recordable reg op (arg # args) p" "pend_filled p = plan_filled plan"
    and q: "find (\<lambda>q. fst q = fst arg) (om_params op) = Some q" "fst arg \<notin> set (plan_filled plan)"
    and kvs: "fst ` set kvs = fst ` set (pend_inputs p) \<union> set (names_of (input_fields (lr_types reg) op q))"
  shows "recordable reg op args (p\<lparr>pend_inputs := kvs\<rparr>)"
  unfolding recordable_def
proof (intro conjI ballI impI)
  note rec = p(1) [unfolded recordable_def]
  have q_in: "q \<in> set (unfilled plan op)" "fst q = fst arg" using find_fst [OF q(1)] q(2) by (simp_all add: unfilled_def)
  fix other assume o: "other \<in> set args" "fst other \<notin> set (pend_filled (p\<lparr>pend_inputs := kvs\<rparr>))"
  have "fst other \<notin> set (pend_filled p)" using o(2) by simp
  then obtain r where r: "r \<in> set (om_params op)" "find (\<lambda>q. fst q = fst other) (om_params op) = Some r"
    "fst ` set (pend_inputs p) \<inter> set (names_of (input_fields (lr_types reg) op r)) = {}"
    using rec o(1) by (metis list.set_intros(2))
  have "fst arg \<notin> fst ` set args" using rec by simp
  then have "fst other \<noteq> fst arg" using o(1) by (metis image_eqI)
  then have "r \<noteq> q" "r \<in> set (unfilled plan op)"
    using find_fst [OF r(2)] q_in(2) o(2) p(2) by (auto simp: unfilled_def)
  from field_names_apart [OF names this(2) q_in(1) this(1)] r
  have "fst ` set kvs \<inter> set (names_of (input_fields (lr_types reg) op r)) = {}" unfolding kvs by blast
  then show "\<exists>q\<in>set (om_params op). find (\<lambda>q. fst q = fst other) (om_params op) = Some q \<and>
     fst ` set (pend_inputs (p\<lparr>pend_inputs := kvs\<rparr>)) \<inter> set (names_of (input_fields (lr_types reg) op q)) = {}"
    using r(1,2) by auto
qed (use p(1) in \<open>simp_all add: recordable_def\<close>)

lemma record_arguments_no_panic:
  assumes "operation_declaration reg (om_component op) (om_name op) = Some op"
    and names: "distinct (field_names (lr_types reg) op (unfilled plan op))"
  shows "i < length (ns_operations s) \<Longrightarrow> pend_filled (ns_operations s ! i) = plan_filled plan \<Longrightarrow>
    recordable reg op args (ns_operations s ! i) \<Longrightarrow> no_native_panic (fst (record_arguments reg i args s))"
proof (induction args arbitrary: s)
  case Nil
  then show ?case by (simp add: no_panic_Inr)
next
  case (Cons arg args)
  obtain name v where arg: "arg = (name, v)" by fastforce
  define p where "p = ns_operations s ! i"
  note rec = Cons.prems(3) [folded p_def, unfolded recordable_def]
  have fold: "scope_fold reg p name v = fold_input (lr_types reg) op name v"
    using assms(1) rec by (simp add: scope_fold_def fold_declared_def)
  show ?case
  proof (cases "name \<in> set (plan_filled plan)")
    case True
    have "recordable reg op args p" using rec by (simp add: recordable_def)
    then have "no_native_panic (fst (record_arguments reg i args s))" using Cons.IH Cons.prems(1,2) by (simp add: p_def)
    moreover have "record_input i name (scope_fold reg p name v) s = (Inr (), s)"
      using True Cons.prems(1,2) rec by (simp add: record_input_def p_def)
    ultimately show ?thesis by (simp add: arg act_bind_def p_def)
  next
    case False
    obtain q where q: "find (\<lambda>q. fst q = name) (om_params op) = Some q"
      "fst ` set (pend_inputs p) \<inter> set (names_of (input_fields (lr_types reg) op q)) = {}"
      using rec False Cons.prems(2) by (auto simp: arg p_def)
    have q_in: "q \<in> set (unfilled plan op)" "fst q = name" using find_fst [OF q(1)] False by (simp_all add: unfilled_def)
    show ?thesis
    proof (cases "fold_input (lr_types reg) op name v")
      case (Inl e)
      then have "record_input i name (scope_fold reg p name v) s = (Inl e, s)"
        using False Cons.prems(1,2) rec fold by (simp add: record_input_def p_def)
      then show ?thesis
        using Inl fold_input_no_panic [of "lr_types reg" op name v] by (simp add: arg act_bind_def p_def no_native_panic_def)
    next
      case (Inr vals)
      have vals: "map fst vals = names_of (input_fields (lr_types reg) op q)" using fold_input_result(1) [OF Inr] q(1) by simp
      have "\<exists>t. record_inputs i vals s = (Inr (), t) \<and> i < length (ns_operations t) \<and>
        (\<exists>kvs. ns_operations t ! i = p\<lparr>pend_inputs := kvs\<rparr> \<and> map_of kvs = map_of (pend_inputs p) ++ map_of vals)"
        unfolding p_def using Cons.prems(1)
      proof (rule record_inputs_names)
        show "distinct (map fst vals)" using vals distinct_field_names [OF names q_in(1)] by simp
        show "fst ` set (pend_inputs (ns_operations s ! i)) \<inter> fst ` set vals = {}"
          using q(2) vals unfolding p_def by (metis set_map)
      qed
      then obtain t kvs where t: "record_inputs i vals s = (Inr (), t)" "i < length (ns_operations t)"
        "ns_operations t ! i = p\<lparr>pend_inputs := kvs\<rparr>" "map_of kvs = map_of (pend_inputs p) ++ map_of vals" by blast
      have keys: "fst ` set kvs = fst ` set (pend_inputs p) \<union> set (names_of (input_fields (lr_types reg) op q))"
        using arg_cong [OF t(4), of dom] vals by (metis dom_map_add dom_map_of_conv_image_fst set_map sup_commute)
      have "recordable reg op args (p\<lparr>pend_inputs := kvs\<rparr>)"
        using recordable_next [OF names Cons.prems(3) [folded p_def] _ _ _ keys] q(1) False Cons.prems(2) by (simp add: arg p_def)
      then have "no_native_panic (fst (record_arguments reg i args t))"
        using Cons.IH t(2,3) Cons.prems(2) by (simp add: p_def)
      moreover have "record_input i name (scope_fold reg p name v) s = (Inr (), t)"
        using False Cons.prems(1,2) rec fold Inr t(1) by (simp add: record_input_def p_def)
      ultimately show ?thesis by (simp add: arg act_bind_def p_def)
    qed
  qed
qed

section \<open>Setups that ran\<close>

lemma insert_new_ok:
  assumes "insert_new message merged vals = Inr r" "value_ok (VMap merged)" "\<forall>kv\<in>set vals. value_ok (snd kv)"
  shows "value_ok (VMap r)"
  using insert_new_result [OF assms(2,3), of message] insert_new_names [OF assms(1)] assms(1) by fastforce

lemma record_fields_result:
  assumes fold: "\<And>name v ws. fold_one name v = Inr ws \<Longrightarrow> value_ok v \<Longrightarrow> map fst ws = g name \<and> (\<forall>kv\<in>set ws. value_ok (snd kv))"
  shows "record_fields message fold_one recorded vals = Inr r \<Longrightarrow> value_ok (VMap recorded) \<Longrightarrow> \<forall>kv\<in>set vals. value_ok (snd kv) \<Longrightarrow>
    value_ok (VMap r) \<and> fst ` set r = fst ` set recorded \<union> (\<Union>kv\<in>set vals. set (g (fst kv)))"
proof (induction vals arbitrary: recorded)
  case (Cons kv rest)
  obtain name v where kv: "kv = (name, v)" by fastforce
  obtain ws mid where ws: "fold_one name v = Inr ws" "insert_new message recorded ws = Inr mid" "record_fields message fold_one mid rest = Inr r"
    using Cons.prems(1) by (auto simp: kv and_then_def split: sum.splits)
  have f: "map fst ws = g name" "\<forall>kv\<in>set ws. value_ok (snd kv)" using fold [OF ws(1)] Cons.prems(3) by (simp_all add: kv)
  have "fst ` set mid = fst ` set recorded \<union> set (g name)" using insert_new_names [OF ws(2)] f(1) by (metis set_map)
  then show ?case using Cons.IH [OF ws(3) insert_new_ok [OF ws(2) Cons.prems(2) f(2)]] Cons.prems(3) by (auto simp: kv)
qed simp

lemma record_fields_no_panic:
  assumes fold: "\<And>name v ws. fold_one name v = Inr ws \<Longrightarrow> value_ok v \<Longrightarrow> map fst ws = g name \<and> (\<forall>kv\<in>set ws. value_ok (snd kv))"
    and total: "\<And>name v. no_native_panic (fold_one name v)"
  shows "value_ok (VMap recorded) \<Longrightarrow> \<forall>kv\<in>set vals. value_ok (snd kv) \<Longrightarrow> distinct (concat (map (g \<circ> fst) vals)) \<Longrightarrow>
    fst ` set recorded \<inter> (\<Union>kv\<in>set vals. set (g (fst kv))) = {} \<Longrightarrow> no_native_panic (record_fields message fold_one recorded vals)"
proof (induction vals arbitrary: recorded)
  case (Cons kv rest)
  obtain name v where kv: "kv = (name, v)" by fastforce
  have "no_native_panic (and_then (insert_new message recorded ws) (\<lambda>mid. record_fields message fold_one mid rest))"
    if ws: "fold_one name v = Inr ws" for ws
  proof -
    have f: "map fst ws = g name" "\<forall>kv\<in>set ws. value_ok (snd kv)" using fold [OF ws] Cons.prems(2) by (simp_all add: kv)
    have names: "fst ` set ws = set (g name)" using f(1) by (metis set_map)
    have "distinct (map fst ws)" "fst ` set recorded \<inter> fst ` set ws = {}"
      using Cons.prems(3,4) by (auto simp: kv f(1) names)
    from insert_new_result [OF Cons.prems(1) f(2) this, of message] obtain mid
      where mid: "insert_new message recorded ws = Inr mid" "value_ok (VMap mid)" by blast
    have "fst ` set mid \<inter> (\<Union>kv\<in>set rest. set (g (fst kv))) = {}"
      using insert_new_names [OF mid(1)] Cons.prems(3,4) by (auto simp: kv names)
    then have "no_native_panic (record_fields message fold_one mid rest)"
      using Cons.IH [OF mid(2)] Cons.prems(2,3) by (simp add: kv)
    then show ?thesis using mid(1) by (simp add: and_then_def)
  qed
  then show ?case unfolding kv record_fields.simps by (rule native_and_then_no_panic [OF total])
qed (simp add: no_panic_Inr)

text \<open>The names that one value of a setup folds to.\<close>

definition param_names :: "type_meta list \<Rightarrow> op_meta \<Rightarrow> string \<Rightarrow> string list" where
  "param_names types m name =
     (case find (\<lambda>p. fst p = name) (om_params m) of None \<Rightarrow> [name] | Some p \<Rightarrow> names_of (input_fields types m p))"

lemma param_names_subset: "name \<in> fst ` set (om_params m) \<Longrightarrow> set (param_names types m name) \<subseteq> set (field_names types m (om_params m))"
proof -
  assume "name \<in> fst ` set (om_params m)"
  then obtain q where "find (\<lambda>p. fst p = name) (om_params m) = Some q" "q \<in> set (om_params m)"
    by (rule found_param)
  then show ?thesis by (auto simp: param_names_def field_names_def)
qed

lemma param_names_distinct:
  assumes "distinct (field_names types m (om_params m))"
  shows "distinct names \<Longrightarrow> set names \<subseteq> fst ` set (om_params m) \<Longrightarrow> distinct (concat (map (param_names types m) names))"
proof (induction names)
  case (Cons name names)
  have "name \<in> fst ` set (om_params m)" using Cons.prems(2) by simp
  then obtain q where q: "find (\<lambda>p. fst p = name) (om_params m) = Some q" "fst q = name" "q \<in> set (om_params m)" by (rule found_param)
  have "set (param_names types m name) \<inter> set (param_names types m n) = {}" if n: "n \<in> set names" for n
  proof -
    have "n \<in> fst ` set (om_params m)" using n Cons.prems(2) by auto
    then obtain r where r: "find (\<lambda>p. fst p = n) (om_params m) = Some r" "fst r = n" "r \<in> set (om_params m)" by (rule found_param)
    have "q \<noteq> r" using q(2) r(2) n Cons.prems(1) by auto
    then show ?thesis using field_names_apart [OF assms q(3) r(3)] q(1) r(1) by (simp add: param_names_def)
  qed
  then show ?case using Cons distinct_field_names [OF assms q(3)] q(1) by (auto simp: param_names_def)
qed simp

lemma fold_declared_result:
  "fold_declared reg (Some m) name v = Inr ws \<Longrightarrow> value_ok v \<Longrightarrow>
   map fst ws = param_names (lr_types reg) m name \<and> (\<forall>kv\<in>set ws. value_ok (snd kv))"
  using fold_input_result [of "lr_types reg" m name v ws] by (simp add: fold_declared_def param_names_def)

text \<open>What running a declared setup with some of its parameters leaves.\<close>

lemma record_values_pending:
  assumes "record_values render reg requested key vals pending = (r, pending')"
  obtains "pending' = pending"
  | message recorded where "record_fields message (fold_declared reg (setup_declaration reg key)) [] vals = Inr recorded"
      "pending' = bt_insert key recorded pending"
proof -
  obtain component operation module fn fills where key: "key = (component, operation, module, fn, fills)" by (metis prod_cases5)
  show thesis
    using assms that unfolding record_values_def key [symmetric]
    by (auto simp: key split: if_splits sum.splits option.splits)
qed

lemma record_values_ok:
  assumes "pending_ok reg pending" "setup_declaration reg key = Some m" "fst ` set vals \<subseteq> fst ` set (om_params m)"
    "\<forall>kv\<in>set vals. value_ok (snd kv)" "record_values render reg requested key vals pending = (r, pending')"
  shows "pending_ok reg pending'"
  using assms(5)
proof (cases rule: record_values_pending)
  case 1
  then show ?thesis using assms(1) by simp
next
  case (2 message recorded)
  have r: "value_ok (VMap recorded)" "fst ` set recorded = (\<Union>kv\<in>set vals. set (param_names (lr_types reg) m (fst kv)))"
    using record_fields_result [where g = "param_names (lr_types reg) m", OF fold_declared_result 2(1) [unfolded assms(2)] _ assms(4)] by (simp_all add: bt_wf_def)
  have "(\<Union>kv\<in>set vals. set (param_names (lr_types reg) m (fst kv))) \<subseteq> set (setup_names reg key)"
  proof
    fix x assume "x \<in> (\<Union>kv\<in>set vals. set (param_names (lr_types reg) m (fst kv)))"
    then obtain kv where "kv \<in> set vals" "x \<in> set (param_names (lr_types reg) m (fst kv))" by blast
    moreover from this(1) have "fst kv \<in> fst ` set (om_params m)" using assms(3) by blast
    ultimately show "x \<in> set (setup_names reg key)" using param_names_subset assms(2) by (auto simp: setup_names_def)
  qed
  then have new: "case x of (key, vals) \<Rightarrow> value_ok (VMap vals) \<and>
      (setup_declaration reg key \<noteq> None \<longrightarrow> fst ` set vals \<subseteq> set (setup_names reg key))" if "x = (key, recorded)" for x
    using r that by simp
  show ?thesis
    unfolding pending_ok_def 2(2) using assms(1) [unfolded pending_ok_def] new bt_insert_subset [of key recorded pending] by blast
qed

lemma setup_names_distinct:
  assumes "validate_declared_folding reg = Inr ()" "identified (lr_operations reg)" "m \<in> set (lr_operations reg)" "om_setup m"
    and op: "operation_declaration reg (om_component m) (om_name m) = Some op"
  shows "distinct (setup_names reg (key_of m))"
proof -
  note d = declared_operation [OF op]
  obtain plan where "distinct (concat (map (setup_names reg) (map key_of (setups_for (lr_operations reg) (om_component op) (om_name op)))) @
      field_names (lr_types reg) op (unfilled plan op))"
    using accepted_operation [OF accepted_registry [OF assms(1)] assms(2) refl] d by metis
  moreover have "m \<in> set (setups_for (lr_operations reg) (om_component op) (om_name op))" using d assms(3,4) by (simp add: setups_for_def)
  ultimately show ?thesis by (auto simp: distinct_concat_iff)
qed

lemma record_values_result:
  assumes "setup_declaration reg key = Some m" "distinct (setup_names reg key)" "distinct (map fst vals)"
    "fst ` set vals \<subseteq> fst ` set (om_params m)" "\<forall>kv\<in>set vals. value_ok (snd kv)"
  shows "no_native_panic (fst (record_values render reg requested key vals pending))"
proof -
  obtain component operation module fn fills where key: "key = (component, operation, module, fn, fills)" by (metis prod_cases5)
  have "distinct (concat (map (param_names (lr_types reg) m) (map fst vals)))"
    using param_names_distinct [OF _ assms(3), of "lr_types reg" m] assms(1,2,4) by (simp add: setup_names_def)
  then have "no_native_panic (record_fields message (fold_declared reg (Some m)) [] vals)" for message
    using assms(5) fold_input_no_panic
    by (intro record_fields_no_panic [where g = "param_names (lr_types reg) m", OF fold_declared_result])
       (simp_all add: bt_wf_def fold_declared_def)
  then show ?thesis
    using assms(1) unfolding record_values_def key [symmetric]
    by (auto simp: key no_native_panic_def split: sum.splits option.splits)
qed

text \<open>The setups recorded on a thread: those that were declared, run with arguments of their declaration.\<close>

inductive setup_reach :: "(capture_value \<Rightarrow> string) \<Rightarrow> link_registry \<Rightarrow> pending_setups \<Rightarrow> bool" for render reg where
  setups_none: "setup_reach render reg []"
| setups_run: "setup_reach render reg pending \<Longrightarrow> setup_declaration reg key = Some m \<Longrightarrow>
    fst ` set vals \<subseteq> fst ` set (om_params m) \<Longrightarrow> \<forall>kv\<in>set vals. value_ok (snd kv) \<Longrightarrow>
    commit render reg requested (defer_setup requested' key vals) pending = (r, pending') \<Longrightarrow> setup_reach render reg pending'"

lemma setup_reach_ok: "setup_reach render reg pending \<Longrightarrow> pending_ok reg pending"
proof (induction rule: setup_reach.induct)
  case setups_none
  then show ?case by (simp add: pending_ok_def)
next
  case (setups_run pending key m vals requested requested' r pending')
  then show ?case
    using record_values_ok [OF setups_run.IH setups_run.hyps(2-4)]
    by (auto simp: commit_def defer_setup_def split: if_splits)
qed

lemma record_values_again:
  assumes "fst (record_values render reg True key vals pending) = Inr ()"
  shows "record_values render reg True key vals (snd (record_values render reg True key vals pending)) =
    (Inr (), snd (record_values render reg True key vals pending))"
proof -
  obtain component operation module fn fills where key: "key = (component, operation, module, fn, fills)" by (metis prod_cases5)
  show ?thesis
    using assms unfolding record_values_def key [symmetric]
    by (auto simp: key inputs_match_eq map_of_bt_insert split: sum.splits option.splits if_splits)
qed

lemma begin_active_new:
  assumes "begin_active component name folded s = Some (Inr i, s')"
  obtains given filled span order start where "folded = Inr (given, filled)" "i < length (ns_operations s')"
    "ns_operations s' ! i = new_operation component name given filled span s order start"
proof -
  obtain given filled span where f: "folded = Inr (given, filled)" "push_operation (new_operation component name given filled span s) s = (Inr i, s')"
    using assms by (auto simp: begin_active_def split: option.splits sum.splits prod.splits)
  then obtain order start where "i = length (ns_operations s)" "ns_operations s' = ns_operations s @ [new_operation component name given filled span s order start]"
    by (auto simp: push_operation_def act_bind_def tick_def take_order_def split: option.splits if_splits)
  then show thesis using that f(1) by simp
qed

section \<open>Properties\<close>

definition shop_registry :: link_registry where
  "shop_registry =
     \<lparr>lr_operations =
        [\<lparr>om_name = ''checkout'', om_module = ''shop::order'', om_fn = ''checkout'', om_setup = False,
           om_params = [(''cart'', ''&mut Cart''), (''address'', ''&super::Address''), (''express'', ''bool'')],
           om_return = ''u64'', om_fills = None, om_component = ''shop''\<rparr>,
         \<lparr>om_name = ''checkout'', om_module = ''shop::cart'', om_fn = ''new'', om_setup = True, om_params = [(''owner'', ''String'')],
           om_return = ''Cart'', om_fills = Some ''cart'', om_component = ''shop''\<rparr>],
      lr_types =
        [\<lparr>tm_name = ''Address'', tm_module = ''shop'', tm_fields = [(''street'', ''String''), (''city'', ''String'')],
           tm_component = ''shop'', tm_property = Some ''Address''\<rparr>]\<rparr>"

definition cart_key :: setup_key where
  "cart_key = (''shop'', ''checkout'', ''shop::cart'', ''new'', Some ''cart'')"

definition no_text :: "capture_value \<Rightarrow> string" where
  "no_text v = []"

definition cart_run :: "(native_error + unit) \<times> pending_setups" where
  "cart_run = commit no_text shop_registry True (defer_setup True cart_key [(''owner'', VString ''ada'')]) []"

lemma shop_accepted: "validate_declared_folding shop_registry = Inr ()"
  by code_simp

lemma shop_identified: "identified (lr_operations shop_registry)"
  by (simp add: identified_def shop_registry_def)

lemma shop_fold: "folded_inputs shop_registry (snd cart_run) ''shop'' ''checkout'' = Inr ([(''owner'', VString ''ada'')], [''cart''])"
  by code_simp


lemma cart_run_reach: "setup_reach no_text shop_registry (snd cart_run)"
proof -
  have "setup_declaration shop_registry cart_key = Some (lr_operations shop_registry ! 1)" by code_simp
  then show ?thesis
    by (rule setups_run [OF setups_none _ _ _ prod.collapse [symmetric, of cart_run, unfolded cart_run_def], folded cart_run_def])
       (simp_all add: shop_registry_def)
qed

lemma checkout_declared: "operation_declaration shop_registry ''shop'' ''checkout'' = Some (lr_operations shop_registry ! 0)"
  by code_simp



definition checkout_config :: native_config where
  "checkout_config =
     \<lparr>cfg_name = ''checkout'', cfg_trace = ''11111111111111111111111111111111'', cfg_run = ''0000000000000001'',
      cfg_scenario = ''0000000000000002'', cfg_operation_ids = [], cfg_start = 0, cfg_step = 1\<rparr>"

definition checkout_begun :: "((native_error + nat) \<times> native_state) option" where
  "checkout_begun =
     (case start_state checkout_config None None False of
        Inl e \<Rightarrow> None
      | Inr s \<Rightarrow> begin_active ''shop'' ''checkout'' (folded_inputs shop_registry (snd cart_run) ''shop'' ''checkout'') s)"

definition checkout_arguments :: "(string \<times> capture_value) list" where
  "checkout_arguments =
     [(''cart'', VString ''filled''), (''address'', VMap [(''city'', VString ''Paris''), (''street'', VString ''Rue'')]), (''express'', VBool True)]"

lemma checkout_recorded:
  "map_option (\<lambda>(r, s). (r, map pend_inputs (ns_operations (snd (record_arguments shop_registry 0 checkout_arguments s))))) checkout_begun =
   Some (Inr 0, [[(''city'', VString ''Paris''), (''express'', VBool True), (''owner'', VString ''ada''), (''street'', VString ''Rue'')]])"
  by code_simp




section \<open>Setups told apart by the filled parameter only\<close>

text \<open>
  The check looks up the producer of a planned setup without the parameter it fills. Two setups of one
  function name in one module, as two \<open>impl\<close> blocks have them, are then both checked with the
  parameters of the first, and a name of the second that the operation also records is not noticed: the
  registry is accepted, and recording the argument panics.
\<close>

definition twin_registry :: link_registry where
  "twin_registry =
     \<lparr>lr_operations =
        [\<lparr>om_name = ''pay'', om_module = ''shop'', om_fn = ''pay'', om_setup = False,
           om_params = [(''from'', ''A''), (''to'', ''B''), (''limit'', ''u64'')], om_return = ''()'', om_fills = None, om_component = ''shop''\<rparr>,
         \<lparr>om_name = ''pay'', om_module = ''shop'', om_fn = ''new'', om_setup = True, om_params = [], om_return = ''Self'',
           om_fills = Some ''from'', om_component = ''shop''\<rparr>,
         \<lparr>om_name = ''pay'', om_module = ''shop'', om_fn = ''new'', om_setup = True, om_params = [(''limit'', ''u64'')], om_return = ''Self'',
           om_fills = Some ''to'', om_component = ''shop''\<rparr>],
      lr_types = []\<rparr>"

definition twin_setups :: pending_setups where
  "twin_setups =
     snd (record_values no_text twin_registry True (''shop'', ''pay'', ''shop'', ''new'', Some ''to'') [(''limit'', VUnsigned 5)]
       (snd (record_values no_text twin_registry True (''shop'', ''pay'', ''shop'', ''new'', Some ''from'') [] [])))"

lemma twin_setups_panic:
  "validate_declared_folding twin_registry = Inr ()"
  "folded_inputs twin_registry twin_setups ''shop'' ''pay'' = Inr ([(''limit'', VUnsigned 5)], [''from'', ''to''])"
  "\<exists>m s. start_state checkout_config None None False = Inr s \<and>
     fst (record_arguments twin_registry 0 [(''limit'', VUnsigned 7)]
       (snd (the (begin_active ''shop'' ''pay'' (folded_inputs twin_registry twin_setups ''shop'' ''pay'') s)))) = Inl (NativePanic m)"
proof -
  show "validate_declared_folding twin_registry = Inr ()" by code_simp
  show "folded_inputs twin_registry twin_setups ''shop'' ''pay'' = Inr ([(''limit'', VUnsigned 5)], [''from'', ''to''])" by code_simp
  have "(case start_state checkout_config None None False of Inl e \<Rightarrow> None | Inr s \<Rightarrow>
     Some (fst (record_arguments twin_registry 0 [(''limit'', VUnsigned 7)]
       (snd (the (begin_active ''shop'' ''pay'' (folded_inputs twin_registry twin_setups ''shop'' ''pay'') s)))))) =
     Some (Inl (NativePanic ''native operation input 'limit' cannot be recorded twice''))"
    by code_simp
  then show "\<exists>m s. start_state checkout_config None None False = Inr s \<and>
     fst (record_arguments twin_registry 0 [(''limit'', VUnsigned 7)]
       (snd (the (begin_active ''shop'' ''pay'' (folded_inputs twin_registry twin_setups ''shop'' ''pay'') s)))) = Inl (NativePanic m)"
    by (cases "start_state checkout_config None None False") auto
qed

end
