(* ===== verification/Ctsc_Plan.thy ===== *)
theory Ctsc_Plan
  imports Ctsc_Values "HOL-Library.Product_Lexorder"
begin

text \<open>
  The replay planning model (\<open>specgate-ctsc/src/replay/model.rs\<close>): declared types and operations, decoded
  values with their derived order, and replay plans. A \<open>BTreeSet\<close> is its ascending list and a \<open>BTreeMap\<close> an
  ordered association list; identities are texts that their constructors keep non-empty.
\<close>

section \<open>Types and declarations\<close>

datatype plan_type =
    PPrimitive string
  | PNamed string "string option" "string option" \<comment> \<open>name, componentId, registryId\<close>
  | PCollection plan_type bool bool \<comment> \<open>items, ordered, unique\<close>
  | PMap plan_type plan_type bool \<comment> \<open>keys, values, ordered\<close>
  | PTuple "plan_type list"
  | POptional plan_type
  | PRecord "(string \<times> plan_type) list"

definition kind_name :: "plan_type \<Rightarrow> string" where
  "kind_name t =
     (case t of
        PPrimitive _ \<Rightarrow> ''primitive'' | PNamed _ _ _ \<Rightarrow> ''named'' | PCollection _ _ _ \<Rightarrow> ''collection'' | PMap _ _ _ \<Rightarrow> ''map''
      | PTuple _ \<Rightarrow> ''tuple'' | POptional _ \<Rightarrow> ''optional'' | PRecord _ \<Rightarrow> ''record'')"

definition is_primitive :: "plan_type \<Rightarrow> bool" where
  "is_primitive t \<longleftrightarrow> (case t of PPrimitive _ \<Rightarrow> True | _ \<Rightarrow> False)"

type_synonym plan_input = "string \<times> plan_type"

type_synonym plan_outcome = "string \<times> plan_type option" \<comment> \<open>error name and payload type\<close>

record registry_op =
  ro_component :: string
  ro_name :: string
  ro_inputs :: "plan_input list"
  ro_output :: "plan_type option"
  ro_empty :: bool
  ro_errors :: "plan_outcome list"

record plan_registry =
  pr_id :: string
  pr_version :: string
  pr_digest :: string
  pr_operations :: "registry_op list"

section \<open>Values\<close>

datatype replay_value =
    RUnit
  | RText string
  | RFlag bool
  | RI32 "32 word"
  | RI64 "64 word"
  | RU32 "32 word"
  | RU64 "64 word"
  | RF32Bits "32 word"
  | RF64Bits "64 word"
  | RList "replay_value list"
  | RSet "replay_value list"
  | RMap "(string \<times> replay_value) list"
  | RMapEntries "(replay_value \<times> replay_value) list"
  | RTuple "replay_value list"
  | ROptional "replay_value option"

fun replay_rank :: "replay_value \<Rightarrow> nat" where
  "replay_rank RUnit = 0"
| "replay_rank (RText _) = 1"
| "replay_rank (RFlag _) = 2"
| "replay_rank (RI32 _) = 3"
| "replay_rank (RI64 _) = 4"
| "replay_rank (RU32 _) = 5"
| "replay_rank (RU64 _) = 6"
| "replay_rank (RF32Bits _) = 7"
| "replay_rank (RF64Bits _) = 8"
| "replay_rank (RList _) = 9"
| "replay_rank (RSet _) = 10"
| "replay_rank (RMap _) = 11"
| "replay_rank (RMapEntries _) = 12"
| "replay_rank (RTuple _) = 13"
| "replay_rank (ROptional _) = 14"

definition cmp_signed :: "'a::len word \<Rightarrow> 'a word \<Rightarrow> cmp_result" where
  "cmp_signed a b = cmp_ord (sint a) (sint b)"

definition cmp_option :: "('a \<Rightarrow> 'a \<Rightarrow> cmp_result) \<Rightarrow> 'a option \<Rightarrow> 'a option \<Rightarrow> cmp_result" where
  "cmp_option c p q =
     (case (p, q) of (None, None) \<Rightarrow> Equal | (None, Some _) \<Rightarrow> Less | (Some _, None) \<Rightarrow> Greater | (Some x, Some y) \<Rightarrow> c x y)"

lemma cmp_option_cong [fundef_cong]:
  "p = p' \<Longrightarrow> q = q' \<Longrightarrow> (\<And>x y. p' = Some x \<Longrightarrow> q' = Some y \<Longrightarrow> c x y = d x y) \<Longrightarrow> cmp_option c p q = cmp_option d p' q'"
  by (auto simp: cmp_option_def split: option.splits)

text \<open>The derived \<open>Ord\<close>: variants in order of declaration, then their payloads.\<close>

function cmp_replay :: "replay_value \<Rightarrow> replay_value \<Rightarrow> cmp_result" where
  "cmp_replay x y =
     (if replay_rank x \<noteq> replay_rank y then cmp_ord (replay_rank x) (replay_rank y)
      else case x of
        RUnit \<Rightarrow> Equal
      | RText a \<Rightarrow> (case y of RText b \<Rightarrow> cmp_ord a b | _ \<Rightarrow> Equal)
      | RFlag a \<Rightarrow> (case y of RFlag b \<Rightarrow> cmp_ord a b | _ \<Rightarrow> Equal)
      | RI32 a \<Rightarrow> (case y of RI32 b \<Rightarrow> cmp_signed a b | _ \<Rightarrow> Equal)
      | RI64 a \<Rightarrow> (case y of RI64 b \<Rightarrow> cmp_signed a b | _ \<Rightarrow> Equal)
      | RU32 a \<Rightarrow> (case y of RU32 b \<Rightarrow> cmp_ord a b | _ \<Rightarrow> Equal)
      | RU64 a \<Rightarrow> (case y of RU64 b \<Rightarrow> cmp_ord a b | _ \<Rightarrow> Equal)
      | RF32Bits a \<Rightarrow> (case y of RF32Bits b \<Rightarrow> cmp_ord a b | _ \<Rightarrow> Equal)
      | RF64Bits a \<Rightarrow> (case y of RF64Bits b \<Rightarrow> cmp_ord a b | _ \<Rightarrow> Equal)
      | RList a \<Rightarrow> (case y of RList b \<Rightarrow> cmp_list cmp_replay a b | _ \<Rightarrow> Equal)
      | RSet a \<Rightarrow> (case y of RSet b \<Rightarrow> cmp_list cmp_replay a b | _ \<Rightarrow> Equal)
      | RMap a \<Rightarrow> (case y of RMap b \<Rightarrow> cmp_list (\<lambda>p q. cmp_pair cmp_ord cmp_replay p q) a b | _ \<Rightarrow> Equal)
      | RMapEntries a \<Rightarrow> (case y of RMapEntries b \<Rightarrow> cmp_list (\<lambda>p q. cmp_pair cmp_replay cmp_replay p q) a b | _ \<Rightarrow> Equal)
      | RTuple a \<Rightarrow> (case y of RTuple b \<Rightarrow> cmp_list cmp_replay a b | _ \<Rightarrow> Equal)
      | ROptional a \<Rightarrow> (case y of ROptional b \<Rightarrow> cmp_option cmp_replay a b | _ \<Rightarrow> Equal))"
  by pat_completeness auto
termination
  by (relation "measure (\<lambda>(x, y). size x)")
     (auto dest: size_list_estimation' [of _ _ _ size] size_pair_list_fst size_pair_list_snd
       simp: less_Suc_eq_le size_list_estimation')

declare cmp_replay.simps [simp del]

lemma cmp_replay_same [simp]:
  "cmp_replay RUnit RUnit = Equal"
  "cmp_replay (RText a) (RText b) = cmp_ord a b"
  "cmp_replay (RFlag p) (RFlag q) = cmp_ord p q"
  "cmp_replay (RI32 h) (RI32 i) = cmp_signed h i"
  "cmp_replay (RI64 j) (RI64 k) = cmp_signed j k"
  "cmp_replay (RU32 h) (RU32 i) = cmp_ord h i"
  "cmp_replay (RU64 j) (RU64 k) = cmp_ord j k"
  "cmp_replay (RF32Bits h) (RF32Bits i) = cmp_ord h i"
  "cmp_replay (RF64Bits j) (RF64Bits k) = cmp_ord j k"
  "cmp_replay (RList us) (RList vs) = cmp_list cmp_replay us vs"
  "cmp_replay (RSet us) (RSet vs) = cmp_list cmp_replay us vs"
  "cmp_replay (RMap m) (RMap n) = cmp_list (cmp_pair cmp_ord cmp_replay) m n"
  "cmp_replay (RMapEntries es) (RMapEntries fs) = cmp_list (cmp_pair cmp_replay cmp_replay) es fs"
  "cmp_replay (RTuple us) (RTuple vs) = cmp_list cmp_replay us vs"
  "cmp_replay (ROptional o1) (ROptional o2) = cmp_option cmp_replay o1 o2"
  by (subst cmp_replay.simps, simp)+

lemma cmp_replay_rank:
  "replay_rank x \<noteq> replay_rank y \<Longrightarrow> cmp_replay x y = cmp_ord (replay_rank x) (replay_rank y)"
  by (simp add: cmp_replay.simps [of x y])

text \<open>A comparison by rank first: the order of one variant is that of its payload.\<close>

lemma cmp_at_ranked:
  assumes ranked: "\<And>x y. rank x \<noteq> rank y \<Longrightarrow> c x y = cmp_ord (rank x) (rank y)"
    and rank: "\<And>q. rank (C q) = (n::nat)"
    and only: "\<And>y. rank y = n \<Longrightarrow> \<exists>q. y = C q"
    and cmp: "\<And>q q'. c (C q) (C q') = d q q'"
    and at: "cmp_at d p"
  shows "cmp_at c (C p)"
proof (rule cmp_atI)
  note d = cmp_atD [OF at]
  fix y z
  have other: "rank y \<noteq> n \<Longrightarrow> c (C p) y = cmp_ord n (rank y) \<and> c y (C p) = cmp_ord (rank y) n" for y
    using ranked [of "C p" y] ranked [of y "C p"] by (simp add: rank)
  show "c y (C p) = cmp_reverse (c (C p) y)"
  proof (cases "rank y = n")
    case True
    then show ?thesis using only [OF True] by (auto simp: cmp d(1))
  next
    case False
    then show ?thesis by (simp add: other) (simp add: cmp_ord_def)
  qed
  show "c (C p) y = Equal \<Longrightarrow> C p = y"
    using only [of y] other [of y] by (cases "rank y = n") (auto simp: cmp d(2) cmp_ord_simps)
  show "c (C p) (C p) = Equal"
    by (simp add: cmp d(2))
  assume l: "c (C p) y = Less" and g: "c y z \<noteq> Greater"
  show "c (C p) z = Less"
  proof (cases "rank y = n \<and> rank z = n")
    case True
    then obtain q r where "y = C q" "z = C r" using only by blast
    then show ?thesis using l g by (auto simp: cmp intro: d(3))
  next
    case False
    have "n \<le> rank y" using l other [of y] by (cases "rank y = n") (auto simp: cmp_ord_simps)
    moreover have "rank y \<le> rank z" using g ranked [of y z] by (cases "rank y = rank z") (auto simp: cmp_ord_simps)
    ultimately have "n < rank z" using False by auto
    then show ?thesis using other [of z] by (simp add: cmp_ord_simps)
  qed
qed

lemma sint_injective: "sint a = sint b \<Longrightarrow> a = b"
  by (rule signed_word_eqI)

lemma cmp_at_signed: "cmp_at cmp_signed x"
  by (rule cmp_atI) (auto simp: cmp_signed_def cmp_ord_def dest: sint_injective split: if_splits)

lemma cmp_at_option: "(\<And>x. p = Some x \<Longrightarrow> cmp_at c x) \<Longrightarrow> cmp_at (cmp_option c) p"
proof (cases p)
  case None
  then show ?thesis by (auto simp: cmp_option_def cmp_at_def split: option.splits)
next
  case (Some x)
  assume "\<And>x. p = Some x \<Longrightarrow> cmp_at c x"
  note d = cmp_atD [OF this [OF Some]]
  show ?thesis
    unfolding Some
  proof (rule cmp_atI)
    fix q r
    show "cmp_option c q (Some x) = cmp_reverse (cmp_option c (Some x) q)" by (cases q) (simp_all add: cmp_option_def d(1))
    show "cmp_option c (Some x) q = Equal \<Longrightarrow> Some x = q" by (cases q) (simp_all add: cmp_option_def d(2))
    show "cmp_option c (Some x) (Some x) = Equal" by (simp add: cmp_option_def d(2))
    show "cmp_option c (Some x) q = Less \<Longrightarrow> cmp_option c q r \<noteq> Greater \<Longrightarrow> cmp_option c (Some x) r = Less"
      by (cases q; cases r) (auto simp: cmp_option_def intro: d(3))
  qed
qed

lemma replay_rank_only:
  "replay_rank y = Suc 0 \<Longrightarrow> \<exists>a. y = RText a" "replay_rank y = 2 \<Longrightarrow> \<exists>a. y = RFlag a"
  "replay_rank y = 3 \<Longrightarrow> \<exists>a. y = RI32 a" "replay_rank y = 4 \<Longrightarrow> \<exists>a. y = RI64 a"
  "replay_rank y = 5 \<Longrightarrow> \<exists>a. y = RU32 a" "replay_rank y = 6 \<Longrightarrow> \<exists>a. y = RU64 a"
  "replay_rank y = 7 \<Longrightarrow> \<exists>a. y = RF32Bits a" "replay_rank y = 8 \<Longrightarrow> \<exists>a. y = RF64Bits a"
  "replay_rank y = 9 \<Longrightarrow> \<exists>a. y = RList a" "replay_rank y = 10 \<Longrightarrow> \<exists>a. y = RSet a"
  "replay_rank y = 11 \<Longrightarrow> \<exists>a. y = RMap a" "replay_rank y = 12 \<Longrightarrow> \<exists>a. y = RMapEntries a"
  "replay_rank y = 13 \<Longrightarrow> \<exists>a. y = RTuple a" "replay_rank y = 14 \<Longrightarrow> \<exists>a. y = ROptional a" "replay_rank y = 0 \<Longrightarrow> y = RUnit"
  by (cases y; simp)+

lemmas replay_variant = cmp_at_ranked [of replay_rank cmp_replay, OF cmp_replay_rank]

lemma cmp_at_replay: "cmp_at cmp_replay x"
proof (induction x)
  case RUnit
  show ?case
    by (rule replay_variant [where C = "\<lambda>u. RUnit" and n = 0 and d = "\<lambda>u v. Equal" and p = "()"])
       (simp_all add: replay_rank_only cmp_at_def)
next
  case (RText a)
  show ?case
    by (rule replay_variant [where C = RText and d = cmp_ord and n = "Suc 0"]) (auto dest: replay_rank_only(1) simp: cmp_at_ord)
next
  case (RFlag a)
  show ?case by (rule replay_variant [where C = RFlag and n = 2 and d = cmp_ord]) (auto dest: replay_rank_only simp: cmp_at_ord)
next
  case (RI32 a)
  show ?case by (rule replay_variant [where C = RI32 and n = 3 and d = cmp_signed]) (auto dest: replay_rank_only simp: cmp_at_signed)
next
  case (RI64 a)
  show ?case by (rule replay_variant [where C = RI64 and n = 4 and d = cmp_signed]) (auto dest: replay_rank_only simp: cmp_at_signed)
next
  case (RU32 a)
  show ?case by (rule replay_variant [where C = RU32 and n = 5 and d = cmp_ord]) (auto dest: replay_rank_only simp: cmp_at_ord)
next
  case (RU64 a)
  show ?case by (rule replay_variant [where C = RU64 and n = 6 and d = cmp_ord]) (auto dest: replay_rank_only simp: cmp_at_ord)
next
  case (RF32Bits a)
  show ?case by (rule replay_variant [where C = RF32Bits and n = 7 and d = cmp_ord]) (auto dest: replay_rank_only simp: cmp_at_ord)
next
  case (RF64Bits a)
  show ?case by (rule replay_variant [where C = RF64Bits and n = 8 and d = cmp_ord]) (auto dest: replay_rank_only simp: cmp_at_ord)
next
  case (RList us)
  then show ?case
    by (intro replay_variant [where C = RList and n = 9 and d = "cmp_list cmp_replay"]) (auto dest: replay_rank_only simp: cmp_at_list)
next
  case (RSet us)
  then show ?case
    by (intro replay_variant [where C = RSet and n = 10 and d = "cmp_list cmp_replay"]) (auto dest: replay_rank_only simp: cmp_at_list)
next
  case (RMap m)
  have "cmp_at (cmp_pair cmp_ord cmp_replay) p" if "p \<in> set m" for p
    by (rule cmp_at_pair) (use RMap [OF that] in \<open>cases p; auto simp: cmp_at_ord\<close>)+
  then show ?case
    by (intro replay_variant [where C = RMap and n = 11 and d = "cmp_list (cmp_pair cmp_ord cmp_replay)"])
       (auto dest: replay_rank_only simp: cmp_at_list)
next
  case (RMapEntries m)
  have "cmp_at (cmp_pair cmp_replay cmp_replay) p" if "p \<in> set m" for p
    by (rule cmp_at_pair) (use RMapEntries [OF that] in \<open>cases p; auto\<close>)+
  then show ?case
    by (intro replay_variant [where C = RMapEntries and n = 12 and d = "cmp_list (cmp_pair cmp_replay cmp_replay)"])
       (auto dest: replay_rank_only simp: cmp_at_list)
next
  case (RTuple us)
  then show ?case
    by (intro replay_variant [where C = RTuple and n = 13 and d = "cmp_list cmp_replay"]) (auto dest: replay_rank_only simp: cmp_at_list)
next
  case (ROptional p)
  then show ?case
    by (intro replay_variant [where C = ROptional and n = 14 and d = "cmp_option cmp_replay"])
       (auto dest: replay_rank_only intro!: cmp_at_option)
qed

interpretation replay: comparator cmp_replay
  by (rule comparatorI) (rule cmp_at_replay)

instantiation replay_value :: linorder
begin

definition less_eq_replay_value :: "replay_value \<Rightarrow> replay_value \<Rightarrow> bool" where
  "less_eq_replay_value x y \<longleftrightarrow> cmp_replay x y \<noteq> Greater"

definition less_replay_value :: "replay_value \<Rightarrow> replay_value \<Rightarrow> bool" where
  "less_replay_value x y \<longleftrightarrow> cmp_replay x y = Less"

instance
proof
  fix x y z :: replay_value
  show "x < y \<longleftrightarrow> x \<le> y \<and> \<not> y \<le> x"
    using replay.less_iff by (simp add: less_eq_replay_value_def less_replay_value_def)
  show "x \<le> x" by (simp add: less_eq_replay_value_def replay.le_refl)
  show "x \<le> y \<Longrightarrow> y \<le> z \<Longrightarrow> x \<le> z"
    unfolding less_eq_replay_value_def by (rule replay.le_trans)
  show "x \<le> y \<Longrightarrow> y \<le> x \<Longrightarrow> x = y"
    unfolding less_eq_replay_value_def by (rule replay.le_antisym)
  show "x \<le> y \<or> y \<le> x"
    unfolding less_eq_replay_value_def by (rule replay.le_total)
qed

end

section \<open>Plans\<close>

record replay_input =
  ri_name :: string
  ri_type :: plan_type
  ri_value :: replay_value

record replay_operation =
  rop_component :: string
  rop_name :: string
  rop_inputs :: "replay_input list"
  rop_output :: "plan_type option"

record replay_scenario =
  rsc_name :: string
  rsc_index :: i64
  rsc_operations :: "replay_operation list"

record replay_bundle =
  rb_component :: string
  rb_registry :: plan_registry
  rb_document :: string
  rb_observed :: "replay_operation list"
  rb_scenarios :: "replay_scenario list"

end
