(* ===== verification/Ctsc_Replay.thy ===== *)
theory Ctsc_Replay
  imports Ctsc_Plan Ctsc_Encoding
begin

text \<open>
  Decoding of a captured reference trace for replay (\<open>specgate-ctsc/src/replay/otlp.rs\<close>,
  \<open>replay/otlp/value.rs\<close>): values at their declared types, operations, scenarios. The wire types are those
  of \<open>replay/otlp/wire.rs\<close>; parsing them is serde's. \<open>replay_text\<close> has the texts of standard library
  formatting that only error messages use.
\<close>

section \<open>Wire types\<close>

datatype replay_any =
    OString string
  | OBool bool
  | OInt string
  | ODouble wire_double
  | OBytes string
  | OArray "replay_any list"
  | OKvlist "(string \<times> replay_any) list"

type_synonym replay_attributes = "(string \<times> replay_any) list"

record replay_event =
  rev_name :: string
  rev_attributes :: replay_attributes

record replay_span =
  rsp_trace :: string
  rsp_id :: string
  rsp_parent :: string
  rsp_name :: string
  rsp_start :: string
  rsp_end :: string
  rsp_attributes :: replay_attributes
  rsp_events :: "replay_event list"

record replay_resource =
  rres_attributes :: replay_attributes
  rres_scopes :: "replay_span list list"

record replay_text =
  int_error_text :: "string \<Rightarrow> string" \<comment> \<open>why a text is not an integer\<close>
  str_debug :: "string \<Rightarrow> string"

datatype replay_error = ReplayError string | UnsupportedScheduling string | ReplayPanic string

abbreviation replay_fail :: "string \<Rightarrow> replay_error + 'a" where
  "replay_fail message \<equiv> Inl (ReplayError message)"

definition guarded :: "string \<Rightarrow> string \<Rightarrow> replay_error + string" where
  "guarded label v = (if v = [] then replay_fail (label @ '' must not be empty'') else Inr v)"

section \<open>Values\<close>

definition decode_integer :: "replay_text \<Rightarrow> replay_any \<Rightarrow> int \<Rightarrow> int \<Rightarrow> string \<Rightarrow> replay_error + int" where
  "decode_integer R v lo hi loc =
     (case v of
        OInt s \<Rightarrow>
          (case parse_signed 64 s of
             None \<Rightarrow> replay_fail (loc @ '' is not a signed decimal integer: '' @ int_error_text R s)
           | Some i \<Rightarrow>
               if i < lo \<or> hi < i
               then replay_fail (loc @ '' integer value '' @ int_dec i @ '' is outside supported range '' @ int_dec lo @ ''..='' @ int_dec hi)
               else Inr i)
      | _ \<Rightarrow> replay_fail (loc @ '' integer value must use intValue''))"

text \<open>
  \<open>decode_float\<close>. The source narrows through the shortest text of the double; a text within half a unit
  of an exactly representable single reads as that single, and any other double fails the following
  comparison of bits, so the result is that of the cast.
\<close>

definition symbol_bits :: "'a \<Rightarrow> 'a \<Rightarrow> 'a \<Rightarrow> string \<Rightarrow> 'a option" where
  "symbol_bits not_a_number positive negative symbol =
     (if symbol = ''NaN'' then Some not_a_number else if symbol = ''Infinity'' then Some positive
      else if symbol = ''-Infinity'' then Some negative else None)"

definition decode_f32 :: "replay_any \<Rightarrow> string \<Rightarrow> replay_error + replay_value" where
  "decode_f32 v loc =
     (case v of
        ODouble (DNumber x) \<Rightarrow>
          if f32_as_f64 (f64_as_f32 x) \<noteq> x then replay_fail (loc @ '' value is not exactly representable as f32'')
          else Inr (RF32Bits (f64_as_f32 x))
      | ODouble (DSymbol symbol) \<Rightarrow>
          (case symbol_bits 0x7FC00000 0x7F800000 0xFF800000 symbol of
             None \<Rightarrow> replay_fail (loc @ '' contains invalid symbolic doubleValue '' @ ticked symbol)
           | Some bits \<Rightarrow> Inr (RF32Bits bits))
      | _ \<Rightarrow> replay_fail (loc @ '' floating-point value must use doubleValue''))"

definition decode_f64 :: "replay_any \<Rightarrow> string \<Rightarrow> replay_error + replay_value" where
  "decode_f64 v loc =
     (case v of
        ODouble (DNumber x) \<Rightarrow> Inr (RF64Bits x)
      | ODouble (DSymbol symbol) \<Rightarrow>
          (case symbol_bits 0x7FF8000000000000 0x7FF0000000000000 0xFFF0000000000000 symbol of
             None \<Rightarrow> replay_fail (loc @ '' contains invalid symbolic doubleValue '' @ ticked symbol)
           | Some bits \<Rightarrow> Inr (RF64Bits bits))
      | _ \<Rightarrow> replay_fail (loc @ '' floating-point value must use doubleValue''))"

definition decode_u64 :: "replay_text \<Rightarrow> replay_any \<Rightarrow> string \<Rightarrow> replay_error + replay_value" where
  "decode_u64 R v loc =
     (case v of
        OString s \<Rightarrow>
          (case parse_unsigned 64 s of
             None \<Rightarrow> replay_fail (loc @ '' is not a valid u64 decimal string: '' @ int_error_text R s)
           | Some n \<Rightarrow>
               if nat_dec n \<noteq> s then replay_fail (loc @ '' u64 value must use canonical unsigned decimal text'')
               else Inr (RU64 (of_nat n)))
      | _ \<Rightarrow> replay_fail (loc @ '' u64 value must use stringValue''))"

definition decode_primitive :: "replay_text \<Rightarrow> replay_any \<Rightarrow> string \<Rightarrow> string \<Rightarrow> replay_error + replay_value" where
  "decode_primitive R v name loc =
     (if name = ''unit'' then
        (case v of
           OKvlist kvs \<Rightarrow>
             if kvs \<noteq> [] then replay_fail (loc @ '' unit value must be an empty kvlistValue'') else Inr RUnit
         | _ \<Rightarrow> replay_fail (loc @ '' unit value must use kvlistValue''))
      else if name = ''string'' then
        (case v of OString s \<Rightarrow> Inr (RText s) | _ \<Rightarrow> replay_fail (loc @ '' string value must use stringValue''))
      else if name = ''bool'' then
        (case v of OBool b \<Rightarrow> Inr (RFlag b) | _ \<Rightarrow> replay_fail (loc @ '' bool value must use boolValue''))
      else if name = ''i32'' then
        and_then (decode_integer R v (- (2 ^ 31)) (2 ^ 31 - 1) loc) (\<lambda>i. Inr (RI32 (word_of_int i)))
      else if name = ''i64'' then
        and_then (decode_integer R v (- (2 ^ 63)) (2 ^ 63 - 1) loc) (\<lambda>i. Inr (RI64 (word_of_int i)))
      else if name = ''u32'' then
        and_then (decode_integer R v 0 (2 ^ 32 - 1) loc) (\<lambda>i. Inr (RU32 (word_of_int i)))
      else if name = ''u64'' then decode_u64 R v loc
      else if name = ''f32'' then decode_f32 v loc
      else if name = ''f64'' then decode_f64 v loc
      else if name = ''bytes'' then replay_fail (loc @ '' uses unsupported replay primitive '' @ ticked ''bytes'')
      else replay_fail (loc @ '' uses unknown CTSC primitive '' @ ticked name))"

lemma map_result_cong [fundef_cong]:
  "xs = ys \<Longrightarrow> (\<And>x. x \<in> set ys \<Longrightarrow> f x = g x) \<Longrightarrow> map_result f xs = map_result g ys"
  by (induction ys arbitrary: xs) auto

lemma enumerate_size [termination_simp]: "(i, t) \<in> set (enumerate n ts) \<Longrightarrow> size t < Suc (size_list size ts)"
proof -
  assume "(i, t) \<in> set (enumerate n ts)"
  then have "t \<in> set ts" by (force simp: in_set_enumerate_eq)
  then have "size t \<le> size_list size ts" by (rule size_list_estimation') simp
  then show ?thesis by simp
qed

text \<open>The key and the value of one entry of a map that is written as an array.\<close>

definition entry_parts :: "replay_any \<Rightarrow> string \<Rightarrow> replay_error + (replay_any \<times> replay_any)" where
  "entry_parts entry loc =
     (case entry of
        OKvlist members_of \<Rightarrow>
          (case (map_of members_of ''key'', map_of members_of ''value'') of
             (Some key, Some item) \<Rightarrow>
               if length members_of \<noteq> 2 then replay_fail (loc @ '' map entry requires exactly key and value'') else Inr (key, item)
           | _ \<Rightarrow> replay_fail (loc @ '' map entry requires key and value''))
      | _ \<Rightarrow> replay_fail (loc @ '' map entry must use kvlistValue''))"

text \<open>The loops over map entries; \<open>key_of\<close> and \<open>item_of\<close> decode at the declared types.\<close>

fun decode_entries ::
    "(replay_any \<Rightarrow> string \<Rightarrow> replay_error + replay_value) \<Rightarrow> (replay_any \<Rightarrow> string \<Rightarrow> replay_error + replay_value) \<Rightarrow>
     string \<Rightarrow> nat \<Rightarrow> replay_value set \<Rightarrow> replay_any list \<Rightarrow> replay_error + (replay_value \<times> replay_value) list" where
  "decode_entries key_at item_at loc i seen [] = Inr []"
| "decode_entries key_at item_at loc i seen (e # es) =
     and_then (entry_parts e (index_loc loc i)) (\<lambda>(key, item).
     and_then (key_at key (index_loc loc i @ ''.key'')) (\<lambda>k.
       if k \<in> seen then replay_fail (index_loc loc i @ '' has a duplicate map key'')
       else and_then (item_at item (index_loc loc i @ ''.value'')) (\<lambda>x.
            and_then (decode_entries key_at item_at loc (Suc i) (insert k seen) es) (\<lambda>rest. Inr ((k, x) # rest)))))"

fun decode_members ::
    "replay_text \<Rightarrow> (replay_any \<Rightarrow> string \<Rightarrow> replay_error + replay_value) \<Rightarrow> string \<Rightarrow> (string \<times> replay_value) list \<Rightarrow>
     (string \<times> replay_any) list \<Rightarrow> replay_error + (string \<times> replay_value) list" where
  "decode_members R item_at loc done_so_far [] = Inr done_so_far"
| "decode_members R item_at loc done_so_far ((k, v) # kvs) =
     and_then (item_at v (loc @ ''['' @ str_debug R k @ '']'')) (\<lambda>x.
       if map_of done_so_far k \<noteq> None then replay_fail (loc @ '' has duplicate map key '' @ str_debug R k)
       else decode_members R item_at loc (bt_insert k x done_so_far) kvs)"

fun decode_value :: "replay_text \<Rightarrow> replay_any \<Rightarrow> plan_type \<Rightarrow> string \<Rightarrow> replay_error + replay_value" where
  "decode_value R v (PCollection items ordered unique) loc =
     (case v of
        OArray vs \<Rightarrow>
          and_then (map_result (\<lambda>(i, x). decode_value R x items (index_loc loc i)) (enumerate 0 vs)) (\<lambda>xs.
            if unique then
              (if \<not> distinct xs then replay_fail (loc @ '' has duplicate unique collection elements'')
               else if \<not> ordered then Inr (RSet (sort xs)) else Inr (RList xs))
            else if \<not> ordered then Inr (RList (sort xs)) else Inr (RList xs))
      | _ \<Rightarrow> replay_fail (loc @ '' collection value must use arrayValue''))"
| "decode_value R v (POptional inner) loc =
     (case v of
        OKvlist [(tag, x)] \<Rightarrow>
          (if tag = ''Some'' then and_then (decode_value R x inner (loc @ ''.Some'')) (\<lambda>y. Inr (ROptional (Some y)))
           else if tag = ''None'' then and_then (decode_primitive R x ''unit'' (loc @ ''.None'')) (\<lambda>_. Inr (ROptional None))
           else replay_fail (loc @ '' optional must use Some or None''))
      | OKvlist _ \<Rightarrow> replay_fail (loc @ '' optional must have exactly one Some or None tag'')
      | _ \<Rightarrow> replay_fail (loc @ '' optional must use a single-key kvlistValue''))"
| "decode_value R v (PMap keys items ordered) loc =
     (if ordered \<or> keys \<noteq> PPrimitive ''string'' then
        (case v of
           OArray es \<Rightarrow>
             and_then (decode_entries (\<lambda>x l. decode_value R x keys l) (\<lambda>x l. decode_value R x items l) loc 0 {} es) (\<lambda>entries.
               Inr (RMapEntries (if ordered then entries else sort entries)))
         | _ \<Rightarrow> replay_fail (loc @ '' map entries must use arrayValue''))
      else
        (case v of
           OKvlist kvs \<Rightarrow> and_then (decode_members R (\<lambda>x l. decode_value R x items l) loc [] kvs) (\<lambda>m. Inr (RMap m))
         | _ \<Rightarrow> replay_fail (loc @ '' map must use kvlistValue'')))"
| "decode_value R v (PTuple items) loc =
     (case v of
        OArray vs \<Rightarrow>
          (if length vs \<noteq> length items then replay_fail (loc @ '' tuple length differs from its declaration'')
           else and_then (map_result (\<lambda>(i, t). decode_value R (vs ! i) t (index_loc loc i)) (enumerate 0 items)) (\<lambda>xs. Inr (RTuple xs)))
      | _ \<Rightarrow> replay_fail (loc @ '' tuple must use arrayValue''))"
| "decode_value R v (PPrimitive name) loc = decode_primitive R v name loc"
| "decode_value R v t loc = replay_fail (loc @ '' uses unsupported structured replay type '' @ kind_name t)"

section \<open>Attributes\<close>

text \<open>Attribute lists and \<open>kvlistValue\<close>s become ordered maps; a repeated key is an error.\<close>

fun collect_unique :: "(string \<Rightarrow> string) \<Rightarrow> replay_attributes \<Rightarrow> replay_attributes \<Rightarrow> replay_error + replay_attributes" where
  "collect_unique message m [] = Inr m"
| "collect_unique message m ((k, v) # kvs) =
     (if map_of m k \<noteq> None then replay_fail (message k) else collect_unique message (bt_insert k v m) kvs)"

definition attribute_map :: "replay_attributes \<Rightarrow> string \<Rightarrow> replay_error + replay_attributes" where
  "attribute_map kvs loc = collect_unique (\<lambda>k. loc @ '' contains duplicate attribute '' @ ticked k) [] kvs"

definition kvlist_map :: "replay_attributes \<Rightarrow> string \<Rightarrow> replay_error + replay_attributes" where
  "kvlist_map kvs loc = collect_unique (\<lambda>k. loc @ '' contains duplicate key '' @ ticked k) [] kvs"

definition require_string :: "replay_attributes \<Rightarrow> string \<Rightarrow> string option \<Rightarrow> string \<Rightarrow> replay_error + string" where
  "require_string m key wanted loc =
     (case map_of m key of
        None \<Rightarrow> replay_fail (loc @ '' is missing string attribute '' @ ticked key)
      | Some (OString s) \<Rightarrow>
          (case wanted of
             Some e \<Rightarrow>
               if s \<noteq> e then replay_fail (loc @ '' attribute '' @ ticked key @ '' is '' @ ticked s @ '', expected '' @ ticked e) else Inr s
           | None \<Rightarrow> Inr s)
      | Some _ \<Rightarrow> replay_fail (loc @ '' attribute '' @ ticked key @ '' must use stringValue''))"

definition require_integer :: "replay_text \<Rightarrow> replay_attributes \<Rightarrow> string \<Rightarrow> string \<Rightarrow> replay_error + int" where
  "require_integer R m key loc =
     (case map_of m key of
        None \<Rightarrow> replay_fail (loc @ '' is missing integer attribute '' @ ticked key)
      | Some (OInt s) \<Rightarrow>
          (case parse_signed 64 s of
             None \<Rightarrow> replay_fail (loc @ '' attribute '' @ ticked key @ '' is not an i64 decimal integer: '' @ int_error_text R s)
           | Some i \<Rightarrow> Inr i)
      | Some _ \<Rightarrow> replay_fail (loc @ '' attribute '' @ ticked key @ '' must use intValue''))"

definition validate_id :: "string \<Rightarrow> nat \<Rightarrow> string \<Rightarrow> replay_error + unit" where
  "validate_id v n label =
     (if length v \<noteq> n \<or> list_all (\<lambda>c. c = CHR ''0'') v \<or> \<not> list_all is_lower_hex v
      then replay_fail (''reference '' @ label @ '' '' @ ticked v @ '' must be '' @ nat_dec n @
             '' lowercase hexadecimal characters and nonzero'')
      else Inr ())"

definition parse_time :: "replay_text \<Rightarrow> string \<Rightarrow> string \<Rightarrow> replay_error + int" where
  "parse_time R v loc =
     (case parse_signed 64 v of
        None \<Rightarrow> replay_fail (loc @ '' startTimeUnixNano is not an i64 decimal integer: '' @ int_error_text R v)
      | Some t \<Rightarrow> if t < 0 then replay_fail (loc @ '' startTimeUnixNano must be non-negative'') else Inr t)"

section \<open>Operations\<close>

datatype event_kind = ResultEvent | FaultEvent | AbandonedEvent | EmptyEvent | ErrorEvent

definition operation_ref :: "registry_op \<Rightarrow> string" where
  "operation_ref d = ticked (ro_component d @ ''::'' @ ro_name d)"

definition check_result :: "replay_text \<Rightarrow> string \<Rightarrow> registry_op \<Rightarrow> replay_attributes \<Rightarrow> replay_error + event_kind" where
  "check_result R loc d kvs =
     (case ro_output d of
        None \<Rightarrow> replay_fail (''reference '' @ loc @ '' emits a result but registry operation '' @ operation_ref d @ '' declares no result'')
      | Some out \<Rightarrow>
          and_then (attribute_map kvs (loc @ '' result'')) (\<lambda>m.
            case map_of m ''conformance.result.value'' of
              None \<Rightarrow> replay_fail (''reference '' @ loc @ '' result is missing conformance.result.value'')
            | Some v \<Rightarrow>
                if is_primitive out then and_then (decode_value R v out (loc @ '' result'')) (\<lambda>_. Inr ResultEvent) else Inr ResultEvent))"

definition check_error :: "replay_text \<Rightarrow> string \<Rightarrow> registry_op \<Rightarrow> replay_attributes \<Rightarrow> replay_error + event_kind" where
  "check_error R loc d kvs =
     and_then (attribute_map kvs (loc @ '' error'')) (\<lambda>m.
     and_then (require_string m ''conformance.error.name'' None (loc @ '' error'')) (\<lambda>name.
       case find (\<lambda>e. fst e = name) (ro_errors d) of
         None \<Rightarrow> replay_fail (''reference '' @ loc @ '' emits undeclared error '' @ ticked name @ '' for '' @ operation_ref d)
       | Some declared \<Rightarrow>
           (case (snd declared, map_of m ''conformance.error.value'') of
              (Some t, Some v) \<Rightarrow>
                (if is_primitive t then and_then (decode_value R v t (loc @ '' error '' @ ticked name)) (\<lambda>_. Inr ErrorEvent)
                 else Inr ErrorEvent)
            | (Some _, None) \<Rightarrow> replay_fail (''reference '' @ loc @ '' error '' @ ticked name @ '' is missing its value'')
            | (None, Some _) \<Rightarrow> replay_fail (''reference '' @ loc @ '' error '' @ ticked name @ '' declares no value'')
            | (None, None) \<Rightarrow> Inr ErrorEvent)))"

definition check_event :: "replay_text \<Rightarrow> string \<Rightarrow> registry_op \<Rightarrow> replay_event \<Rightarrow> replay_error + event_kind" where
  "check_event R loc d e =
     (if rev_name e = ''conformance.result'' then check_result R loc d (rev_attributes e)
      else if rev_name e = ''conformance.observation'' then
        and_then (attribute_map (rev_attributes e) (loc @ '' observation'')) (\<lambda>m.
        and_then (require_string m ''conformance.observation.name'' None (loc @ '' observation'')) (\<lambda>name.
          replay_fail (''reference '' @ loc @ '' contains unsupported observation '' @ ticked name @ '' in the first replay slice'')))
      else if rev_name e = ''conformance.fault'' then Inr FaultEvent
      else if rev_name e = ''conformance.abandoned'' then Inr AbandonedEvent
      else if rev_name e = ''conformance.empty'' then
        (if \<not> ro_empty d
         then replay_fail (''reference '' @ loc @ '' emits empty but registry operation '' @ operation_ref d @ '' does not declare it'')
         else Inr EmptyEvent)
      else if rev_name e = ''conformance.error'' then check_error R loc d (rev_attributes e)
      else replay_fail (''reference '' @ loc @ '' contains unsupported CTSC event '' @ ticked (rev_name e)))"

definition terminal_count :: "event_kind list \<Rightarrow> nat" where
  "terminal_count kinds =
     count_list kinds ResultEvent + count_list kinds EmptyEvent + count_list kinds ErrorEvent +
     (if FaultEvent \<in> set kinds then 1 else 0) + (if AbandonedEvent \<in> set kinds then 1 else 0)"

definition decode_inputs :: "replay_text \<Rightarrow> string \<Rightarrow> registry_op \<Rightarrow> replay_attributes \<Rightarrow> replay_error + replay_input list" where
  "decode_inputs R loc d vals =
     map_result (\<lambda>(name, t).
       case map_of vals name of
         None \<Rightarrow> replay_fail (''reference '' @ loc @ '' is missing declared input '' @ ticked name @ '' for '' @ operation_ref d)
       | Some v \<Rightarrow>
           and_then (decode_value R v t (loc @ '' input '' @ ticked name)) (\<lambda>x. Inr \<lparr>ri_name = name, ri_type = t, ri_value = x\<rparr>))
       (ro_inputs d)"

definition undeclared_input :: "registry_op \<Rightarrow> replay_attributes \<Rightarrow> string option" where
  "undeclared_input d vals = find (\<lambda>k. k \<notin> fst ` set (ro_inputs d)) (map fst vals)"

definition replay_inputs :: "replay_text \<Rightarrow> string \<Rightarrow> registry_op \<Rightarrow> replay_attributes \<Rightarrow> replay_error + replay_input list" where
  "replay_inputs R loc d m =
     (case map_of m ''conformance.operation.inputs'' of
        None \<Rightarrow> replay_fail (''reference '' @ loc @ '' is missing conformance.operation.inputs'')
      | Some (OKvlist kvs) \<Rightarrow>
          and_then (kvlist_map kvs (loc @ '' inputs'')) (\<lambda>vals.
            if length vals \<noteq> length (ro_inputs d)
            then replay_fail (''reference '' @ loc @ '' input names do not match registry operation '' @ operation_ref d)
            else and_then (decode_inputs R loc d vals) (\<lambda>xs.
              case undeclared_input d vals of
                Some k \<Rightarrow> replay_fail (''reference '' @ loc @ '' contains undeclared input '' @ ticked k @ '' for '' @ operation_ref d)
              | None \<Rightarrow> Inr xs))
      | Some _ \<Rightarrow> replay_fail (''reference '' @ loc @ '' operation inputs must use kvlistValue''))"

definition find_declaration :: "plan_registry \<Rightarrow> string \<Rightarrow> string \<Rightarrow> registry_op option" where
  "find_declaration reg component name = find (\<lambda>d. component = ro_component d \<and> name = ro_name d) (pr_operations reg)"

definition decode_operation :: "replay_text \<Rightarrow> plan_registry \<Rightarrow> replay_span \<Rightarrow> replay_error + replay_operation" where
  "decode_operation R reg sp =
     (let loc = ''operation span '' @ ticked (rsp_id sp) in
      and_then (attribute_map (rsp_attributes sp) loc) (\<lambda>m.
      and_then (and_then (require_string m ''conformance.component.id'' None loc) (guarded ''ComponentId'')) (\<lambda>component.
      and_then (and_then (require_string m ''conformance.operation.name'' None loc) (guarded ''OperationName'')) (\<lambda>name.
        case find_declaration reg component name of
          None \<Rightarrow> replay_fail (''reference '' @ loc @ '' names unknown operation '' @ ticked (component @ ''::'' @ name))
        | Some d \<Rightarrow>
            and_then (replay_inputs R loc d m) (\<lambda>xs.
            and_then (map_result (check_event R loc d) (rsp_events sp)) (\<lambda>kinds.
              if terminal_count kinds > 1 then replay_fail (''reference '' @ loc @ '' contains multiple terminal events'')
              else if ro_output d \<noteq> None \<and> terminal_count kinds = 0
              then replay_fail (''reference '' @ loc @ '' has no result or fault for result-bearing operation '' @ operation_ref d)
              else Inr \<lparr>rop_component = component, rop_name = name, rop_inputs = xs, rop_output = ro_output d\<rparr>))))))"

section \<open>Scenarios\<close>

type_synonym span_key = "string \<times> string" \<comment> \<open>trace and span identifier\<close>

type_synonym span_index = "(span_key \<times> replay_span) list"

definition span_key :: "replay_span \<Rightarrow> span_key" where
  "span_key sp = (rsp_trace sp, rsp_id sp)"

definition parent_key :: "replay_span \<Rightarrow> span_key" where
  "parent_key sp = (rsp_trace sp, rsp_parent sp)"

fun require_strings :: "replay_attributes \<Rightarrow> (string \<times> string option) list \<Rightarrow> string \<Rightarrow> replay_error + unit" where
  "require_strings m [] loc = Inr ()"
| "require_strings m ((key, wanted) # rest) loc = and_then (require_string m key wanted loc) (\<lambda>_. require_strings m rest loc)"

definition check_replay_resource :: "plan_registry \<Rightarrow> replay_resource \<Rightarrow> replay_error + unit" where
  "check_replay_resource reg res =
     and_then (attribute_map (rres_attributes res) ''reference resource'') (\<lambda>m.
       require_strings m
         [(''conformance.version'', Some ''0.4.0''), (''conformance.tool.name'', None), (''conformance.tool.version'', None),
          (''conformance.target.name'', None), (''conformance.target.language'', None),
          (''conformance.registry.id'', Some (pr_id reg)), (''conformance.registry.version'', Some (pr_version reg)),
          (''conformance.registry.digest'', Some (pr_digest reg))] ''reference resource'')"

fun index_spans :: "replay_text \<Rightarrow> span_index \<Rightarrow> replay_span list \<Rightarrow> replay_error + span_index" where
  "index_spans R by_id [] = Inr by_id"
| "index_spans R by_id (sp # sps) =
     and_then (validate_id (rsp_trace sp) 32 ''trace ID'') (\<lambda>_.
     and_then (validate_id (rsp_id sp) 16 ''span ID'') (\<lambda>_.
       if map_of by_id (span_key sp) \<noteq> None
       then replay_fail (''reference OTLP contains duplicate span ID '' @ ticked (rsp_id sp) @ '' in trace '' @ ticked (rsp_trace sp))
       else and_then (parse_time R (rsp_start sp) (''span '' @ ticked (rsp_id sp))) (\<lambda>_.
              index_spans R (bt_insert (span_key sp) sp by_id) sps)))"

definition spans_named :: "string \<Rightarrow> replay_span list \<Rightarrow> replay_span list" where
  "spans_named name spans = filter (\<lambda>sp. rsp_name sp = name) spans"

definition check_runs :: "replay_span list \<Rightarrow> replay_error + unit" where
  "check_runs spans =
     (let runs = spans_named ''conformance.run'' spans in
      if length runs \<noteq> 1 \<or> rsp_parent (hd runs) \<noteq> []
      then replay_fail (''reference OTLP must contain exactly one root conformance.run span, found '' @ nat_dec (length runs))
      else Inr ())"

record scenario_ref =
  sref_key :: span_key
  sref_name :: string
  sref_index :: int
  sref_position :: nat

definition scenario_ref_of :: "replay_text \<Rightarrow> span_index \<Rightarrow> nat \<times> replay_span \<Rightarrow> replay_error + scenario_ref" where
  "scenario_ref_of R by_id p =
     (case p of (position, sp) \<Rightarrow>
        let loc = ''scenario span '' @ ticked (rsp_id sp) in
        case map_of by_id (parent_key sp) of
          None \<Rightarrow> replay_fail (loc @ '' has an unresolved parent'')
        | Some parent \<Rightarrow>
            if rsp_name parent \<noteq> ''conformance.run'' then replay_fail (loc @ '' parent is not conformance.run'')
            else and_then (attribute_map (rsp_attributes sp) loc) (\<lambda>m.
                 and_then (and_then (require_string m ''conformance.scenario.name'' None loc) (guarded ''ScenarioName'')) (\<lambda>name.
                 and_then (require_integer R m ''conformance.scenario.index'' loc) (\<lambda>i.
                   if i < 0 then replay_fail (''scenario '' @ ticked name @ '' has negative index '' @ int_dec i)
                   else Inr \<lparr>sref_key = span_key sp, sref_name = name, sref_index = i, sref_position = position\<rparr>))))"

fun check_indexes :: "nat \<Rightarrow> scenario_ref list \<Rightarrow> replay_error + unit" where
  "check_indexes n [] = Inr ()"
| "check_indexes n (r # rs) =
     (if int n \<ge> 2 ^ 63 then replay_fail ''reference scenario index exceeds i64''
      else if sref_index r \<noteq> int n
      then replay_fail (''reference scenario indexes must be unique and contiguous from zero; expected '' @ nat_dec n @
             '', found '' @ int_dec (sref_index r))
      else check_indexes (Suc n) rs)"

definition debug_list :: "replay_text \<Rightarrow> string list \<Rightarrow> string" where
  "debug_list R names = ''['' @ join '', '' (map (str_debug R) names) @ '']''"

definition scenario_refs :: "replay_text \<Rightarrow> span_index \<Rightarrow> string list \<Rightarrow> replay_span list \<Rightarrow> replay_error + scenario_ref list" where
  "scenario_refs R by_id names spans =
     and_then (map_result (scenario_ref_of R by_id) (filter (\<lambda>(_, sp). rsp_name sp = ''conformance.scenario'') (enumerate 0 spans))) (\<lambda>found.
       let refs = sort_key (\<lambda>r. (sref_index r, sref_position r)) found in
       and_then (check_indexes 0 refs) (\<lambda>_.
         if map sref_name refs \<noteq> names
         then replay_fail (''reference scenario order/names '' @ debug_list R (map sref_name refs) @
                '' do not match capture manifest '' @ debug_list R names)
         else Inr refs))"

record operation_index =
  oi_siblings :: "(span_key \<times> (int \<times> int) list) list"
  oi_decoded :: "(span_key \<times> replay_operation) list"

definition index_operation :: "replay_text \<Rightarrow> plan_registry \<Rightarrow> span_index \<Rightarrow> operation_index \<Rightarrow> replay_span \<Rightarrow> replay_error + operation_index" where
  "index_operation R reg by_id oi sp =
     (case map_of by_id (parent_key sp) of
        None \<Rightarrow> replay_fail (''operation span '' @ ticked (rsp_id sp) @ '' has an unresolved parent'')
      | Some parent \<Rightarrow>
          if rsp_name parent \<noteq> ''conformance.scenario'' \<and> rsp_name parent \<noteq> ''conformance.operation''
          then replay_fail (''operation span '' @ ticked (rsp_id sp) @ '' parent '' @ ticked (rsp_name parent) @ '' is not a scenario or operation'')
          else if rsp_name parent = ''conformance.scenario'' \<and> (\<exists>e\<in>set (rsp_events sp). rev_name e = ''conformance.abandoned'')
          then Inl (UnsupportedScheduling
                 ''unsupported async replay scheduling: a top-level abandoned operation cannot be awaited to completion'')
          else and_then (parse_time R (rsp_start sp) ''operation start'') (\<lambda>start.
               and_then (parse_time R (rsp_end sp) ''operation end'') (\<lambda>end_time.
               and_then (decode_operation R reg sp) (\<lambda>op.
                 Inr (oi\<lparr>oi_siblings := bt_push (parent_key sp) (start, end_time) (oi_siblings oi),
                        oi_decoded := bt_insert (span_key sp) op (oi_decoded oi)\<rparr>)))))"

fun index_operations :: "replay_text \<Rightarrow> plan_registry \<Rightarrow> span_index \<Rightarrow> operation_index \<Rightarrow> replay_span list \<Rightarrow> replay_error + operation_index" where
  "index_operations R reg by_id oi [] = Inr oi"
| "index_operations R reg by_id oi (sp # sps) =
     and_then (index_operation R reg by_id oi sp) (\<lambda>oi'. index_operations R reg by_id oi' sps)"

fun overlapping :: "(int \<times> int) list \<Rightarrow> bool" where
  "overlapping (a # b # rest) \<longleftrightarrow> snd a > fst b \<or> overlapping (b # rest)"
| "overlapping _ \<longleftrightarrow> False"

definition check_siblings :: "operation_index \<Rightarrow> replay_error + unit" where
  "check_siblings oi =
     (if \<exists>(key, intervals)\<in>set (oi_siblings oi). overlapping (sort intervals)
      then Inl (UnsupportedScheduling
             ''unsupported async replay scheduling: overlapping sibling operations outside conformance.parallel'')
      else Inr ())"

text \<open>
  The top-level operations of a scenario in order of their start. The key of the sort is evaluated only
  when there is something to compare.
\<close>

definition top_start :: "replay_text \<Rightarrow> replay_span \<Rightarrow> int option" where
  "top_start R sp = (case parse_time R (rsp_start sp) ''top-level operation'' of Inl _ \<Rightarrow> None | Inr t \<Rightarrow> Some t)"

definition assemble_scenario ::
    "replay_text \<Rightarrow> operation_index \<Rightarrow> replay_span list \<Rightarrow> scenario_ref \<Rightarrow> replay_error + replay_scenario" where
  "assemble_scenario R oi spans r =
     (let top = filter (\<lambda>(_, sp). rsp_name sp = ''conformance.operation'' \<and> parent_key sp = sref_key r) (enumerate 0 spans) in
      if length top \<ge> 2 \<and> (\<exists>(_, sp)\<in>set top. top_start R sp = None)
      then Inl (ReplayPanic ''top-level operation timestamps were validated before sorting'')
      else
        let ordered = sort_key (\<lambda>(position, sp). (the (top_start R sp), position)) top in
        if top = [] then replay_fail (''reference scenario '' @ ticked (sref_name r) @ '' contains no top-level operations'')
        else and_then (map_result (\<lambda>(_, sp).
               case map_of (oi_decoded oi) (span_key sp) of
                 None \<Rightarrow> Inl (ReplayPanic ''every validated operation span was decoded before scenario assembly'')
               | Some op \<Rightarrow> Inr op) ordered) (\<lambda>ops.
               Inr \<lparr>rsc_name = sref_name r, rsc_index = word_of_int (sref_index r), rsc_operations = ops\<rparr>))"

definition resource_spans :: "replay_resource \<Rightarrow> replay_span list" where
  "resource_spans res = concat (rres_scopes res)"

definition decode_spans ::
    "replay_text \<Rightarrow> plan_registry \<Rightarrow> string list \<Rightarrow> replay_span list \<Rightarrow> replay_error + (replay_scenario list \<times> replay_operation list)" where
  "decode_spans R reg names spans =
     (if spans = [] then replay_fail ''reference OTLP contains no spans''
      else and_then (index_spans R [] spans) (\<lambda>by_id.
           and_then (check_runs spans) (\<lambda>_.
           and_then (scenario_refs R by_id names spans) (\<lambda>refs.
           and_then (index_operations R reg by_id \<lparr>oi_siblings = [], oi_decoded = []\<rparr> (spans_named ''conformance.operation'' spans)) (\<lambda>oi.
           and_then (check_siblings oi) (\<lambda>_.
             if spans_named ''conformance.parallel'' spans \<noteq> []
             then replay_fail ''reference OTLP parallel spans are unsupported by the first replay slice''
             else and_then (map_result (assemble_scenario R oi spans) refs) (\<lambda>scs. Inr (scs, map snd (oi_decoded oi)))))))))"

definition decode_scenarios ::
    "replay_text \<Rightarrow> plan_registry \<Rightarrow> string list \<Rightarrow> replay_resource list \<Rightarrow> replay_error + (replay_scenario list \<times> replay_operation list)" where
  "decode_scenarios R reg names doc =
     (case doc of
        [res] \<Rightarrow> and_then (check_replay_resource reg res) (\<lambda>_. decode_spans R reg names (resource_spans res))
      | _ \<Rightarrow> replay_fail (''reference OTLP must contain exactly one resourceSpans entry, found '' @ nat_dec (length doc)))"

end
