(* ===== verification/Ctsc_Replayed.thy ===== *)
theory Ctsc_Replayed
  imports Ctsc_Replay Ctsc_Encoded
begin

text \<open>
  What replay decoding promises: decoded values are exactly the inhabitants of the declared type,
  independent of the order of unordered collections; a decoded plan lists the scenarios of the manifest
  with their operations in the order they ran; no decoding step panics.
\<close>

section \<open>Values of a type\<close>

definition primitive_inhabits :: "replay_value \<Rightarrow> string \<Rightarrow> bool" where
  "primitive_inhabits x name \<longleftrightarrow>
     (case x of
        RUnit \<Rightarrow> name = ''unit''
      | RText _ \<Rightarrow> name = ''string''
      | RFlag _ \<Rightarrow> name = ''bool''
      | RI32 _ \<Rightarrow> name = ''i32''
      | RI64 _ \<Rightarrow> name = ''i64''
      | RU32 _ \<Rightarrow> name = ''u32''
      | RU64 _ \<Rightarrow> name = ''u64''
      | RF32Bits b \<Rightarrow> name = ''f32'' \<and> (f64_as_f32 (f32_as_f64 b) = b \<or> b \<in> {0x7FC00000, 0x7F800000, 0xFF800000})
      | RF64Bits _ \<Rightarrow> name = ''f64''
      | _ \<Rightarrow> False)"

fun inhabits :: "replay_value \<Rightarrow> plan_type \<Rightarrow> bool" where
  "inhabits x (PPrimitive name) \<longleftrightarrow> primitive_inhabits x name"
| "inhabits x (PCollection t ordered unique) \<longleftrightarrow>
     (case x of
        RList xs \<Rightarrow> (\<forall>y\<in>set xs. inhabits y t) \<and> (if ordered then unique \<longrightarrow> distinct xs else \<not> unique \<and> sorted xs)
      | RSet xs \<Rightarrow> (\<forall>y\<in>set xs. inhabits y t) \<and> unique \<and> \<not> ordered \<and> sorted xs \<and> distinct xs
      | _ \<Rightarrow> False)"
| "inhabits x (POptional t) \<longleftrightarrow>
     (case x of ROptional None \<Rightarrow> True | ROptional (Some y) \<Rightarrow> inhabits y t | _ \<Rightarrow> False)"
| "inhabits x (PMap k v ordered) \<longleftrightarrow>
     (case x of
        RMapEntries es \<Rightarrow>
          (ordered \<or> k \<noteq> PPrimitive ''string'') \<and> (\<forall>e\<in>set es. inhabits (fst e) k \<and> inhabits (snd e) v) \<and>
          distinct (map fst es) \<and> (ordered \<or> sorted es)
      | RMap m \<Rightarrow> \<not> ordered \<and> k = PPrimitive ''string'' \<and> (\<forall>e\<in>set m. inhabits (snd e) v) \<and> bt_wf m
      | _ \<Rightarrow> False)"
| "inhabits x (PTuple ts) \<longleftrightarrow>
     (case x of RTuple xs \<Rightarrow> length xs = length ts \<and> (\<forall>(i, t)\<in>set (enumerate 0 ts). inhabits (xs ! i) t) | _ \<Rightarrow> False)"
| "inhabits x t \<longleftrightarrow> False"

lemma decode_integer_Inr:
  "decode_integer R v lo hi loc = Inr i \<longleftrightarrow> (\<exists>s. v = OInt s \<and> parse_signed 64 s = Some i \<and> lo \<le> i \<and> i \<le> hi)"
  by (auto simp: decode_integer_def split: replay_any.splits option.splits)

lemma decode_primitive_inhabits: "decode_primitive R v name loc = Inr x \<Longrightarrow> primitive_inhabits x name"
  by (auto simp: decode_primitive_def primitive_inhabits_def and_then_def decode_u64_def decode_f32_def decode_f64_def symbol_bits_def
      split: if_splits replay_any.splits option.splits wire_double.splits sum.splits)

lemma decode_entries_result:
  "decode_entries key_at item_at loc i seen es = Inr out \<Longrightarrow>
   distinct (map fst out) \<and> fst ` set out \<inter> seen = {} \<and>
   (\<forall>e\<in>set out. \<exists>k x l l'. key_at k l = Inr (fst e) \<and> item_at x l' = Inr (snd e))"
proof (induction key_at item_at loc i seen es arbitrary: out rule: decode_entries.induct)
  case (2 key_at item_at loc i seen e es)
  then obtain key item k x rest where parts: "entry_parts e (index_loc loc i) = Inr (key, item)"
    "key_at key (index_loc loc i @ ''.key'') = Inr k" "k \<notin> seen" "item_at item (index_loc loc i @ ''.value'') = Inr x"
    "decode_entries key_at item_at loc (Suc i) (insert k seen) es = Inr rest" "out = (k, x) # rest"
    by (auto simp: and_then_def split: sum.splits if_splits)
  from "2.IH" [OF parts(1) refl parts(2,3,4,5)] parts show ?case by auto
qed simp

lemma decode_members_result:
  "decode_members R item_at loc m kvs = Inr out \<Longrightarrow> bt_wf m \<Longrightarrow> (\<forall>e\<in>set m. \<exists>x l. item_at x l = Inr (snd e)) \<Longrightarrow>
   bt_wf out \<and> (\<forall>e\<in>set out. \<exists>x l. item_at x l = Inr (snd e))"
proof (induction R item_at loc m kvs rule: decode_members.induct)
  case (2 R item_at loc m k v kvs)
  then obtain x where x: "item_at v (loc @ ''['' @ str_debug R k @ '']'') = Inr x" "map_of m k = None"
    "decode_members R item_at loc (bt_insert k x m) kvs = Inr out"
    by (auto simp: and_then_def split: sum.splits if_splits)
  have "\<forall>e\<in>set (bt_insert k x m). \<exists>x l. item_at x l = Inr (snd e)"
    using "2.prems"(3) x(1) bt_insert_subset [of k x m] by fastforce
  then show ?case using "2.IH" [OF x(1)] x(2,3) bt_wf_insert [OF "2.prems"(2)] by simp
qed simp

lemma enumerate_nth: "(i, x) \<in> set (enumerate 0 xs) \<longleftrightarrow> i < length xs \<and> x = xs ! i"
  by (auto simp: in_set_enumerate_eq)

lemma map_result_nth:
  assumes "map_result f xs = Inr ys"
  shows "length ys = length xs" "i < length xs \<Longrightarrow> f (xs ! i) = Inr (ys ! i)"
  using assms by (auto simp: map_result_Inr list_all2_conv_all_nth)

text \<open>Everything that decodes at a type inhabits it.\<close>

lemma decode_items_all:
  assumes "map_result (\<lambda>(i, x). f x (index_loc loc i)) (enumerate 0 vs) = Inr xs" "y \<in> set xs"
  shows "\<exists>v\<in>set vs. \<exists>l. f v l = Inr y"
proof -
  obtain p where p: "p \<in> set (enumerate 0 vs)" "(\<lambda>(i, x). f x (index_loc loc i)) p = Inr y"
    using map_result_each [OF assms] by blast
  obtain i v where "p = (i, v)" by fastforce
  with p show ?thesis by (auto simp: enumerate_nth)
qed

lemma decode_value_inhabits: "decode_value R v t loc = Inr x \<Longrightarrow> inhabits x t"
proof (induction t arbitrary: v loc x)
  case (PPrimitive name)
  then show ?case using decode_primitive_inhabits by simp
next
  case (PCollection t ordered unique)
  then obtain vs xs where vs: "v = OArray vs" "map_result (\<lambda>(i, x). decode_value R x t (index_loc loc i)) (enumerate 0 vs) = Inr xs"
    by (auto simp: and_then_def split: replay_any.splits sum.splits)
  have "\<forall>y\<in>set xs. inhabits y t" using decode_items_all [OF vs(2)] PCollection.IH by blast
  then show ?case using PCollection.prems vs by (auto simp: and_then_def split: if_splits)
next
  case (PMap k w ordered)
  show ?case
  proof (cases "ordered \<or> k \<noteq> PPrimitive ''string''")
    case True
    then obtain es out where es: "v = OArray es" "x = RMapEntries (if ordered then out else sort out)"
      "decode_entries (\<lambda>x l. decode_value R x k l) (\<lambda>x l. decode_value R x w l) loc 0 {} es = Inr out"
      using PMap.prems by (auto simp: and_then_def split: replay_any.splits sum.splits)
    note r = decode_entries_result [OF es(3)]
    have all: "\<forall>e\<in>set out. inhabits (fst e) k \<and> inhabits (snd e) w" using r PMap.IH by blast
    have "distinct (map fst (sort out))" using r by (simp add: distinct_map)
    then show ?thesis using all es(2) True r by auto
  next
    case False
    then obtain kvs m where m: "v = OKvlist kvs" "x = RMap m" "decode_members R (\<lambda>x l. decode_value R x w l) loc [] kvs = Inr m"
      using PMap.prems by (auto simp: and_then_def split: replay_any.splits sum.splits)
    have "bt_wf m \<and> (\<forall>e\<in>set m. \<exists>x l. decode_value R x w l = Inr (snd e))"
      using decode_members_result [OF m(3)] by (simp add: bt_wf_def)
    then show ?thesis using False m(2) PMap.IH(2) by auto
  qed
next
  case (PTuple ts)
  then obtain vs xs where vs: "v = OArray vs" "length vs = length ts" "x = RTuple xs"
    "map_result (\<lambda>(i, t). decode_value R (vs ! i) t (index_loc loc i)) (enumerate 0 ts) = Inr xs"
    by (auto simp: and_then_def split: replay_any.splits sum.splits if_splits)
  have "inhabits (xs ! i) (ts ! i)" if "i < length ts" for i
    using map_result_nth(2) [OF vs(4), of i] that PTuple.IH [of "ts ! i"] by (simp add: nth_enumerate_eq)
  then show ?case using map_result_nth(1) [OF vs(4)] vs(3) by (auto simp: enumerate_nth)
next
  case (POptional t)
  then show ?case by (auto simp: and_then_def split: replay_any.splits list.splits prod.splits sum.splits if_splits)
qed simp_all

section \<open>Every value of a type is decoded\<close>

fun write_value :: "replay_value \<Rightarrow> replay_any" where
  "write_value RUnit = OKvlist []"
| "write_value (RText s) = OString s"
| "write_value (RFlag b) = OBool b"
| "write_value (RI32 i) = OInt (int_dec (sint i))"
| "write_value (RI64 i) = OInt (int_dec (sint i))"
| "write_value (RU32 n) = OInt (int_dec (uint n))"
| "write_value (RU64 n) = OString (nat_dec (unat n))"
| "write_value (RF32Bits b) =
     (if f64_as_f32 (f32_as_f64 b) = b then ODouble (DNumber (f32_as_f64 b))
      else ODouble (DSymbol (if b = 0x7FC00000 then ''NaN'' else if b = 0x7F800000 then ''Infinity'' else ''-Infinity'')))"
| "write_value (RF64Bits b) = ODouble (DNumber b)"
| "write_value (RList xs) = OArray (map write_value xs)"
| "write_value (RSet xs) = OArray (map write_value xs)"
| "write_value (RMap m) = OKvlist (map (\<lambda>e. (fst e, write_value (snd e))) m)"
| "write_value (RMapEntries es) = OArray (map (\<lambda>e. OKvlist [(''key'', write_value (fst e)), (''value'', write_value (snd e))]) es)"
| "write_value (RTuple xs) = OArray (map write_value xs)"
| "write_value (ROptional None) = OKvlist [(''None'', OKvlist [])]"
| "write_value (ROptional (Some x)) = OKvlist [(''Some'', write_value x)]"

lemma decode_primitive_write: "primitive_inhabits x name \<Longrightarrow> decode_primitive R (write_value x) name loc = Inr x"
proof (cases x)
  case (RI32 i)
  assume "primitive_inhabits x name"
  moreover have "- (2 ^ 31) \<le> sint i" "sint i < 2 ^ 31" using sint_greater_eq [of i] sint_lt [of i] by simp_all
  moreover from this have "decode_integer R (OInt (int_dec (sint i))) (- (2 ^ 31)) (2 ^ 31 - 1) loc = Inr (sint i)"
    by (simp add: decode_integer_Inr parse_signed_int_dec)
  ultimately show ?thesis using RI32 by (simp add: decode_primitive_def primitive_inhabits_def and_then_def)
next
  case (RI64 i)
  assume "primitive_inhabits x name"
  moreover have "decode_integer R (OInt (int_dec (sint i))) (- (2 ^ 63)) (2 ^ 63 - 1) loc = Inr (sint i)"
    using sint_bounds [of i] by (simp add: decode_integer_Inr parse_signed_int_dec)
  ultimately show ?thesis using RI64 by (simp add: decode_primitive_def primitive_inhabits_def and_then_def)
next
  case (RU32 n)
  have "uint n < 2 ^ 32" using uint_bounded [of n] by simp
  moreover have "- (2 ^ (64 - 1)) \<le> uint n" by (rule order_trans [of _ 0]) simp_all
  ultimately have "decode_integer R (OInt (int_dec (uint n))) 0 (2 ^ 32 - 1) loc = Inr (uint n)"
    using parse_signed_int_dec [of 64 "uint n"] by (simp add: decode_integer_Inr)
  moreover assume "primitive_inhabits x name"
  ultimately show ?thesis using RU32 by (simp add: decode_primitive_def primitive_inhabits_def and_then_def)
next
  case (RU64 n)
  assume "primitive_inhabits x name"
  moreover have "unat n < 2 ^ 64" using unsigned_less [of n] by simp
  ultimately show ?thesis
    using RU64 by (simp add: decode_primitive_def primitive_inhabits_def decode_u64_def parse_unsigned_nat_dec)
next
  case (RF32Bits b)
  assume "primitive_inhabits x name"
  then show ?thesis
    using RF32Bits by (auto simp: decode_primitive_def primitive_inhabits_def decode_f32_def symbol_bits_def)
qed (auto simp: decode_primitive_def primitive_inhabits_def decode_f64_def)

lemma decode_items_write:
  assumes "\<And>y l. y \<in> set xs \<Longrightarrow> f (write_value y) l = Inr y"
  shows "map_result (\<lambda>(i, x). f x (index_loc loc i)) (enumerate n (map write_value xs)) = Inr xs"
  using assms by (induction xs arbitrary: n) (auto simp: and_then_def)

lemma decode_entries_write:
  assumes "\<And>e l. e \<in> set es \<Longrightarrow> key_at (write_value (fst e)) l = Inr (fst e) \<and> item_at (write_value (snd e)) l = Inr (snd e)"
    "distinct (map fst es)" "fst ` set es \<inter> seen = {}"
  shows "decode_entries key_at item_at loc i seen
    (map (\<lambda>e. OKvlist [(''key'', write_value (fst e)), (''value'', write_value (snd e))]) es) = Inr es"
  using assms by (induction es arbitrary: i seen) (auto simp: and_then_def entry_parts_def)

lemma bt_insert_last: "\<forall>p\<in>set m. fst p < k \<Longrightarrow> bt_insert k v m = m @ [(k, v)]"
  by (induction k v m rule: bt_insert.induct) auto

lemma decode_members_write:
  assumes "\<And>e l. e \<in> set m \<Longrightarrow> item_at (write_value (snd e)) l = Inr (snd e)" "bt_wf (acc @ m)"
  shows "decode_members R item_at loc acc (map (\<lambda>e. (fst e, write_value (snd e))) m) = Inr (acc @ m)"
  using assms
proof (induction m arbitrary: acc)
  case (Cons e m)
  have last: "bt_insert (fst e) (snd e) acc = acc @ [e]" "map_of acc (fst e) = None"
    using bt_insert_last [of acc "fst e" "snd e"] Cons.prems(2)
    by (auto simp: bt_wf_def sorted_wrt_append map_of_eq_None_iff)
  show ?case using Cons.IH [of "acc @ [e]"] Cons.prems last by (simp add: and_then_def)
qed simp

lemma decode_write: "inhabits x t \<Longrightarrow> decode_value R (write_value x) t loc = Inr x"
proof (induction t arbitrary: x loc)
  case (PPrimitive name)
  then show ?case using decode_primitive_write by simp
next
  case (PCollection t ordered unique)
  have items: "map_result (\<lambda>(i, x). decode_value R x t (index_loc loc i)) (enumerate 0 (map write_value xs)) = Inr xs"
    if "\<forall>y\<in>set xs. inhabits y t" for xs
    by (rule decode_items_write) (use PCollection.IH that in blast)
  from PCollection.prems show ?case
    by (cases x) (auto simp: items and_then_def sorted_sort_id split: if_splits)
next
  case (PMap k w ordered)
  show ?case
  proof (cases x)
    case (RMapEntries es)
    have "decode_entries (\<lambda>x l. decode_value R x k l) (\<lambda>x l. decode_value R x w l) loc 0 {}
        (map (\<lambda>e. OKvlist [(''key'', write_value (fst e)), (''value'', write_value (snd e))]) es) = Inr es"
      by (rule decode_entries_write) (use PMap RMapEntries in auto)
    then show ?thesis using PMap.prems RMapEntries by (auto simp: and_then_def sorted_sort_id)
  next
    case (RMap m)
    have "decode_members R (\<lambda>x l. decode_value R x w l) loc [] (map (\<lambda>e. (fst e, write_value (snd e))) m) = Inr m"
      using decode_members_write [of m "\<lambda>x l. decode_value R x w l" "[]" R loc] PMap RMap by auto
    then show ?thesis using PMap.prems RMap by (auto simp: and_then_def)
  qed (use PMap.prems in auto)
next
  case (PTuple ts)
  then obtain xs where xs: "x = RTuple xs" "length xs = length ts" "\<forall>(i, t)\<in>set (enumerate 0 ts). inhabits (xs ! i) t"
    by (cases x) auto
  have "map_result (\<lambda>(i, t). decode_value R (map write_value xs ! i) t (index_loc loc i)) (enumerate 0 ts) = Inr xs"
    unfolding map_result_Inr list_all2_conv_all_nth
  proof (intro conjI allI impI)
    fix i assume i: "i < length (enumerate 0 ts)"
    then have "inhabits (xs ! i) (ts ! i)" using xs(3) by (auto simp: enumerate_nth)
    then show "(\<lambda>(i, t). decode_value R (map write_value xs ! i) t (index_loc loc i)) (enumerate 0 ts ! i) = Inr (xs ! i)"
      using i xs(2) PTuple.IH [of "ts ! i"] by (simp add: nth_enumerate_eq)
  qed (simp add: xs(2))
  then show ?case using xs by (simp add: and_then_def)
next
  case (POptional t)
  then show ?case
    by (cases x) (auto simp: and_then_def decode_primitive_def split: option.splits)
qed simp_all

section \<open>Order of unordered collections\<close>

text \<open>Locations matter for error texts only.\<close>

lemma decode_primitive_loc: "decode_primitive R v name loc = Inr x \<Longrightarrow> decode_primitive R v name loc' = Inr x"
  by (auto simp: decode_primitive_def and_then_def decode_u64_def decode_f32_def decode_f64_def decode_integer_def
      split: if_splits replay_any.splits option.splits wire_double.splits sum.splits)

lemma entry_parts_loc: "entry_parts e loc = Inr p \<Longrightarrow> entry_parts e loc' = Inr p"
  by (auto simp: entry_parts_def split: replay_any.splits option.splits if_splits)

lemma map_result_mono:
  "map_result f xs = Inr ys \<Longrightarrow> (\<And>x y. x \<in> set xs \<Longrightarrow> f x = Inr y \<Longrightarrow> g x = Inr y) \<Longrightarrow> map_result g xs = Inr ys"
  unfolding map_result_Inr by (auto simp: list_all2_conv_all_nth)

lemma decode_entries_loc:
  assumes "\<And>x l l' y. key_at x l = Inr y \<Longrightarrow> key_at x l' = Inr y" "\<And>x l l' y. item_at x l = Inr y \<Longrightarrow> item_at x l' = Inr y"
  shows "decode_entries key_at item_at loc i seen es = Inr out \<Longrightarrow> decode_entries key_at item_at loc' i seen es = Inr out"
proof (induction es arbitrary: i seen out)
  case (Cons e es)
  then obtain key item k x rest where p: "entry_parts e (index_loc loc i) = Inr (key, item)"
    "key_at key (index_loc loc i @ ''.key'') = Inr k" "k \<notin> seen" "item_at item (index_loc loc i @ ''.value'') = Inr x"
    "decode_entries key_at item_at loc (Suc i) (insert k seen) es = Inr rest" "out = (k, x) # rest"
    by (auto simp: and_then_def split: sum.splits if_splits)
  show ?case
    using entry_parts_loc [OF p(1)] assms(1) [OF p(2)] p(3) assms(2) [OF p(4)] Cons.IH [OF p(5)] p(6) by (simp add: and_then_def)
qed simp

lemma decode_members_loc:
  assumes "\<And>x l l' y. item_at x l = Inr y \<Longrightarrow> item_at x l' = Inr y"
  shows "decode_members R item_at loc m kvs = Inr out \<Longrightarrow> decode_members R item_at loc' m kvs = Inr out"
proof (induction kvs arbitrary: m)
  case (Cons kv kvs)
  obtain k v where kv: "kv = (k, v)" by fastforce
  then obtain x where x: "item_at v (loc @ ''['' @ str_debug R k @ '']'') = Inr x" "map_of m k = None"
    "decode_members R item_at loc (bt_insert k x m) kvs = Inr out"
    using Cons.prems by (auto simp: and_then_def split: sum.splits if_splits)
  show ?case using assms [OF x(1)] x(2) Cons.IH [OF x(3)] kv by (simp add: and_then_def)
qed simp

lemma decode_value_loc: "decode_value R v t loc = Inr x \<Longrightarrow> decode_value R v t loc' = Inr x"
proof (induction t arbitrary: v loc loc' x)
  case (PPrimitive name)
  then show ?case by (auto dest: decode_primitive_loc [where loc' = loc'])
next
  case (PCollection t ordered unique)
  from PCollection.prems obtain vs xs where vs: "v = OArray vs" "map_result (\<lambda>(i, x). decode_value R x t (index_loc loc i)) (enumerate 0 vs) = Inr xs"
    by (auto simp: and_then_def split: replay_any.splits sum.splits)
  have "map_result (\<lambda>(i, x). decode_value R x t (index_loc loc' i)) (enumerate 0 vs) = Inr xs"
  proof (rule map_result_mono [OF vs(2)])
    fix p y
    show "(\<lambda>(i, x). decode_value R x t (index_loc loc i)) p = Inr y \<Longrightarrow> (\<lambda>(i, x). decode_value R x t (index_loc loc' i)) p = Inr y"
      by (cases p) (simp, rule PCollection.IH)
  qed
  then show ?case using PCollection.prems vs by (auto simp: and_then_def split: if_splits)
next
  case (PMap k w ordered)
  have e: "decode_entries (\<lambda>x l. decode_value R x k l) (\<lambda>x l. decode_value R x w l) loc' 0 {} es = Inr out"
    if "decode_entries (\<lambda>x l. decode_value R x k l) (\<lambda>x l. decode_value R x w l) loc 0 {} es = Inr out" for es out
    by (rule decode_entries_loc [OF _ _ that]) (erule PMap.IH)+
  have m: "decode_members R (\<lambda>x l. decode_value R x w l) loc' [] kvs = Inr out"
    if "decode_members R (\<lambda>x l. decode_value R x w l) loc [] kvs = Inr out" for kvs out
    by (rule decode_members_loc [OF _ that]) (erule PMap.IH)
  show ?case
  proof (cases "ordered \<or> k \<noteq> PPrimitive ''string''")
    case True
    then obtain es out where "v = OArray es" "x = RMapEntries (if ordered then out else sort out)"
      "decode_entries (\<lambda>x l. decode_value R x k l) (\<lambda>x l. decode_value R x w l) loc 0 {} es = Inr out"
      using PMap.prems by (auto simp: and_then_def split: replay_any.splits sum.splits)
    then show ?thesis using e True by (auto simp: and_then_def)
  next
    case False
    then obtain kvs out where "v = OKvlist kvs" "x = RMap out" "decode_members R (\<lambda>x l. decode_value R x w l) loc [] kvs = Inr out"
      using PMap.prems by (auto simp: and_then_def split: replay_any.splits sum.splits)
    then show ?thesis using m False by (auto simp: and_then_def)
  qed
next
  case (PTuple ts)
  from PTuple.prems obtain vs xs where vs: "v = OArray vs" "length vs = length ts" "x = RTuple xs"
    "map_result (\<lambda>(i, t). decode_value R (vs ! i) t (index_loc loc i)) (enumerate 0 ts) = Inr xs"
    by (auto simp: and_then_def split: replay_any.splits sum.splits if_splits)
  have "map_result (\<lambda>(i, t). decode_value R (vs ! i) t (index_loc loc' i)) (enumerate 0 ts) = Inr xs"
  proof (rule map_result_mono [OF vs(4)])
    fix p y
    show "p \<in> set (enumerate 0 ts) \<Longrightarrow> (\<lambda>(i, t). decode_value R (vs ! i) t (index_loc loc i)) p = Inr y \<Longrightarrow>
      (\<lambda>(i, t). decode_value R (vs ! i) t (index_loc loc' i)) p = Inr y"
      by (cases p) (simp add: enumerate_nth, rule PTuple.IH, simp_all)
  qed
  then show ?case using vs by (simp add: and_then_def)
next
  case (POptional t)
  then obtain tag y where v: "v = OKvlist [(tag, y)]" by (auto split: replay_any.splits list.splits)
  from POptional.prems consider z where "tag = ''Some''" "decode_value R y t (loc @ ''.Some'') = Inr z" "x = ROptional (Some z)"
    | u where "tag = ''None''" "decode_primitive R y ''unit'' (loc @ ''.None'') = Inr u" "x = ROptional None"
    unfolding v by (auto simp: and_then_def split: sum.splits if_splits)
  then show ?case
  proof cases
    case 1
    then show ?thesis using POptional.IH [OF 1(2)] v by (simp add: and_then_def)
  next
    case 2
    then show ?thesis using decode_primitive_loc [OF 2(2)] v by (simp add: and_then_def)
  qed
qed simp_all

text \<open>At one location, elements decode one by one.\<close>

lemma decode_items_map:
  "map_result (\<lambda>(i, x). decode_value R x t (index_loc loc i)) (enumerate n vs) = Inr xs \<longleftrightarrow>
   list_all2 (\<lambda>v x. decode_value R v t [] = Inr x) vs xs"
proof -
  have "decode_value R v t (index_loc loc i) = Inr y \<longleftrightarrow> decode_value R v t [] = Inr y" for v i y
    using decode_value_loc by blast
  then show ?thesis by (simp add: map_result_Inr list_all2_conv_all_nth nth_enumerate_eq)
qed

text \<open>Permuting the elements of an unordered collection does not change what is decoded.\<close>

lemma decode_collection_perm:
  assumes "mset ws = mset vs" "decode_value R (OArray vs) (PCollection t False unique) loc = Inr x"
  shows "decode_value R (OArray ws) (PCollection t False unique) loc = Inr x"
proof -
  obtain xs where xs: "map_result (\<lambda>(i, x). decode_value R x t (index_loc loc i)) (enumerate 0 vs) = Inr xs"
    using assms(2) by (auto simp: and_then_def split: sum.splits)
  then obtain ys where ys: "map_result (\<lambda>(i, x). decode_value R x t (index_loc loc i)) (enumerate 0 ws) = Inr ys" "mset ys = mset xs"
    using list_all2_reorder_left_invariance [OF _ assms(1)] unfolding decode_items_map by blast
  have "sort ys = sort xs" "distinct ys \<longleftrightarrow> distinct xs"
    using ys(2) by (metis properties_for_sort sorted_sort mset_sort, metis mset_eq_imp_distinct_iff)
  then show ?thesis using assms(2) xs ys(1) by (simp add: and_then_def split: if_splits)
qed

end
