(* ===== verification/Ctsc_Planned.thy ===== *)
theory Ctsc_Planned
  imports Ctsc_Replayed
begin

text \<open>
  Plans decoded from the spans of a reference trace: what the indexes of the decoder contain, that its
  scenarios and operations are those of the spans, and that none of its expectations fails.
\<close>

declare split_paired_All [simp del] split_paired_Ex [simp del] \<comment> \<open>keys stay pairs\<close>

section \<open>The index of spans\<close>

definition indexed :: "replay_text \<Rightarrow> replay_span \<Rightarrow> bool" where
  "indexed R sp \<longleftrightarrow>
     validate_id (rsp_trace sp) 32 ''trace ID'' = Inr () \<and> validate_id (rsp_id sp) 16 ''span ID'' = Inr () \<and>
     (\<exists>t. parse_time R (rsp_start sp) (''span '' @ ticked (rsp_id sp)) = Inr t)"

lemma index_spans_result:
  "index_spans R by_id sps = Inr m \<Longrightarrow>
   distinct (map span_key sps) \<and> (\<forall>sp\<in>set sps. indexed R sp \<and> map_of by_id (span_key sp) = None \<and> map_of m (span_key sp) = Some sp) \<and>
   (\<forall>k. k \<notin> span_key ` set sps \<longrightarrow> map_of m k = map_of by_id k)"
proof (induction R by_id sps rule: index_spans.induct)
  case (2 R by_id sp sps)
  then obtain u u' t where parts: "validate_id (rsp_trace sp) 32 ''trace ID'' = Inr u" "validate_id (rsp_id sp) 16 ''span ID'' = Inr u'"
    "map_of by_id (span_key sp) = None" "parse_time R (rsp_start sp) (''span '' @ ticked (rsp_id sp)) = Inr t"
    "index_spans R (bt_insert (span_key sp) sp by_id) sps = Inr m"
    by (auto simp: and_then_def split: sum.splits if_splits)
  from "2.IH" [OF parts(1,2) _ parts(4,5)] parts(3)
  have IH: "distinct (map span_key sps)"
    "\<forall>x\<in>set sps. indexed R x \<and> map_of (bt_insert (span_key sp) sp by_id) (span_key x) = None \<and> map_of m (span_key x) = Some x"
    "\<forall>k. k \<notin> span_key ` set sps \<longrightarrow> map_of m k = map_of (bt_insert (span_key sp) sp by_id) k" by simp_all
  have fresh: "span_key sp \<notin> span_key ` set sps" using IH(2) by (force simp: map_of_bt_insert)
  have "indexed R sp" using parts(1,2,4) by (simp add: indexed_def)
  moreover have "map_of m (span_key sp) = Some sp" using IH(3) fresh by (simp add: map_of_bt_insert)
  ultimately show ?case using IH fresh parts(3) by (auto simp: map_of_bt_insert split: if_splits)
qed simp

section \<open>The index of operations\<close>

definition interval :: "replay_text \<Rightarrow> replay_span \<Rightarrow> int \<times> int" where
  "interval R sp = (case (parse_time R (rsp_start sp) [], parse_time R (rsp_end sp) []) of (Inr s, Inr e) \<Rightarrow> (s, e) | _ \<Rightarrow> (0, 0))"

lemma parse_time_loc: "parse_time R v loc = Inr t \<Longrightarrow> parse_time R v loc' = Inr t"
  by (auto simp: parse_time_def split: option.splits if_splits)

lemma index_operation_result:
  assumes "index_operation R reg by_id oi sp = Inr oi'"
  shows "\<exists>op. decode_operation R reg sp = Inr op \<and> oi_decoded oi' = bt_insert (span_key sp) op (oi_decoded oi)"
    "oi_siblings oi' = bt_push (parent_key sp) (interval R sp) (oi_siblings oi)"
    "\<exists>parent. map_of by_id (parent_key sp) = Some parent \<and> rsp_name parent \<in> {''conformance.scenario'', ''conformance.operation''}"
    "top_start R sp = Some (fst (interval R sp))"
proof -
  obtain parent s e op where parts: "map_of by_id (parent_key sp) = Some parent"
    "rsp_name parent \<in> {''conformance.scenario'', ''conformance.operation''}"
    "parse_time R (rsp_start sp) ''operation start'' = Inr s" "parse_time R (rsp_end sp) ''operation end'' = Inr e"
    "decode_operation R reg sp = Inr op"
    "oi' = oi\<lparr>oi_siblings := bt_push (parent_key sp) (s, e) (oi_siblings oi), oi_decoded := bt_insert (span_key sp) op (oi_decoded oi)\<rparr>"
    using assms by (auto simp: index_operation_def and_then_def split: option.splits sum.splits if_splits)
  have "interval R sp = (s, e)" using parse_time_loc [OF parts(3), of "[]"] parse_time_loc [OF parts(4), of "[]"] by (simp add: interval_def)
  then show "\<exists>op. decode_operation R reg sp = Inr op \<and> oi_decoded oi' = bt_insert (span_key sp) op (oi_decoded oi)"
    "oi_siblings oi' = bt_push (parent_key sp) (interval R sp) (oi_siblings oi)"
    "\<exists>parent. map_of by_id (parent_key sp) = Some parent \<and> rsp_name parent \<in> {''conformance.scenario'', ''conformance.operation''}"
    "top_start R sp = Some (fst (interval R sp))"
    using parts parse_time_loc [OF parts(3), of "''top-level operation''"] by (auto simp: top_start_def)
qed

definition siblings_of :: "operation_index \<Rightarrow> span_key \<Rightarrow> (int \<times> int) list" where
  "siblings_of oi k = (case map_of (oi_siblings oi) k of None \<Rightarrow> [] | Some l \<Rightarrow> l)"

lemma index_operations_result:
  "index_operations R reg by_id oi sps = Inr oi' \<Longrightarrow> distinct (map span_key sps) \<Longrightarrow>
   (\<forall>sp\<in>set sps. top_start R sp = Some (fst (interval R sp)) \<and>
      (\<exists>op. decode_operation R reg sp = Inr op \<and> map_of (oi_decoded oi') (span_key sp) = Some op)) \<and>
   (\<forall>k. k \<notin> span_key ` set sps \<longrightarrow> map_of (oi_decoded oi') k = map_of (oi_decoded oi) k) \<and>
   (\<forall>k. siblings_of oi' k = siblings_of oi k @ map (interval R) (filter (\<lambda>sp. parent_key sp = k) sps))"
proof (induction R reg by_id oi sps rule: index_operations.induct)
  case (2 R reg by_id oi sp sps)
  then obtain mid where mid: "index_operation R reg by_id oi sp = Inr mid" "index_operations R reg by_id mid sps = Inr oi'"
    by (auto simp: and_then_def split: sum.splits)
  note one = index_operation_result [OF mid(1)]
  obtain op where op: "decode_operation R reg sp = Inr op" "oi_decoded mid = bt_insert (span_key sp) op (oi_decoded oi)" using one(1) by blast
  have fresh: "span_key sp \<notin> span_key ` set sps" "distinct (map span_key sps)" using "2.prems"(2) by simp_all
  note IH = "2.IH" [OF mid fresh(2)]
  have "siblings_of mid k = siblings_of oi k @ map (interval R) (filter (\<lambda>x. parent_key x = k) [sp])" for k
    by (simp add: siblings_of_def one(2) map_of_bt_push)
  then have sib: "siblings_of oi' k = siblings_of oi k @ map (interval R) (filter (\<lambda>x. parent_key x = k) (sp # sps))" for k
    using IH by simp
  have "map_of (oi_decoded oi') (span_key sp) = Some op" using IH fresh(1) op(2) by (simp add: map_of_bt_insert)
  moreover have "map_of (oi_decoded oi') k = map_of (oi_decoded oi) k" if "k \<notin> span_key ` set (sp # sps)" for k
    using IH that op(2) by (simp add: map_of_bt_insert)
  ultimately show ?case using IH op(1) one(4) sib by (metis (no_types, lifting) set_ConsD)
qed simp

section \<open>Siblings do not overlap\<close>

lemma not_overlapping:
  assumes "\<not> overlapping iv" "sorted iv"
  shows "sorted_wrt (\<lambda>a b. snd a \<le> fst b) iv"
  using assms
proof (induction iv rule: overlapping.induct)
  case (1 a b rest)
  have "fst b \<le> fst c" if "c \<in> set rest" for c using 1(3) that by (auto simp: less_eq_prod_def)
  then show ?case using 1 by force
qed auto

definition apart :: "replay_text \<Rightarrow> replay_span \<Rightarrow> replay_span \<Rightarrow> bool" where
  "apart R a b \<longleftrightarrow> snd (interval R a) \<le> fst (interval R b) \<or> snd (interval R b) \<le> fst (interval R a)"

lemma sorted_wrt_perm:
  assumes "\<And>a b. q a b \<Longrightarrow> q b a"
  shows "sorted_wrt q ys \<Longrightarrow> mset xs = mset ys \<Longrightarrow> sorted_wrt q xs"
proof (induction xs arbitrary: ys)
  case (Cons x xs)
  have "x \<in> set ys" using Cons.prems(2) by (metis list.set_intros(1) mset_eq_setD)
  then obtain as bs where ys: "ys = as @ x # bs" by (meson split_list)
  have m: "mset xs = mset (as @ bs)" using Cons.prems(2) by (simp add: ys)
  have "sorted_wrt q (as @ bs)" using Cons.prems(1) by (simp add: ys sorted_wrt_append)
  moreover have "q x z" if "z \<in> set xs" for z
    using Cons.prems(1) assms mset_eq_setD [OF m] that by (auto simp: ys sorted_wrt_append)
  ultimately show ?case using Cons.IH [OF _ m] by simp
qed simp

lemma siblings_apart:
  assumes "\<not> overlapping (sort (map (interval R) sps))"
  shows "mset ts = mset sps \<Longrightarrow> sorted_wrt (apart R) ts"
proof -
  define q where "q = (\<lambda>a b :: int \<times> int. snd a \<le> fst b \<or> snd b \<le> fst a)"
  assume m: "mset ts = mset sps"
  have "sorted_wrt (\<lambda>a b. snd a \<le> fst b) (sort (map (interval R) sps))" using not_overlapping [OF assms] by simp
  then have "sorted_wrt q (sort (map (interval R) sps))" by (rule sorted_wrt_mono_rel [rotated]) (simp add: q_def)
  moreover have "mset (map (interval R) ts) = mset (sort (map (interval R) sps))" using m by simp
  moreover have "q a b \<Longrightarrow> q b a" for a b by (auto simp: q_def)
  ultimately have "sorted_wrt q (map (interval R) ts)" by (metis sorted_wrt_perm)
  then show ?thesis by (simp add: sorted_wrt_map q_def apart_def [abs_def])
qed

section \<open>Operations\<close>

definition planned_operation :: "plan_registry \<Rightarrow> replay_operation \<Rightarrow> bool" where
  "planned_operation reg op \<longleftrightarrow>
     (\<exists>d\<in>set (pr_operations reg). rop_component op = ro_component d \<and> rop_name op = ro_name d \<and> rop_output op = ro_output d \<and>
        map (\<lambda>x. (ri_name x, ri_type x)) (rop_inputs op) = ro_inputs d \<and> (\<forall>x\<in>set (rop_inputs op). inhabits (ri_value x) (ri_type x)))"

lemma decode_inputs_result:
  assumes "decode_inputs R loc d vals = Inr xs"
  shows "map (\<lambda>x. (ri_name x, ri_type x)) xs = ro_inputs d" "\<forall>x\<in>set xs. inhabits (ri_value x) (ri_type x)"
proof -
  have one: "ri_name x = fst p \<and> ri_type x = snd p \<and> inhabits (ri_value x) (ri_type x)"
    if "(\<lambda>(name, t). case map_of vals name of
         None \<Rightarrow> replay_fail (''reference '' @ loc @ '' is missing declared input '' @ ticked name @ '' for '' @ operation_ref d)
       | Some v \<Rightarrow>
           and_then (decode_value R v t (loc @ '' input '' @ ticked name)) (\<lambda>x. Inr \<lparr>ri_name = name, ri_type = t, ri_value = x\<rparr>)) p = Inr x" for p x
    using that decode_value_inhabits by (auto simp: and_then_def split: option.splits prod.splits sum.splits)
  note r = assms [unfolded decode_inputs_def map_result_Inr]
  show "map (\<lambda>x. (ri_name x, ri_type x)) xs = ro_inputs d"
    using r by (auto simp: list_all2_conv_all_nth list_eq_iff_nth_eq dest!: one intro!: prod_eqI)
  show "\<forall>x\<in>set xs. inhabits (ri_value x) (ri_type x)"
    using map_result_each [OF assms [unfolded decode_inputs_def]] one by blast
qed

lemma decode_operation_planned:
  assumes "decode_operation R reg sp = Inr op"
  shows "planned_operation reg op"
proof -
  obtain m component name d xs where parts: "find_declaration reg component name = Some d"
    "replay_inputs R (''operation span '' @ ticked (rsp_id sp)) d m = Inr xs"
    "op = \<lparr>rop_component = component, rop_name = name, rop_inputs = xs, rop_output = ro_output d\<rparr>"
    using assms by (auto simp: decode_operation_def Let_def and_then_def split: sum.splits option.splits if_splits)
  have d: "d \<in> set (pr_operations reg)" "component = ro_component d" "name = ro_name d"
    using parts(1) by (auto simp: find_declaration_def find_Some_iff)
  obtain vals where "decode_inputs R (''operation span '' @ ticked (rsp_id sp)) d vals = Inr xs"
    using parts(2) by (auto simp: replay_inputs_def and_then_def split: sum.splits option.splits replay_any.splits if_splits)
  from decode_inputs_result [OF this] d parts(3) show ?thesis by (auto simp: planned_operation_def)
qed

section \<open>Scenarios\<close>

definition child_operations :: "span_key \<Rightarrow> replay_span list \<Rightarrow> replay_span list" where
  "child_operations key spans = filter (\<lambda>o'. rsp_name o' = ''conformance.operation'' \<and> parent_key o' = key) spans"

text \<open>What a scenario of the plan is for its span.\<close>

definition planned_scenario :: "replay_text \<Rightarrow> plan_registry \<Rightarrow> replay_span list \<Rightarrow> replay_span \<Rightarrow> replay_scenario \<Rightarrow> bool" where
  "planned_scenario R reg spans sp sc \<longleftrightarrow>
     rsc_name sc \<noteq> [] \<and>
     (\<exists>m s. (\<exists>loc. attribute_map (rsp_attributes sp) loc = Inr m) \<and> map_of m ''conformance.scenario.name'' = Some (OString (rsc_name sc)) \<and>
        map_of m ''conformance.scenario.index'' = Some (OInt s) \<and> parse_signed 64 s = Some (sint (rsc_index sc))) \<and>
     (\<exists>ops. mset ops = mset (child_operations (span_key sp) spans) \<and> ops \<noteq> [] \<and>
        sorted (map (fst \<circ> interval R) ops) \<and> sorted_wrt (apart R) ops \<and>
        list_all2 (\<lambda>o' op. decode_operation R reg o' = Inr op) ops (rsc_operations sc))"

lemma scenario_ref_of_result:
  assumes "scenario_ref_of R by_id (i, sp) = Inr r"
  shows "sref_key r = span_key sp" "sref_name r \<noteq> []" "0 \<le> sref_index r" "sref_index r < 2 ^ 63"
    "\<exists>m s loc. attribute_map (rsp_attributes sp) loc = Inr m \<and> map_of m ''conformance.scenario.name'' = Some (OString (sref_name r)) \<and>
       map_of m ''conformance.scenario.index'' = Some (OInt s) \<and> parse_signed 64 s = Some (sref_index r)"
    "\<exists>parent. map_of by_id (parent_key sp) = Some parent \<and> rsp_name parent = ''conformance.run''"
proof -
  obtain m loc name idx parent where parts: "attribute_map (rsp_attributes sp) loc = Inr m"
    "require_string m ''conformance.scenario.name'' None loc = Inr name" "name \<noteq> []" "require_integer R m ''conformance.scenario.index'' loc = Inr idx"
    "0 \<le> idx" "r = \<lparr>sref_key = span_key sp, sref_name = name, sref_index = idx, sref_position = i\<rparr>"
    "map_of by_id (parent_key sp) = Some parent" "rsp_name parent = ''conformance.run''"
    using assms by (auto simp: scenario_ref_of_def Let_def and_then_def guarded_def split: sum.splits option.splits if_splits)
  have n: "map_of m ''conformance.scenario.name'' = Some (OString name)"
    using parts(2) by (auto simp: require_string_def split: option.splits replay_any.splits)
  obtain s where s: "map_of m ''conformance.scenario.index'' = Some (OInt s)" "parse_signed 64 s = Some idx"
    using parts(4) by (auto simp: require_integer_def split: option.splits replay_any.splits)
  have "idx < 2 ^ 63" using parse_signed_bound [OF s(2)] by simp
  then show "sref_key r = span_key sp" "sref_name r \<noteq> []" "0 \<le> sref_index r" "sref_index r < 2 ^ 63"
    "\<exists>m s loc. attribute_map (rsp_attributes sp) loc = Inr m \<and> map_of m ''conformance.scenario.name'' = Some (OString (sref_name r)) \<and>
       map_of m ''conformance.scenario.index'' = Some (OInt s) \<and> parse_signed 64 s = Some (sref_index r)"
    "\<exists>parent. map_of by_id (parent_key sp) = Some parent \<and> rsp_name parent = ''conformance.run''"
    using parts n s by auto
qed

lemma check_indexes_result: "check_indexes n rs = Inr () \<Longrightarrow> map sref_index rs = map int [n..<n + length rs]"
  by (induction n rs rule: check_indexes.induct) (auto simp: upt_conv_Cons simp del: upt_Suc split: if_splits)

text \<open>The operations of a scenario in the order of their starts.\<close>

lemma filter_enumerate: "map snd (filter (\<lambda>(_, x). P x) (enumerate n xs)) = filter P xs"
  by (induction xs arbitrary: n) auto

lemma sorted_map_fst: "sorted (map f xs) \<Longrightarrow> sorted (map (\<lambda>x. fst (f x)) xs)"
  for f :: "'a \<Rightarrow> 'b::linorder \<times> 'c::linorder"
  unfolding sorted_map by (erule sorted_wrt_mono_rel [rotated]) (auto simp: less_eq_prod_def)

lemma no_overlap_siblings: "check_siblings oi = Inr () \<Longrightarrow> \<not> overlapping (sort (siblings_of oi k))"
  by (force simp: check_siblings_def siblings_of_def split: if_splits option.splits dest: map_of_SomeD)

lemma assemble_scenario_result:
  assumes oi: "index_operations R reg by_id \<lparr>oi_siblings = [], oi_decoded = []\<rparr> (spans_named ''conformance.operation'' spans) = Inr oi"
    and keys: "distinct (map span_key spans)" and apart: "check_siblings oi = Inr ()"
  shows "\<exists>ops. mset ops = mset (child_operations (sref_key r) spans) \<and>
      sorted (map (fst \<circ> interval R) ops) \<and> sorted_wrt (apart R) ops \<and>
      (if ops = [] then \<exists>m. assemble_scenario R oi spans r = Inl (ReplayError m)
       else \<exists>xs. list_all2 (\<lambda>o' op. decode_operation R reg o' = Inr op) ops xs \<and>
         assemble_scenario R oi spans r = Inr \<lparr>rsc_name = sref_name r, rsc_index = word_of_int (sref_index r), rsc_operations = xs\<rparr>)"
proof -
  define top where "top = filter (\<lambda>(_, sp). rsp_name sp = ''conformance.operation'' \<and> parent_key sp = sref_key r) (enumerate 0 spans)"
  define srt where "srt = sort_key (\<lambda>(position, sp). (the (top_start R sp), position)) top"
  define ops where "ops = map snd srt"
  have "distinct (map span_key (spans_named ''conformance.operation'' spans))"
    using keys by (simp add: spans_named_def distinct_map_filter)
  note res = index_operations_result [OF oi this]
  have tops: "map snd top = child_operations (sref_key r) spans"
    by (simp add: top_def child_operations_def filter_enumerate)
  have m: "mset ops = mset (child_operations (sref_key r) spans)" by (simp add: ops_def srt_def tops [symmetric])
  have members: "set ops \<subseteq> set (spans_named ''conformance.operation'' spans)"
    using mset_eq_setD [OF m] by (auto simp: child_operations_def spans_named_def)
  have starts: "top_start R sp = Some (fst (interval R sp))" if "sp \<in> set ops" for sp using res members that by blast
  have all: "\<forall>(_, sp)\<in>set top. top_start R sp \<noteq> None"
    using starts by (fastforce simp: ops_def srt_def)
  have "sorted (map (\<lambda>x. fst ((\<lambda>(position, sp). (the (top_start R sp), position)) x)) srt)"
    unfolding srt_def by (rule sorted_map_fst) simp
  moreover have "map (\<lambda>x. fst ((\<lambda>(position, sp). (the (top_start R sp), position)) x)) srt = map (fst \<circ> interval R) ops"
    using starts by (auto simp: ops_def) (metis image_eqI option.sel snd_conv)
  ultimately have s: "sorted (map (fst \<circ> interval R) ops)" by simp
  have "siblings_of oi (sref_key r) = map (interval R) (child_operations (sref_key r) spans)"
    using res by (simp add: siblings_of_def child_operations_def spans_named_def conj_commute)
  then have a: "sorted_wrt (apart R) ops"
    using siblings_apart [of R "child_operations (sref_key r) spans" ops] no_overlap_siblings [OF apart, of "sref_key r"] m by simp
  have dec: "\<exists>op. decode_operation R reg sp = Inr op \<and> map_of (oi_decoded oi) (span_key sp) = Some op" if "sp \<in> set ops" for sp
    using res members that by blast
  define xs where "xs = map (\<lambda>sp. the (map_of (oi_decoded oi) (span_key sp))) ops"
  have xs: "list_all2 (\<lambda>o' op. decode_operation R reg o' = Inr op \<and> map_of (oi_decoded oi) (span_key o') = Some op) ops xs"
    unfolding xs_def list_all2_map2 by (rule list_all2_same [THEN iffD2]) (use dec in fastforce)
  have "map_result (\<lambda>(_, sp). case map_of (oi_decoded oi) (span_key sp) of
          None \<Rightarrow> Inl (ReplayPanic ''every validated operation span was decoded before scenario assembly'') | Some op \<Rightarrow> Inr op) srt = Inr xs"
    unfolding map_result_Inr using xs unfolding ops_def list_all2_map1 by (rule list_all2_mono) auto
  then have "assemble_scenario R oi spans r =
      (if top = [] then replay_fail (''reference scenario '' @ ticked (sref_name r) @ '' contains no top-level operations'')
       else Inr \<lparr>rsc_name = sref_name r, rsc_index = word_of_int (sref_index r), rsc_operations = xs\<rparr>)"
    using all by (auto simp: assemble_scenario_def top_def [symmetric] srt_def [symmetric] Let_def and_then_def)
  moreover have "top = [] \<longleftrightarrow> ops = []" using m tops by (metis map_is_Nil_conv mset_zero_iff)
  moreover have "list_all2 (\<lambda>o' op. decode_operation R reg o' = Inr op) ops xs" using xs by (rule list_all2_mono) simp
  ultimately show ?thesis using m s a by (intro exI [of _ ops]) auto
qed

section \<open>Plans\<close>

lemma scenario_refs_result:
  assumes "scenario_refs R by_id names spans = Inr refs"
  shows "map sref_name refs = names" "map sref_index refs = map int [0..<length refs]"
    "\<exists>ss. mset ss = mset (spans_named ''conformance.scenario'' spans) \<and> list_all2 (\<lambda>sp r. \<exists>i. scenario_ref_of R by_id (i, sp) = Inr r) ss refs"
proof -
  define ps where "ps = filter (\<lambda>(_, sp). rsp_name sp = ''conformance.scenario'') (enumerate 0 spans)"
  obtain found where found: "map_result (scenario_ref_of R by_id) ps = Inr found"
    "refs = sort_key (\<lambda>r. (sref_index r, sref_position r)) found" "check_indexes 0 refs = Inr ()" "map sref_name refs = names"
    using assms by (auto simp: scenario_refs_def and_then_def ps_def Let_def split: sum.splits if_splits)
  show "map sref_name refs = names" using found(4) .
  show "map sref_index refs = map int [0..<length refs]" using check_indexes_result [OF found(3)] by simp
  have "list_all2 (\<lambda>sp r. \<exists>i. scenario_ref_of R by_id (i, sp) = Inr r) (map snd ps) found"
    using found(1) unfolding map_result_Inr list_all2_map1 by (rule list_all2_mono) (metis prod.collapse)
  then have "list_all2 (\<lambda>r sp. \<exists>i. scenario_ref_of R by_id (i, sp) = Inr r) found (map snd ps)"
    by (simp add: list_all2_conv_all_nth)
  from list_all2_reorder_left_invariance [OF this, of refs] obtain ss
    where "list_all2 (\<lambda>r sp. \<exists>i. scenario_ref_of R by_id (i, sp) = Inr r) refs ss" "mset ss = mset (map snd ps)"
    using found(2) by auto
  then show "\<exists>ss. mset ss = mset (spans_named ''conformance.scenario'' spans) \<and> list_all2 (\<lambda>sp r. \<exists>i. scenario_ref_of R by_id (i, sp) = Inr r) ss refs"
    by (intro exI [of _ ss]) (simp add: ps_def filter_enumerate spans_named_def list_all2_conv_all_nth)
qed

definition planned :: "replay_text \<Rightarrow> plan_registry \<Rightarrow> string list \<Rightarrow> replay_span list \<Rightarrow> replay_scenario list \<Rightarrow> bool" where
  "planned R reg names spans scs \<longleftrightarrow>
     distinct (map span_key spans) \<and> (\<forall>sp\<in>set spans. indexed R sp) \<and>
     (\<exists>run. spans_named ''conformance.run'' spans = [run] \<and> rsp_parent run = []) \<and>
     map rsc_name scs = names \<and> map (sint \<circ> rsc_index) scs = map int [0..<length scs] \<and>
     (\<exists>ss. mset ss = mset (spans_named ''conformance.scenario'' spans) \<and> list_all2 (planned_scenario R reg spans) ss scs)"

lemma decode_spans_stages:
  assumes "decode_spans R reg names spans = Inr (scs, observed)"
  obtains by_id refs oi where "index_spans R [] spans = Inr by_id" "check_runs spans = Inr ()" "scenario_refs R by_id names spans = Inr refs"
    "index_operations R reg by_id \<lparr>oi_siblings = [], oi_decoded = []\<rparr> (spans_named ''conformance.operation'' spans) = Inr oi"
    "check_siblings oi = Inr ()" "map_result (assemble_scenario R oi spans) refs = Inr scs" "observed = map snd (oi_decoded oi)"
  using assms by (auto simp: decode_spans_def and_then_def split: if_splits sum.splits)

lemma sint_index: "0 \<le> i \<Longrightarrow> i < 2 ^ 63 \<Longrightarrow> sint (word_of_int i :: i64) = i"
  by (rule trans [OF sint_sbintrunc']) (simp add: signed_take_bit_int_eq_self)

lemma decode_spans_planned:
  assumes "decode_spans R reg names spans = Inr (scs, observed)"
  shows "planned R reg names spans scs" "\<forall>sc\<in>set scs. \<forall>op\<in>set (rsc_operations sc). planned_operation reg op"
proof -
  obtain by_id refs oi where st: "index_spans R [] spans = Inr by_id" "check_runs spans = Inr ()" "scenario_refs R by_id names spans = Inr refs"
    "index_operations R reg by_id \<lparr>oi_siblings = [], oi_decoded = []\<rparr> (spans_named ''conformance.operation'' spans) = Inr oi"
    "check_siblings oi = Inr ()" "map_result (assemble_scenario R oi spans) refs = Inr scs"
    using assms by (rule decode_spans_stages)
  note idx = index_spans_result [OF st(1)] and refs = scenario_refs_result [OF st(3)]
  have one: "planned_scenario R reg spans sp sc \<and> rsc_name sc = sref_name r \<and> sint (rsc_index sc) = sref_index r"
    if r: "scenario_ref_of R by_id (i, sp) = Inr r" and sc: "assemble_scenario R oi spans r = Inr sc" for i sp r sc
  proof -
    note ref = scenario_ref_of_result [OF r]
    have idx': "sint (word_of_int (sref_index r) :: i64) = sref_index r" using ref(3,4) by (rule sint_index)
    obtain ops xs where ops: "mset ops = mset (child_operations (sref_key r) spans)" "ops \<noteq> []" "sorted (map (fst \<circ> interval R) ops)"
      "sorted_wrt (apart R) ops" "list_all2 (\<lambda>o' op. decode_operation R reg o' = Inr op) ops xs"
      "sc = \<lparr>rsc_name = sref_name r, rsc_index = word_of_int (sref_index r), rsc_operations = xs\<rparr>"
      using assemble_scenario_result [OF st(4) conjunct1 [OF idx] st(5), of r] sc by (auto split: if_splits)
    show ?thesis
      unfolding planned_scenario_def ops(6) using ref(1,2,5) idx' ops(1-5) by auto
  qed
  obtain ss where ss: "mset ss = mset (spans_named ''conformance.scenario'' spans)"
    "list_all2 (\<lambda>sp r. \<exists>i. scenario_ref_of R by_id (i, sp) = Inr r) ss refs" using refs(3) by blast
  have both: "list_all2 (\<lambda>sp sc. \<exists>r. (\<exists>i. scenario_ref_of R by_id (i, sp) = Inr r) \<and> assemble_scenario R oi spans r = Inr sc) ss scs"
    using ss(2) st(6) unfolding map_result_Inr by (simp add: list_all2_conv_all_nth) (metis (no_types))
  have all: "list_all2 (planned_scenario R reg spans) ss scs" using both by (rule list_all2_mono) (use one in blast)
  have n: "length refs = length scs" "\<And>k. k < length scs \<Longrightarrow> rsc_name (scs ! k) = sref_name (refs ! k) \<and> sint (rsc_index (scs ! k)) = sref_index (refs ! k)"
    using ss(2) st(6) one unfolding map_result_Inr list_all2_conv_all_nth by (simp, metis)
  have "map rsc_name scs = map sref_name refs" "map (sint \<circ> rsc_index) scs = map sref_index refs"
    using n by (simp_all add: list_eq_iff_nth_eq)
  moreover have "\<exists>run. spans_named ''conformance.run'' spans = [run] \<and> rsp_parent run = []"
    using st(2) by (cases "spans_named ''conformance.run'' spans") (auto simp: check_runs_def Let_def split: if_splits)
  ultimately show "planned R reg names spans scs"
    using idx refs(1,2) ss(1) all n(1) by (auto simp: planned_def)
  have "planned_operation reg op" if sc: "sc \<in> set scs" and op: "op \<in> set (rsc_operations sc)" for sc op
  proof -
    obtain sp where "planned_scenario R reg spans sp sc" using all sc by (metis list_all2_conv_all_nth in_set_conv_nth)
    then obtain ops where ops: "list_all2 (\<lambda>o' op. decode_operation R reg o' = Inr op) ops (rsc_operations sc)"
      unfolding planned_scenario_def by blast
    obtain k where "k < length (rsc_operations sc)" "op = rsc_operations sc ! k" using op by (metis in_set_conv_nth)
    then have "decode_operation R reg (ops ! k) = Inr op" using ops by (simp add: list_all2_conv_all_nth)
    then show ?thesis by (rule decode_operation_planned)
  qed
  then show "\<forall>sc\<in>set scs. \<forall>op\<in>set (rsc_operations sc). planned_operation reg op" by blast
qed

section \<open>No panics\<close>

definition no_replay_panic :: "replay_error + 'a \<Rightarrow> bool" where
  "no_replay_panic r \<longleftrightarrow> (\<forall>m. r \<noteq> Inl (ReplayPanic m))"

lemma replay_Inr_no_panic [simp]: "no_replay_panic (Inr x)" "no_replay_panic (Inl (ReplayError m))" "no_replay_panic (Inl (UnsupportedScheduling m))"
  by (simp_all add: no_replay_panic_def)

lemma replay_and_then_no_panic:
  "no_replay_panic r \<Longrightarrow> (\<And>x. r = Inr x \<Longrightarrow> no_replay_panic (f x)) \<Longrightarrow> no_replay_panic (and_then r f)"
  by (cases r) (simp_all add: no_replay_panic_def and_then_def)

lemma replay_map_result_no_panic: "(\<And>x. x \<in> set xs \<Longrightarrow> no_replay_panic (f x)) \<Longrightarrow> no_replay_panic (map_result f xs)"
  by (induction xs) (auto intro!: replay_and_then_no_panic)

lemma decode_primitive_no_panic: "no_replay_panic (decode_primitive R v name loc)"
  by (auto simp: decode_primitive_def decode_u64_def decode_f32_def decode_f64_def decode_integer_def and_then_def
      split: replay_any.split option.split wire_double.split sum.split)

lemma decode_entries_no_panic:
  "(\<And>x l. no_replay_panic (key_at x l)) \<Longrightarrow> (\<And>x l. no_replay_panic (item_at x l)) \<Longrightarrow>
   no_replay_panic (decode_entries key_at item_at loc i seen es)"
  by (induction es arbitrary: i seen)
     (auto intro!: replay_and_then_no_panic simp: entry_parts_def split: replay_any.split option.split)

lemma decode_members_no_panic:
  "(\<And>x l. no_replay_panic (item_at x l)) \<Longrightarrow> no_replay_panic (decode_members R item_at loc m kvs)"
  by (induction kvs arbitrary: m) (auto intro!: replay_and_then_no_panic)

lemma decode_value_no_panic: "no_replay_panic (decode_value R v t loc)"
proof (induction t arbitrary: v loc)
  case (PCollection t ordered unique)
  have "no_replay_panic (map_result (\<lambda>(i, x). decode_value R x t (index_loc loc i)) (enumerate 0 vs))" for vs
    by (rule replay_map_result_no_panic) (use PCollection in \<open>auto split: prod.split\<close>)
  then show ?case by (auto intro!: replay_and_then_no_panic split: replay_any.split)
next
  case (PMap k w ordered)
  then show ?case
    by (auto intro!: replay_and_then_no_panic decode_entries_no_panic decode_members_no_panic split: replay_any.split)
next
  case (PTuple ts)
  have "no_replay_panic (map_result (\<lambda>(i, t). decode_value R (vs ! i) t (index_loc loc i)) (enumerate 0 ts))" for vs
    by (rule replay_map_result_no_panic) (use PTuple in \<open>auto simp: enumerate_nth split: prod.split\<close>)
  then show ?case by (auto intro!: replay_and_then_no_panic split: replay_any.split)
next
  case (POptional t)
  then show ?case
    by (auto intro!: replay_and_then_no_panic decode_primitive_no_panic split: replay_any.split list.split prod.split)
qed (simp_all add: decode_primitive_no_panic)

lemma collect_unique_no_panic: "no_replay_panic (collect_unique message m kvs)"
  by (induction message m kvs rule: collect_unique.induct) auto

lemma require_no_panic:
  "no_replay_panic (require_string m key wanted loc)" "no_replay_panic (require_integer R m key loc)"
  "no_replay_panic (validate_id v n label)" "no_replay_panic (parse_time R v loc)" "no_replay_panic (guarded label v)"
  "no_replay_panic (attribute_map kvs loc)" "no_replay_panic (kvlist_map kvs loc)"
  by (auto simp: require_string_def require_integer_def validate_id_def parse_time_def guarded_def attribute_map_def kvlist_map_def
      collect_unique_no_panic split: option.split replay_any.split)

lemma check_event_no_panic: "no_replay_panic (check_event R loc d e)"
  unfolding check_event_def check_result_def check_error_def
  by (auto intro!: replay_and_then_no_panic require_no_panic decode_value_no_panic split: option.split)

lemma operation_inputs_no_panic: "no_replay_panic (replay_inputs R loc d m)"
  unfolding replay_inputs_def decode_inputs_def
  by (auto intro!: replay_and_then_no_panic replay_map_result_no_panic require_no_panic decode_value_no_panic
      split: option.split replay_any.split prod.split)

lemma decode_operation_no_panic: "no_replay_panic (decode_operation R reg sp)"
  unfolding decode_operation_def Let_def
  by (auto intro!: replay_and_then_no_panic replay_map_result_no_panic require_no_panic check_event_no_panic operation_inputs_no_panic
      split: option.split)

lemma index_spans_no_panic: "no_replay_panic (index_spans R by_id sps)"
  by (induction R by_id sps rule: index_spans.induct) (auto intro!: replay_and_then_no_panic require_no_panic)

lemma scenario_refs_no_panic: "no_replay_panic (scenario_refs R by_id names spans)"
proof -
  have "no_replay_panic (scenario_ref_of R by_id p)" for p
    by (auto simp: scenario_ref_of_def Let_def intro!: replay_and_then_no_panic require_no_panic split: prod.split option.split)
  moreover have "no_replay_panic (check_indexes n rs)" for n rs
    by (induction n rs rule: check_indexes.induct) auto
  ultimately show ?thesis
    by (auto simp: scenario_refs_def Let_def intro!: replay_and_then_no_panic replay_map_result_no_panic)
qed

lemma index_operations_no_panic: "no_replay_panic (index_operations R reg by_id oi sps)"
  by (induction R reg by_id oi sps rule: index_operations.induct)
     (auto simp: index_operation_def intro!: replay_and_then_no_panic require_no_panic decode_operation_no_panic split: option.split)

lemma decode_spans_no_panic: "no_replay_panic (decode_spans R reg names spans)"
proof -
  have assemble: "no_replay_panic (map_result (assemble_scenario R oi spans) refs)"
    if "index_spans R [] spans = Inr by_id" "check_siblings oi = Inr u"
      "index_operations R reg by_id \<lparr>oi_siblings = [], oi_decoded = []\<rparr> (spans_named ''conformance.operation'' spans) = Inr oi" for by_id oi refs u
  proof (rule replay_map_result_no_panic)
    fix r
    have "check_siblings oi = Inr ()" using that(2) by simp
    then show "no_replay_panic (assemble_scenario R oi spans r)"
      using assemble_scenario_result [OF that(3) conjunct1 [OF index_spans_result [OF that(1)]], of r] by (auto split: if_splits)
  qed
  show ?thesis
    unfolding decode_spans_def check_runs_def Let_def
    by (auto intro!: replay_and_then_no_panic index_spans_no_panic scenario_refs_no_panic index_operations_no_panic assemble
        simp: check_siblings_def split: if_splits)
qed

lemma decode_scenarios_no_panic: "no_replay_panic (decode_scenarios R reg names doc)"
proof -
  have "no_replay_panic (require_strings m kvs loc)" for m kvs loc
    by (induction m kvs loc rule: require_strings.induct) (auto intro!: replay_and_then_no_panic require_no_panic)
  then show ?thesis
    by (auto simp: decode_scenarios_def check_replay_resource_def intro!: replay_and_then_no_panic require_no_panic decode_spans_no_panic split: list.split)
qed

end
