(* ===== verification/Ctsc_Decode.thy ===== *)
theory Ctsc_Decode
  imports Ctsc_Planned Ctsc_Bundle
begin

text \<open>
  Decoding of a capture bundle for replay (\<open>specgate-ctsc/src/replay.rs\<close>, \<open>replay/manifest.rs\<close>): the
  manifest, the registry surface, the pinned digests, linked validation of structured outcomes, and the
  scenarios of the reference trace. serde's parsing of the three documents and SHA-256 are parameters.
\<close>

section \<open>Documents\<close>

record declared_op =
  do_name :: string
  do_inputs :: "plan_input list"
  do_result :: "plan_type option"
  do_empty :: "bool option"
  do_errors :: "plan_outcome list"

record declared_component =
  dc_id :: string
  dc_operations :: "declared_op list"

record registry_doc =
  rd_format :: string
  rd_format_version :: string
  rd_id :: string
  rd_version :: string
  rd_components :: "declared_component list"

record replay_parsers =
  parse_capture_manifest :: "string \<Rightarrow> capture_manifest option"
  parse_registry_doc :: "string \<Rightarrow> registry_doc option"
  parse_otlp_doc :: "string \<Rightarrow> replay_resource list option"
  debug_issues :: "issues \<Rightarrow> string"
  replay_texts :: replay_text
  replay_validators :: validators

definition bundle_digest :: "replay_parsers \<Rightarrow> string \<Rightarrow> string" where
  "bundle_digest P bytes = sha256_digest (val_registry (replay_validators P)) bytes"

section \<open>The manifest\<close>

text \<open>Deserializing the manifest includes the check of its digests (\<open>Digest::parse\<close>).\<close>

definition read_manifest :: "replay_parsers \<Rightarrow> string \<Rightarrow> replay_error + capture_manifest" where
  "read_manifest P bytes =
     (case parse_capture_manifest P bytes of
        Some m \<Rightarrow> if is_digest (man_registry_digest m) \<and> is_digest (man_reference_digest m) then Inr m
                  else replay_fail ''malformed capture manifest JSON''
      | None \<Rightarrow> replay_fail ''malformed capture manifest JSON'')"

definition validate_manifest :: "capture_manifest \<Rightarrow> replay_error + capture_manifest" where
  "validate_manifest m =
     (if man_format m \<noteq> ''specgate.capture-manifest'' \<or> man_format_version m \<noteq> ''0.1.0''
      then replay_fail (''unsupported capture manifest format/version '' @ ticked (man_format m @ ''/'' @ man_format_version m) @
             ''; expected '' @ ticked ''specgate.capture-manifest/0.1.0'')
      else if man_registry_path m \<noteq> ''registry.ctsc.json''
      then replay_fail (''capture manifest registry path must be '' @ ticked ''registry.ctsc.json'' @ '', found '' @ ticked (man_registry_path m))
      else if man_reference_path m \<noteq> ''reference.otlp.json''
      then replay_fail (''capture manifest reference path must be '' @ ticked ''reference.otlp.json'' @ '', found '' @ ticked (man_reference_path m))
      else if man_component m = [] \<or> man_target_name m = [] \<or> man_target_language m = [] \<or> man_tool_name m = [] \<or>
              man_tool_version m = [] \<or> man_registry_id m = [] \<or> man_registry_version m = []
      then replay_fail ''capture manifest identity fields must not be empty''
      else if length (man_names m) \<ge> 2 ^ 31 then replay_fail ''capture manifest scenario count exceeds i32''
      else if sint (man_count m) \<noteq> int (length (man_names m))
      then replay_fail (''capture manifest scenario count '' @ int_dec (sint (man_count m)) @ '' does not match '' @
             nat_dec (length (man_names m)) @ '' scenario names'')
      else if sint (man_count m) \<le> 0 then replay_fail ''capture manifest must declare at least one scenario''
      else if \<not> distinct (man_names m) then replay_fail ''capture manifest contains duplicate scenario names''
      else Inr m)"

section \<open>The registry\<close>

definition build_op :: "string \<Rightarrow> declared_op \<Rightarrow> replay_error + registry_op" where
  "build_op component op =
     and_then (guarded ''ComponentId'' component) (\<lambda>c.
     and_then (guarded ''OperationName'' (do_name op)) (\<lambda>name.
       if \<not> distinct (map fst (do_inputs op)) then replay_fail ''registry operation inputs must have unique names''
       else if \<not> distinct (map fst (do_errors op)) then replay_fail ''registry operation errors must have unique names''
       else Inr \<lparr>ro_component = c, ro_name = name, ro_inputs = do_inputs op, ro_output = do_result op,
                 ro_empty = (do_empty op = Some True), ro_errors = do_errors op\<rparr>))"

fun decode_ops :: "string \<Rightarrow> (string \<times> string) set \<Rightarrow> declared_op list \<Rightarrow> replay_error + registry_op list" where
  "decode_ops component seen [] = Inr []"
| "decode_ops component seen (op # ops) =
     (if do_name op = [] \<or> (component, do_name op) \<in> seen
      then replay_fail (''CTSC registry contains an empty or duplicate operation '' @ ticked (component @ ''::'' @ do_name op))
      else if card (set (map fst (do_inputs op))) \<noteq> length (do_inputs op)
      then replay_fail (''CTSC registry operation '' @ ticked (component @ ''::'' @ do_name op) @ '' contains duplicate input names'')
      else and_then (build_op component op) (\<lambda>built.
           and_then (decode_ops component (insert (component, do_name op) seen) ops) (\<lambda>rest. Inr (built # rest))))"

fun decode_components :: "string set \<Rightarrow> (string \<times> string) set \<Rightarrow> declared_component list \<Rightarrow> replay_error + registry_op list" where
  "decode_components ids keys [] = Inr []"
| "decode_components ids keys (c # cs) =
     (if dc_id c = [] \<or> dc_id c \<in> ids
      then replay_fail (''CTSC registry contains an empty or duplicate component ID '' @ ticked (dc_id c))
      else and_then (decode_ops (dc_id c) keys (dc_operations c)) (\<lambda>ops.
           and_then (decode_components (insert (dc_id c) ids) (keys \<union> (\<lambda>op. (dc_id c, do_name op)) ` set (dc_operations c)) cs) (\<lambda>rest.
             Inr (ops @ rest))))"

definition decode_registry :: "registry_doc \<Rightarrow> string \<Rightarrow> replay_error + plan_registry" where
  "decode_registry doc digest =
     and_then (decode_components {} {} (rd_components doc)) (\<lambda>ops.
       if ops = [] then replay_fail ''CTSC registry contains no operations''
       else and_then (guarded ''RegistryId'' (rd_id doc)) (\<lambda>id.
            and_then (guarded ''RegistryVersion'' (rd_version doc)) (\<lambda>version.
              if \<not> is_digest digest then Inl (ReplayPanic ''computed SHA-256 digest is canonical'')
              else Inr \<lparr>pr_id = id, pr_version = version, pr_digest = digest, pr_operations = ops\<rparr>)))"

section \<open>The bundle\<close>

definition structured_outcome :: "registry_op \<Rightarrow> bool" where
  "structured_outcome op \<longleftrightarrow>
     (case ro_output op of None \<Rightarrow> False | Some t \<Rightarrow> \<not> is_primitive t) \<or>
     (\<exists>e\<in>set (ro_errors op). case snd e of None \<Rightarrow> False | Some t \<Rightarrow> \<not> is_primitive t)"

definition check_outcomes :: "replay_parsers \<Rightarrow> plan_registry \<Rightarrow> string \<Rightarrow> string \<Rightarrow> replay_error + unit" where
  "check_outcomes P reg registry_bytes trace_bytes =
     (if \<exists>op\<in>set (pr_operations reg). structured_outcome op then
        (case validate_linked_bytes (replay_validators P) (''reference.otlp.json'', trace_bytes) (''registry.ctsc.json'', registry_bytes) [] of
           Inl _ \<Rightarrow> Inl (ReplayPanic ''linked validation'')
         | Inr report \<Rightarrow>
             if \<not> report_valid report
             then replay_fail (''structured replay outcomes failed linked validation: '' @ debug_issues P (report_issues report))
             else Inr ())
      else Inr ())"

definition check_identity :: "capture_manifest \<Rightarrow> registry_doc \<Rightarrow> replay_error + unit" where
  "check_identity m doc =
     (if rd_format doc \<noteq> ''ctsc.registry'' \<or> rd_format_version doc \<noteq> ''0.4.0''
      then replay_fail (''unsupported CTSC registry format/version '' @ ticked (rd_format doc @ ''/'' @ rd_format_version doc) @
             ''; expected '' @ ticked ''ctsc.registry/0.4.0'')
      else if rd_id doc \<noteq> man_registry_id m
      then replay_fail (''capture manifest registry ID '' @ ticked (man_registry_id m) @ '' does not match registry document '' @ ticked (rd_id doc))
      else if rd_version doc \<noteq> man_registry_version m
      then replay_fail (''capture manifest registry version '' @ ticked (man_registry_version m) @ '' does not match registry document '' @
             ticked (rd_version doc))
      else Inr ())"

definition check_pinned :: "string \<Rightarrow> string \<Rightarrow> string \<Rightarrow> replay_error + unit" where
  "check_pinned what wanted computed =
     (if wanted \<noteq> computed
      then replay_fail (''capture '' @ what @ '' digest mismatch: manifest declares '' @ ticked wanted @ '' but exact '' @ what @
             '' bytes digest to '' @ ticked computed)
      else Inr ())"

definition or_malformed :: "string \<Rightarrow> 'a option \<Rightarrow> replay_error + 'a" where
  "or_malformed what r = (case r of None \<Rightarrow> replay_fail (''malformed '' @ what @ '' JSON'') | Some x \<Rightarrow> Inr x)"

definition replay_decode :: "replay_parsers \<Rightarrow> string \<Rightarrow> string \<Rightarrow> string \<Rightarrow> replay_error + replay_bundle" where
  "replay_decode P manifest_bytes registry_bytes trace_bytes =
     and_then (and_then (read_manifest P manifest_bytes) validate_manifest) (\<lambda>m.
     and_then (check_pinned ''registry'' (man_registry_digest m) (bundle_digest P registry_bytes)) (\<lambda>_.
     and_then (check_pinned ''reference'' (man_reference_digest m) (bundle_digest P trace_bytes)) (\<lambda>_.
     and_then (or_malformed ''CTSC registry'' (parse_registry_doc P registry_bytes)) (\<lambda>doc.
     and_then (check_identity m doc) (\<lambda>_.
     and_then (decode_registry doc (bundle_digest P registry_bytes)) (\<lambda>reg.
     and_then (check_outcomes P reg registry_bytes trace_bytes) (\<lambda>_.
       if \<not> (\<exists>op\<in>set (pr_operations reg). ro_component op = man_component m)
       then replay_fail (''capture component '' @ ticked (man_component m) @ '' is absent from registry '' @ ticked (pr_id reg))
       else and_then (or_malformed ''reference OTLP'' (parse_otlp_doc P trace_bytes)) (\<lambda>otlp.
            and_then (decode_scenarios (replay_texts P) reg (man_names m) otlp) (\<lambda>(scs, observed).
            and_then (guarded ''ComponentId'' (man_component m)) (\<lambda>component.
              Inr \<lparr>rb_component = component, rb_registry = reg, rb_document = registry_bytes, rb_observed = observed, rb_scenarios = scs\<rparr>))))))))))"

section \<open>Decoded registries\<close>

lemma build_op_result:
  assumes "build_op component op = Inr built"
  shows "ro_component built = component" "ro_name built = do_name op" "distinct (map fst (ro_inputs built))" "ro_component built \<noteq> []"
  using assms by (auto simp: build_op_def and_then_def guarded_def split: if_splits)

lemma decode_ops_result:
  "decode_ops component seen ops = Inr out \<Longrightarrow>
   map (\<lambda>op. (ro_component op, ro_name op)) out = map (\<lambda>op. (component, do_name op)) ops \<and>
   distinct (map (\<lambda>op. (component, do_name op)) ops) \<and> (\<lambda>op. (component, do_name op)) ` set ops \<inter> seen = {} \<and>
   (\<forall>op\<in>set out. distinct (map fst (ro_inputs op)))"
proof (induction component seen ops arbitrary: out rule: decode_ops.induct)
  case (2 component seen op ops)
  then obtain built rest where b: "(component, do_name op) \<notin> seen" "build_op component op = Inr built"
    "decode_ops component (insert (component, do_name op) seen) ops = Inr rest" "out = built # rest"
    by (auto simp: and_then_def split: if_splits sum.splits)
  note IH = "2.IH" [OF _ _ b(2,3)] and op = build_op_result [OF b(2)]
  show ?case using IH op b "2.prems" by (auto split: if_splits)
qed simp

lemma decode_components_result:
  "decode_components ids keys cs = Inr out \<Longrightarrow>
   distinct (map (\<lambda>op. (ro_component op, ro_name op)) out) \<and> (\<lambda>op. (ro_component op, ro_name op)) ` set out \<inter> keys = {} \<and>
   (\<forall>op\<in>set out. distinct (map fst (ro_inputs op)))"
proof (induction ids keys cs arbitrary: out rule: decode_components.induct)
  case (2 ids keys c cs)
  then obtain ops rest where p: "decode_ops (dc_id c) keys (dc_operations c) = Inr ops"
    "decode_components (insert (dc_id c) ids) (keys \<union> (\<lambda>op. (dc_id c, do_name op)) ` set (dc_operations c)) cs = Inr rest" "out = ops @ rest"
    "\<not> (dc_id c = [] \<or> dc_id c \<in> ids)"
    by (auto simp: and_then_def split: if_splits sum.splits)
  note r = decode_ops_result [OF p(1)] and IH = "2.IH" [OF p(4,1,2)]
  define k where "k = (\<lambda>op :: registry_op. (ro_component op, ro_name op))"
  define D where "D = (\<lambda>op. (dc_id c, do_name op)) ` set (dc_operations c)"
  have keys_of: "map k ops = map (\<lambda>op. (dc_id c, do_name op)) (dc_operations c)" using r by (simp add: k_def)
  have "set (map k ops) = set (map (\<lambda>op. (dc_id c, do_name op)) (dc_operations c))" by (simp only: keys_of)
  then have ops: "k ` set ops = D" by (simp add: D_def)
  have distinct_ops: "distinct (map k ops)" "D \<inter> keys = {}" using r by (simp_all add: keys_of D_def)
  have rest: "distinct (map k rest)" "k ` set rest \<inter> (keys \<union> D) = {}" using IH by (simp_all add: k_def D_def)
  have "distinct (map k out)" "k ` set out \<inter> keys = {}"
    unfolding p(3) using ops distinct_ops rest by (auto simp: distinct_append image_Un)
  then show ?case using r IH unfolding p(3) k_def by auto
qed simp

lemma decode_registry_result:
  assumes "decode_registry doc digest = Inr reg"
  shows "pr_digest reg = digest" "pr_id reg = rd_id doc" "pr_version reg = rd_version doc"
    "distinct (map (\<lambda>op. (ro_component op, ro_name op)) (pr_operations reg))" "pr_operations reg \<noteq> []"
    "\<forall>op\<in>set (pr_operations reg). distinct (map fst (ro_inputs op))"
  using assms decode_components_result
  by (auto simp: decode_registry_def and_then_def guarded_def split: if_splits sum.splits)

section \<open>Bundles\<close>

lemma validate_manifest_result:
  "validate_manifest m = Inr m' \<Longrightarrow> m' = m \<and> man_component m \<noteq> [] \<and> man_names m \<noteq> [] \<and> distinct (man_names m)"
  by (auto simp: validate_manifest_def split: if_splits)

lemma replay_decode_stages:
  assumes "replay_decode P mb rb tb = Inr b"
  obtains m doc reg otlp where "parse_capture_manifest P mb = Some m" "validate_manifest m = Inr m"
    "man_registry_digest m = bundle_digest P rb" "man_reference_digest m = bundle_digest P tb"
    "parse_registry_doc P rb = Some doc" "check_identity m doc = Inr ()" "decode_registry doc (bundle_digest P rb) = Inr reg"
    "check_outcomes P reg rb tb = Inr ()" "\<exists>op\<in>set (pr_operations reg). ro_component op = man_component m"
    "parse_otlp_doc P tb = Some otlp" "decode_scenarios (replay_texts P) reg (man_names m) otlp = Inr (rb_scenarios b, rb_observed b)"
    "rb_component b = man_component m" "rb_registry b = reg" "rb_document b = rb"
proof -
  obtain m where m: "parse_capture_manifest P mb = Some m" "validate_manifest m = Inr m"
    using assms validate_manifest_result by (auto simp: replay_decode_def read_manifest_def and_then_def split: sum.splits option.splits if_splits)
  have first: "and_then (read_manifest P mb) validate_manifest = Inr m"
    using assms m by (auto simp: replay_decode_def read_manifest_def and_then_def split: sum.splits if_splits)
  obtain doc where doc: "parse_registry_doc P rb = Some doc" "man_registry_digest m = bundle_digest P rb" "man_reference_digest m = bundle_digest P tb"
    "check_identity m doc = Inr ()"
    using assms first by (auto simp: replay_decode_def and_then_def check_pinned_def or_malformed_def split: sum.splits option.splits if_splits)
  obtain reg where reg: "decode_registry doc (bundle_digest P rb) = Inr reg" "check_outcomes P reg rb tb = Inr ()"
    "\<exists>op\<in>set (pr_operations reg). ro_component op = man_component m"
    using assms first doc by (auto simp: replay_decode_def and_then_def check_pinned_def or_malformed_def split: sum.splits if_splits)
  obtain otlp where otlp: "parse_otlp_doc P tb = Some otlp"
    "decode_scenarios (replay_texts P) reg (man_names m) otlp = Inr (rb_scenarios b, rb_observed b)"
    "rb_component b = man_component m" "rb_registry b = reg" "rb_document b = rb"
    using assms first doc reg
    by (auto simp: replay_decode_def and_then_def check_pinned_def or_malformed_def guarded_def split: sum.splits option.splits if_splits)
  show thesis by (rule that [OF m doc(2,3,1,4) reg otlp])
qed

lemma decode_scenarios_spans:
  assumes "decode_scenarios R reg names doc = Inr r"
  obtains res where "doc = [res]" "check_replay_resource reg res = Inr ()" "decode_spans R reg names (resource_spans res) = Inr r"
  using assms by (auto simp: decode_scenarios_def and_then_def split: list.splits sum.splits)

lemma validate_linked_returns: "\<exists>report. validate_linked_bytes V t r linked = Inr report"
  using load_registry_bytes_returns [of "val_registry V" linked r] load_trace_bytes_returns [of V "fst t" "snd t"]
  by (auto simp: validate_linked_bytes_def and_then_def)

lemma decode_registry_no_panic:
  assumes "is_digest digest"
  shows "no_replay_panic (decode_registry doc digest)"
proof -
  have ops: "no_replay_panic (decode_ops component seen ops)" for component seen ops
    by (induction component seen ops rule: decode_ops.induct)
       (auto simp: build_op_def intro!: replay_and_then_no_panic require_no_panic)
  have "no_replay_panic (decode_components ids keys cs)" for ids keys cs
    by (induction ids keys cs rule: decode_components.induct) (auto intro!: replay_and_then_no_panic ops)
  then show ?thesis using assms by (auto simp: decode_registry_def intro!: replay_and_then_no_panic require_no_panic)
qed

section \<open>Samples\<close>

definition plan_texts :: replay_text where
  "plan_texts = \<lparr>int_error_text = (\<lambda>_. ''invalid digit''), str_debug = (\<lambda>s. s)\<rparr>"

definition sample_doc :: registry_doc where
  "sample_doc =
     \<lparr>rd_format = ''ctsc.registry'', rd_format_version = ''0.4.0'', rd_id = ''lib'', rd_version = ''1'',
      rd_components = [\<lparr>dc_id = ''shapes'', dc_operations = [\<lparr>do_name = ''scale'',
        do_inputs = [(''by'', PPrimitive ''i32''), (''tags'', PCollection (PPrimitive ''string'') False True)],
        do_result = Some (PPrimitive ''i64''), do_empty = None, do_errors = []\<rparr>]\<rparr>]\<rparr>"

definition plan_span :: "string \<Rightarrow> string \<Rightarrow> string \<Rightarrow> string \<Rightarrow> string \<Rightarrow> replay_attributes \<Rightarrow> replay_event list \<Rightarrow> replay_span" where
  "plan_span span parent name from to kvs events =
     \<lparr>rsp_trace = replicate 32 (CHR ''1''), rsp_id = span, rsp_parent = parent, rsp_name = name, rsp_start = from, rsp_end = to,
      rsp_attributes = kvs, rsp_events = events\<rparr>"

definition sample_otlp :: replay_resource where
  "sample_otlp =
     \<lparr>rres_attributes = map (\<lambda>key. (key, OString (bundle_resource key))) (required_attrs @ registry_attrs),
      rres_scopes =
        [[plan_span ''aaaaaaaaaaaaaaaa'' [] ''conformance.run'' ''1'' ''9'' [] [],
          plan_span ''bbbbbbbbbbbbbbbb'' ''aaaaaaaaaaaaaaaa'' ''conformance.scenario'' ''2'' ''8''
            [(''conformance.scenario.name'', OString ''doubling''), (''conformance.scenario.index'', OInt ''0'')] [],
          plan_span ''cccccccccccccccc'' ''bbbbbbbbbbbbbbbb'' ''conformance.operation'' ''3'' ''5''
            [(''conformance.component.id'', OString ''shapes''), (''conformance.operation.name'', OString ''scale''),
             (''conformance.operation.inputs'', OKvlist [(''by'', OInt ''2''), (''tags'', OArray [OString ''b'', OString ''a''])])]
            [\<lparr>rev_name = ''conformance.result'', rev_attributes = [(''conformance.result.value'', OInt ''4'')]\<rparr>]]]\<rparr>"

definition sample_parsers :: replay_parsers where
  "sample_parsers =
     \<lparr>parse_capture_manifest = (\<lambda>_. Some sample_manifest), parse_registry_doc = (\<lambda>_. Some sample_doc),
      parse_otlp_doc = (\<lambda>_. Some [sample_otlp]), debug_issues = (\<lambda>_. []), replay_texts = plan_texts, replay_validators = sample_validators\<rparr>"

definition sample_call :: replay_operation where
  "sample_call =
     \<lparr>rop_component = ''shapes'', rop_name = ''scale'',
      rop_inputs =
        [\<lparr>ri_name = ''by'', ri_type = PPrimitive ''i32'', ri_value = RI32 2\<rparr>,
         \<lparr>ri_name = ''tags'', ri_type = PCollection (PPrimitive ''string'') False True, ri_value = RSet [RText ''a'', RText ''b'']\<rparr>],
      rop_output = Some (PPrimitive ''i64'')\<rparr>"

lemma sample_manifest_read: "and_then (read_manifest sample_parsers bytes) validate_manifest = Inr sample_manifest"
  by (simp add: read_manifest_def validate_manifest_def sample_parsers_def sample_manifest_def is_digest_def starts_with_def is_lower_hex_def list_all_iff)

lemma sample_digest: "is_digest (bundle_digest sample_parsers bytes)"
  by (simp add: bundle_digest_def sample_parsers_def sample_validators_def sample_env_def sha256_digest_def is_digest_def starts_with_def is_lower_hex_def list_all_iff)

definition sample_plan :: plan_registry where
  "sample_plan = \<lparr>pr_id = ''lib'', pr_version = ''1'', pr_digest = bundle_digest sample_parsers ''B'',
     pr_operations = [\<lparr>ro_component = ''shapes'', ro_name = ''scale'', ro_inputs =
        [(''by'', PPrimitive ''i32''), (''tags'', PCollection (PPrimitive ''string'') False True)],
        ro_output = Some (PPrimitive ''i64''), ro_empty = False, ro_errors = []\<rparr>]\<rparr>"

lemma sample_registry_decoded:
  "decode_registry sample_doc (bundle_digest sample_parsers ''B'') = Inr sample_plan"
  by code_simp

lemma sample_resource: "check_replay_resource sample_plan sample_otlp = Inr ()"
  by code_simp

lemma sample_spans:
  "decode_spans plan_texts sample_plan [''doubling''] (resource_spans sample_otlp) =
   Inr ([\<lparr>rsc_name = ''doubling'', rsc_index = 0, rsc_operations = [sample_call]\<rparr>], [sample_call])"
  by code_simp

definition sample_replay :: replay_bundle where
  "sample_replay =
     \<lparr>rb_component = ''shapes'', rb_registry = sample_plan, rb_document = ''B'', rb_observed = [sample_call],
      rb_scenarios = [\<lparr>rsc_name = ''doubling'', rsc_index = 0, rsc_operations = [sample_call]\<rparr>]\<rparr>"

lemma sample_decoded: "replay_decode sample_parsers ''M'' ''B'' ''T'' = Inr sample_replay"
proof -
  have pins: "check_pinned ''registry'' (man_registry_digest sample_manifest) (bundle_digest sample_parsers ''B'') = Inr ()"
    "check_pinned ''reference'' (man_reference_digest sample_manifest) (bundle_digest sample_parsers ''T'') = Inr ()"
    "check_identity sample_manifest sample_doc = Inr ()" "check_outcomes sample_parsers sample_plan ''B'' ''T'' = Inr ()"
    by code_simp+
  have scs: "decode_scenarios plan_texts sample_plan (man_names sample_manifest) [sample_otlp] =
    Inr (rb_scenarios sample_replay, rb_observed sample_replay)"
    using sample_resource sample_spans by (simp add: decode_scenarios_def sample_manifest_def sample_replay_def)
  have comp: "man_component sample_manifest = ''shapes''" "\<exists>op\<in>set (pr_operations sample_plan). ro_component op = ''shapes''"
    by (simp_all add: sample_manifest_def sample_plan_def)
  have parsed: "parse_registry_doc sample_parsers ''B'' = Some sample_doc" "parse_otlp_doc sample_parsers ''T'' = Some [sample_otlp]"
    "replay_texts sample_parsers = plan_texts" by (simp_all add: sample_parsers_def)
  show ?thesis
    unfolding replay_decode_def sample_manifest_read parsed or_malformed_def
    using pins scs comp by (simp add: sample_registry_decoded guarded_def sample_replay_def)
qed

section \<open>Properties\<close>


text \<open>C29: the order of the elements of an unordered collection does not matter for replay.\<close>

theorem replay_collection_perm:
  assumes "mset ws = mset vs" "decode_value R (OArray vs) (PCollection t False no_repeats) loc = Inr x"
  shows "decode_value R (OArray ws) (PCollection t False no_repeats) loc = Inr x"
  using decode_collection_perm [OF assms] .

lemma replay_collection_perm_witness:
  "decode_value plan_texts (OArray [OString ''b'', OString ''a'']) (PCollection (PPrimitive ''string'') False False) [] =
   Inr (RList [RText ''a'', RText ''b''])"
proof -
  have "decode_value plan_texts (OArray [OString ''a'', OString ''b'']) (PCollection (PPrimitive ''string'') False False) [] =
    Inr (RList [RText ''a'', RText ''b''])" by code_simp
  then show ?thesis by (rule replay_collection_perm [rotated]) simp
qed

text \<open>
  C6: a decoded bundle is pinned and linked: the manifest names the digests of the exact registry and
  trace bytes, the registry declares each operation once and declares the component, structured outcomes
  passed linked validation, and the plan has the scenarios of the manifest, in order, one per scenario
  span, each with its top-level operations in order of their start, pairwise not overlapping, as calls of
  declared operations with exactly the declared inputs, each a value of its type.
\<close>

theorem replay_bundle_sound:
  assumes "replay_decode P mb rb tb = Inr b"
  shows "\<exists>m res. parse_capture_manifest P mb = Some m \<and> parse_otlp_doc P tb = Some [res] \<and>
    man_registry_digest m = bundle_digest P rb \<and> man_reference_digest m = bundle_digest P tb \<and>
    pr_digest (rb_registry b) = bundle_digest P rb \<and> rb_component b = man_component m \<and>
    distinct (map (\<lambda>op. (ro_component op, ro_name op)) (pr_operations (rb_registry b))) \<and>
    (\<exists>op\<in>set (pr_operations (rb_registry b)). ro_component op = rb_component b) \<and>
    check_outcomes P (rb_registry b) rb tb = Inr () \<and>
    planned (replay_texts P) (rb_registry b) (man_names m) (resource_spans res) (rb_scenarios b) \<and>
    (\<forall>sc\<in>set (rb_scenarios b). \<forall>op\<in>set (rsc_operations sc). planned_operation (rb_registry b) op)"
proof -
  obtain m doc reg otlp where st: "parse_capture_manifest P mb = Some m" "man_registry_digest m = bundle_digest P rb"
    "man_reference_digest m = bundle_digest P tb" "decode_registry doc (bundle_digest P rb) = Inr reg" "check_outcomes P reg rb tb = Inr ()"
    "\<exists>op\<in>set (pr_operations reg). ro_component op = man_component m" "parse_otlp_doc P tb = Some otlp"
    "decode_scenarios (replay_texts P) reg (man_names m) otlp = Inr (rb_scenarios b, rb_observed b)"
    "rb_component b = man_component m" "rb_registry b = reg"
    using assms by (rule replay_decode_stages) blast
  obtain res where res: "otlp = [res]" "decode_spans (replay_texts P) reg (man_names m) (resource_spans res) = Inr (rb_scenarios b, rb_observed b)"
    using st(8) by (rule decode_scenarios_spans)
  show ?thesis
    using st res(1) decode_registry_result(1,4) [OF st(4)] decode_spans_planned [OF res(2)] by (intro exI [of _ m] exI [of _ res]) simp
qed

lemma replay_bundle_sound_witness:
  "distinct (map (\<lambda>op. (ro_component op, ro_name op)) (pr_operations sample_plan)) \<and>
   replay_decode sample_parsers ''M'' ''B'' ''T'' = Inr sample_replay \<and>
   planned plan_texts sample_plan [''doubling''] (resource_spans sample_otlp) (rb_scenarios sample_replay)"
  using replay_bundle_sound [OF sample_decoded] sample_decoded
  by (auto simp: sample_parsers_def sample_manifest_def sample_replay_def)



end
