(* ===== verification/Spec2Isabelle.thy ===== *)
theory Spec2Isabelle
  imports Ctsc_Encoder Ctsc_Bundle Ctsc_Capture Ctsc_Folding Ctsc_Decode
begin

text \<open>
  SpecGate records what annotated operations of a program do as CTSC traces (OTLP JSON documents),
  validates such traces against registries of declared components, and compares two traces for
  strict equivalence. This development models the libraries that carry this logic:
  \<open>specgate-ctsc\<close> (validation, comparison, capture encoding, replay decoding), the capture sessions of
  \<open>specgate-runtime\<close> and the selection of \<open>specgate-cli\<close>. Paths below are under \<open>src/rust/crates\<close>.

  \<^bold>\<open>The parts and how they interact.\<close> A session of the runtime records operations of all threads
  and futures into a capture. The command line selects the subtrees of one component and hands them to
  the encoder, which writes one OTLP document. Validation loads documents into spans, checks the rules
  of CTSC Trace Core, loads the registry with its imports, and checks every value of the trace against
  the declared types; a bundle pins registry and trace by digest. Comparison takes two loaded traces,
  canonicalizes values by their declared types and reports differences. Replay reads a bundle back into
  scenarios of typed calls. The theories follow this
  structure; each opens with the source it models.

  \<^bold>\<open>Shared material.\<close> \<open>Ctsc_Prelude\<close> has the lemmas on decimal text, lists, ordered maps (a \<open>BTreeMap\<close>
  is a sorted association list), fallible steps and issue lists; \<open>Ctsc_Ord\<close> the order of canonical
  values as an instance of the library's classes; \<open>Ctsc_Values\<close>, \<open>Ctsc_Numbers\<close> and \<open>Ctsc_Render\<close> the
  values of \<open>validation/trace_model.rs\<close>, the numbers of OTLP and rendering.

  \<^bold>\<open>Validation\<close> (\<open>specgate-ctsc/src/validation\<close>).
  \<^item> \<open>Ctsc_Registry_Model\<close> (\<open>model.rs\<close>), \<open>Ctsc_Canonical\<close> and \<open>Ctsc_Linked\<close> (\<open>linked.rs\<close>): declared types,
    canonical values and the checks of operation spans. Shown: each primitive type accepts exactly its
    domain, a validated value has a canonical one, canonical collections and maps do not depend on
    element order, and a trace without linked diagnostics matches its declarations.
  \<^item> \<open>Ctsc_Trace\<close> (\<open>trace.rs\<close>, \<open>ancestry.rs\<close>, \<open>fault.rs\<close>) with \<open>Ctsc_Ancestry\<close> and \<open>Ctsc_Validated\<close>: the rules
    of Trace Core. Shown: a validated trace is a forest of runs, operations have the declared shape, and
    the memoised ancestor walk equals the plain one. The walk has fuel \<open>Suc (length spans)\<close>; a longer
    walk would repeat a span.
  \<^item> \<open>Ctsc_Otlp\<close>, \<open>Ctsc_Fields\<close>, \<open>Ctsc_Loading\<close>, \<open>Ctsc_Loaded\<close> (\<open>otlp.rs\<close>, \<open>trace/fields.rs\<close>, loading in
    \<open>trace.rs\<close>): JSON into spans. Shown: the value parser accepts exactly the values with a meaning, a load
    without issues yields exactly the CTSC spans of the documents, well formed, and loading returns for
    every input.
  \<^item> \<open>Ctsc_Shape\<close>, \<open>Ctsc_Imports\<close>, \<open>Ctsc_Cycles\<close>, \<open>Ctsc_Loader\<close>, \<open>Ctsc_Registry\<close> (\<open>registry.rs\<close>,
    \<open>registry/shape.rs\<close>, \<open>registry/uri.rs\<close>): one registry document, its imports, and the loaded set. Shown:
    the shape checks accept exactly the well-formed documents, the cycle check is exact, a loaded set is
    pinned by version and digest, its types link, and loading returns. The import loop has as much fuel as
    there are readable files plus one: every round but the last selects a new file.
  \<^item> \<open>Ctsc_Bundle\<close> (\<open>mod.rs\<close>, \<open>bundle.rs\<close>): the validators over bytes and bundles. Shown: what a bundle
    without issues guarantees, and that the validators return a report.

  \<^bold>\<open>Comparison\<close> (\<open>comparison.rs\<close>, \<open>comparison/engine.rs\<close>, \<open>comparison/report.rs\<close>): \<open>Ctsc_Comparison\<close> is the
  engine, \<open>Ctsc_Semantics\<close> the meaning of a trace (ordered or unordered trees of canonical values without
  identifiers and times), \<open>Ctsc_Strict\<close> shows that the engine decides equality of meanings, so the
  verdict is symmetric, transitive and independent of identifiers, clocks and record order. The
  recursion over children has the number of reference spans as fuel, which suffices on validated traces.

  \<^bold>\<open>Capture\<close>. \<open>Ctsc_Encoding\<close> (\<open>capture.rs\<close>, \<open>capture/encoding.rs\<close>, \<open>capture/otlp.rs\<close>) is the encoder;
  \<open>Ctsc_Encoded\<close> and \<open>Ctsc_Encoder\<close> show that its documents load back into the spans it laid out, with
  consecutive identifiers and sequential scenarios, and when it panics. \<open>Ctsc_Native\<close> is the state of a
  capture session of \<open>specgate-runtime\<close> (\<open>capture.rs\<close>, \<open>capture/snapshot.rs\<close>) with every operation on it;
  \<open>Ctsc_Recorded\<close> and \<open>Ctsc_Actions\<close> prove its invariant, through the locale \<open>session_action\<close>, for each
  of them; \<open>Ctsc_Captured\<close> concludes what finished captures satisfy. \<open>Ctsc_Session\<close> adds the handles: slots
  of threads, scopes and the contexts of futures (\<open>capture/async_context.rs\<close>), as a step relation whose
  reachable states cover every interleaving. The search for a free span identifier has two more than the
  number of operations as bound, plus one: the reserved identifiers are finitely many and candidates are
  distinct. \<open>Ctsc_Selected\<close> (\<open>specgate-cli/src/capture/filter.rs\<close>) is the selection of a component, and
  \<open>Ctsc_Capture\<close> states the properties that span the session, the selection, the encoder and the loader.

  \<^bold>\<open>Setups\<close> (\<open>specgate-runtime/src/capture/setup.rs\<close>, \<open>registry.rs\<close>). \<open>Ctsc_Setup\<close> has the link-time metadata, the
  fields of property types (the recursion ends because a type may not enclose itself), recording and
  folding of setup inputs, and the check of all declarations at the start of a session. \<open>Ctsc_Folding\<close>
  shows that an accepted registry folds without panics: the names of setups and of unfilled parameters
  are distinct, every recorded value reaches the operation, and each argument is recorded once. It assumes
  that setups with one identity have the same parameters (\<open>identified\<close>) and shows what happens otherwise.

  \<^bold>\<open>Replay\<close> (\<open>specgate-ctsc/src/replay.rs\<close>, \<open>replay\<close>). \<open>Ctsc_Plan\<close> is the planning model of \<open>model.rs\<close> with the
  derived order of values as an instance of \<open>linorder\<close>; \<open>Ctsc_Replay\<close> decodes values, operations and scenarios
  (\<open>otlp.rs\<close>, \<open>otlp/value.rs\<close>, \<open>otlp/wire.rs\<close>); \<open>Ctsc_Decode\<close> adds \<open>manifest.rs\<close>, the registry surface and the
  decoder of a bundle. \<open>Ctsc_Replayed\<close> shows that values decode to exactly the inhabitants of their types,
  whatever the order of unordered collections, \<open>Ctsc_Planned\<close> what a decoded scenario is for its span.
  Shown of bundles: registry and trace are the pinned ones, the plan has the scenarios of the manifest
  with their top-level operations in order as well-typed calls, and decoding never panics.

  \<^bold>\<open>Parameters.\<close> SHA-256, base64, percent decoding, URI authorities, the text of JSON numbers and serde's
  parsing of JSON text are arguments of the definitions that use them, as is the file system (a map from
  paths to bytes) and the write of a capture's sidecar.

  \<^bold>\<open>Not modelled.\<close> Reading and writing files, processes and reports of the command line; the serde-derived
  parsing (\<open>validation/otlp/schema.rs\<close>); discovery, which runs cargo and dotnet; the procedural macros, which
  are programs over third-party syntax trees; the C# side; the driver that
  executes replay plans, which starts processes of other languages; and the registry encoder
  (\<open>registry.rs\<close>, \<open>registry/normalized.rs\<close>), which serializes discovered metadata to JSON.
\<close>

end
